(* ===== verification/Prelude.thy ===== *)
theory Prelude
  imports Main "HOL-Library.Char_ord" "HOL-Library.Code_Target_Nat" "HOL-Library.List_Lexorder" "HOL-Library.Product_Lexorder"
begin

text \<open>
  Shared vocabulary of the development: the exceptions the Python code can raise, the
  result type of a call that may raise, the collections the component proofs draw on, and
  generic facts on lists, sorted selections and the lexicographic order of strings.
\<close>

section \<open>Results and exceptions\<close>

text \<open>
  One constructor per Python exception class that the modelled code raises, lets through or
  catches; the string is the text of \<open>str(exc)\<close> where the code looks at it.
\<close>

datatype exn =
    AttributeError
  | IndexError
  | KeyError string
  | TypeError
  | ValueError
  | OverflowError
  | JSONDecodeError
  | OperationalError string
  | ConnectionResetError
  | BrokenPipeError
  | ParseError string
  | ValidationFailure string
  | OSError
  | OtherError string

type_synonym 'a result = "exn + 'a"

abbreviation Raise :: "exn \<Rightarrow> 'a result" where "Raise e \<equiv> Inl e"
abbreviation Ok :: "'a \<Rightarrow> 'a result" where "Ok x \<equiv> Inr x"

definition bind_result :: "'a result \<Rightarrow> ('a \<Rightarrow> 'b result) \<Rightarrow> 'b result" where
  "bind_result r f = (case r of Inl e \<Rightarrow> Inl e | Inr x \<Rightarrow> f x)"

lemma bind_result_simps [simp]:
  "bind_result (Inl e) f = Inl e"
  "bind_result (Inr x) f = f x"
  by (simp_all add: bind_result_def)

lemma bind_result_Ok [simp]: "bind_result r f = Inr y \<longleftrightarrow> (\<exists>x. r = Inr x \<and> f x = Inr y)"
  by (cases r) auto

named_theorems str_defs \<open>definitions of the Python string primitives\<close>
named_theorems queue_defs \<open>definitions of the queue operations\<close>
named_theorems inv_intros \<open>preservation lemmas of the component invariants\<close>

section \<open>Lists\<close>

lemma distinct_map_filter [simp]: "distinct (map f xs) \<Longrightarrow> distinct (map f (filter P xs))"
  by (induction xs) auto

lemma distinct_map_take [intro]: "distinct (map f xs) \<Longrightarrow> distinct (map f (take n xs))"
  by (simp add: take_map [symmetric])

lemma map_eq_on: "(\<And>x. x \<in> set xs \<Longrightarrow> f x = x) \<Longrightarrow> map f xs = xs"
  by (induction xs) auto

lemma distinct_map_unique:
  "distinct (map f xs) \<Longrightarrow> x \<in> set xs \<Longrightarrow> y \<in> set xs \<Longrightarrow> f x = f y \<Longrightarrow> x = y"
  by (auto simp: distinct_map inj_on_def)

lemma find_Some_in: "List.find P xs = Some x \<Longrightarrow> x \<in> set xs \<and> P x"
  by (induction xs) (auto split: if_splits)

lemma find_None_all: "List.find P xs = None \<longleftrightarrow> (\<forall>x\<in>set xs. \<not> P x)"
  by (induction xs) auto

lemma find_key_unique:
  assumes "distinct (map f xs)" and "x \<in> set xs" and "f x = k"
  shows "List.find (\<lambda>y. f y = k) xs = Some x"
  using assms by (induction xs) (auto simp: image_iff)

lemma takeWhile_dropWhile_id: "takeWhile P xs @ dropWhile P xs = xs"
  by simp

text \<open>A number is compared by its quotient first and its remainder second.\<close>

lemma divmod_lex:
  fixes a b k :: nat
  shows "a < b \<longleftrightarrow> a div k < b div k \<or> (a div k = b div k \<and> a mod k < b mod k)"
proof (cases "a div k" "b div k" rule: linorder_cases)
  case less
  then show ?thesis by (metis div_le_mono leD linorder_not_less)
next
  case equal
  then have "a < b \<longleftrightarrow> a mod k < b mod k"
    by (metis div_mult_mod_eq nat_add_left_cancel_less)
  with equal show ?thesis by simp
next
  case greater
  then show ?thesis by (metis div_le_mono leD less_imp_le_nat less_not_refl2)
qed

lemma find_append:
  "List.find P (xs @ ys) = (case List.find P xs of None \<Rightarrow> List.find P ys | Some x \<Rightarrow> Some x)"
  by (induction xs) auto

section \<open>The lexicographic order of strings\<close>

text \<open>
  SQLite's \<open>BINARY\<close> collation compares text byte by byte, a proper prefix first: the
  order of HOL-Library's \<open>List_Lexorder\<close> over \<open>char\<close>.
\<close>

lemma lex_append_less:
  fixes u1 u2 v1 v2 :: "'a::linorder list"
  assumes "length u1 = length u2"
  shows "u1 @ v1 < u2 @ v2 \<longleftrightarrow> u1 < u2 \<or> (u1 = u2 \<and> v1 < v2)"
  using assms by (induction u1 u2 rule: list_induct2) auto

lemma lex_append_le:
  fixes u1 u2 v1 v2 :: "'a::linorder list"
  assumes "length u1 = length u2"
  shows "u1 @ v1 \<le> u2 @ v2 \<longleftrightarrow> u1 < u2 \<or> (u1 = u2 \<and> v1 \<le> v2)"
  using assms by (induction u1 u2 rule: list_induct2) auto

lemma lex_append_cancel [simp]:
  fixes u v1 v2 :: "'a::linorder list"
  shows "u @ v1 < u @ v2 \<longleftrightarrow> v1 < v2" and "u @ v1 \<le> u @ v2 \<longleftrightarrow> v1 \<le> v2"
  by (simp_all add: lex_append_less lex_append_le)

end
