(* ===== verification/Py_Str.thy ===== *)
theory Py_Str
  imports Prelude
begin

text \<open>
  The Python \<open>str\<close> and \<open>bytes\<close> primitives that the program uses. A Python string is a
  \<open>char list\<close> whose characters are the code points below 256 (Latin-1); on these,
  \<open>str.lower\<close>, \<open>str.strip\<close>, \<open>str.find\<close>, \<open>str.partition\<close> and the decimal
  formatting below are exactly CPython's. Longer code points are outside the model.
\<close>

section \<open>Case and white space\<close>

text \<open>\<open>str.lower\<close> on one code point: \<open>A..Z\<close> and the capital letters of the Latin-1 block.\<close>

definition lower_char :: "char \<Rightarrow> char" where
  "lower_char c = (let n = of_char c :: nat in
     if 65 \<le> n \<and> n \<le> 90 \<or> 192 \<le> n \<and> n \<le> 222 \<and> n \<noteq> 215 then char_of (n + 32) else c)"

definition py_lower :: "string \<Rightarrow> string" where
  "py_lower = map lower_char"

text \<open>\<open>str.isspace\<close> on one code point.\<close>

definition is_space :: "char \<Rightarrow> bool" where
  "is_space c = (let n = of_char c :: nat in
     9 \<le> n \<and> n \<le> 13 \<or> 28 \<le> n \<and> n \<le> 32 \<or> n = 133 \<or> n = 160)"

definition rstrip_by :: "(char \<Rightarrow> bool) \<Rightarrow> string \<Rightarrow> string" where
  "rstrip_by p s = rev (dropWhile p (rev s))"

definition strip_by :: "(char \<Rightarrow> bool) \<Rightarrow> string \<Rightarrow> string" where
  "strip_by p s = rstrip_by p (dropWhile p s)"

text \<open>\<open>s.strip()\<close> and \<open>s.strip(chars)\<close>, \<open>s.rstrip(chars)\<close>.\<close>

definition strip :: "string \<Rightarrow> string" where
  "strip = strip_by is_space"

definition strip_chars :: "string \<Rightarrow> string \<Rightarrow> string" where
  "strip_chars cs = strip_by (\<lambda>c. c \<in> set cs)"

definition rstrip_chars :: "string \<Rightarrow> string \<Rightarrow> string" where
  "rstrip_chars cs = rstrip_by (\<lambda>c. c \<in> set cs)"

lemma of_char_lower_char:
  "(of_char (lower_char c) :: nat) = (let n = of_char c in
     if 65 \<le> n \<and> n \<le> 90 \<or> 192 \<le> n \<and> n \<le> 222 \<and> n \<noteq> 215 then n + 32 else n)"
  by (auto simp: lower_char_def Let_def of_char_of)

lemma lower_char_idem [simp]: "lower_char (lower_char c) = lower_char c"
proof -
  have "(of_char (lower_char (lower_char c)) :: nat) = of_char (lower_char c)"
    by (simp only: of_char_lower_char [of "lower_char c"]) (auto simp: of_char_lower_char Let_def)
  then show ?thesis by simp
qed

lemma py_lower_idem [simp]: "py_lower (py_lower s) = py_lower s"
  by (simp add: py_lower_def comp_def)

lemma py_lower_append [simp]: "py_lower (s @ t) = py_lower s @ py_lower t"
  by (simp add: py_lower_def)

lemma py_lower_Nil [simp]: "py_lower [] = []"
  by (simp add: py_lower_def)

lemma py_lower_eq_Nil [simp]: "py_lower s = [] \<longleftrightarrow> s = []"
  by (simp add: py_lower_def)

section \<open>Searching and cutting\<close>

definition startswith :: "string \<Rightarrow> string \<Rightarrow> bool" where
  "startswith s p \<longleftrightarrow> take (length p) s = p"

text \<open>\<open>s.find(p)\<close>: the least offset of \<open>p\<close>; \<open>None\<close> stands for \<open>-1\<close>.\<close>

fun find_sub :: "string \<Rightarrow> string \<Rightarrow> nat option" where
  "find_sub p [] = (if p = [] then Some 0 else None)"
| "find_sub p (c # s) = (if startswith (c # s) p then Some 0 else map_option Suc (find_sub p s))"

definition py_find :: "string \<Rightarrow> string \<Rightarrow> int" where
  "py_find s p = (case find_sub p s of None \<Rightarrow> -1 | Some i \<Rightarrow> int i)"

definition contains :: "string \<Rightarrow> string \<Rightarrow> bool" where
  "contains s p \<longleftrightarrow> find_sub p s \<noteq> None"

text \<open>\<open>s.split(c, 1)[0]\<close>, \<open>s.partition(c)\<close> and \<open>s.rsplit(c, 1)\<close> for a one-character separator.\<close>

definition before_first :: "char \<Rightarrow> string \<Rightarrow> string" where
  "before_first c s = takeWhile (\<lambda>x. x \<noteq> c) s"

definition after_first :: "char \<Rightarrow> string \<Rightarrow> string" where
  "after_first c s = tl (dropWhile (\<lambda>x. x \<noteq> c) s)"

definition before_last :: "char \<Rightarrow> string \<Rightarrow> string" where
  "before_last c s = rev (after_first c (rev s))"

definition after_last :: "char \<Rightarrow> string \<Rightarrow> string" where
  "after_last c s = rev (before_first c (rev s))"

lemma startswith_append [simp]: "startswith (p @ s) p"
  by (simp add: startswith_def)

lemma startswith_iff: "startswith s p \<longleftrightarrow> (\<exists>t. s = p @ t)"
  by (auto simp: startswith_def) (metis append_take_drop_id)

lemma find_sub_single:
  "find_sub [c] s = (if c \<in> set s then Some (length (before_first c s)) else None)"
  by (induction s) (auto simp: startswith_def before_first_def)

lemma contains_Nil [simp]: "contains s []"
  by (cases s) (simp_all add: contains_def startswith_def)

lemma contains_iff: "contains s p \<longleftrightarrow> (\<exists>u v. s = u @ p @ v)"
proof (induction s)
  case Nil
  then show ?case by (auto simp: contains_def)
next
  case (Cons c s)
  show ?case
  proof
    assume "contains (c # s) p"
    then consider "startswith (c # s) p" | "contains s p"
      by (auto simp: contains_def split: if_splits)
    then show "\<exists>u v. c # s = u @ p @ v"
    proof cases
      case 1
      then show ?thesis by (metis append_Nil startswith_iff)
    next
      case 2
      then show ?thesis using Cons.IH by (metis append_Cons)
    qed
  next
    assume "\<exists>u v. c # s = u @ p @ v"
    then obtain u v where uv: "c # s = u @ p @ v" by blast
    show "contains (c # s) p"
    proof (cases u)
      case Nil
      then have "startswith (c # s) p" using uv by (simp add: startswith_iff)
      then show ?thesis by (simp add: contains_def)
    next
      case (Cons d u')
      then have "contains s p" using uv Cons.IH by auto
      then show ?thesis by (auto simp: contains_def)
    qed
  qed
qed

lemma upto_first: "c \<notin> set b \<Longrightarrow> takeWhile (\<lambda>x. x \<noteq> c) (b @ c # r) = b \<and> dropWhile (\<lambda>x. x \<noteq> c) (b @ c # r) = c # r"
  by (induction b) auto

lemma split_first_eq: "c \<notin> set k \<Longrightarrow> before_first c (k @ c # v) = k \<and> after_first c (k @ c # v) = v"
  using upto_first [of c k v] by (simp add: before_first_def after_first_def)

lemma split_last_eq: "c \<notin> set d \<Longrightarrow> after_last c (l @ c # d) = d \<and> before_last c (l @ c # d) = l"
proof -
  assume "c \<notin> set d"
  then have all: "\<And>x. x \<in> set (rev d) \<Longrightarrow> x \<noteq> c" by auto
  show ?thesis
    using takeWhile_append2 [of "rev d" "\<lambda>x. x \<noteq> c", OF all]
      dropWhile_append2 [of "rev d" "\<lambda>x. x \<noteq> c", OF all]
    by (simp add: after_last_def before_last_def before_first_def after_first_def)
qed

lemma split_last_join: "c \<in> set s \<Longrightarrow> s = before_last c s @ c # after_last c s \<and> c \<notin> set (after_last c s)"
  by (metis split_last_eq split_list_last)

section \<open>Decimal numbers\<close>

fun digit_char :: "nat \<Rightarrow> char" where
  "digit_char n = char_of (48 + n)"

fun nat_str :: "nat \<Rightarrow> string" where
  "nat_str n = (if n < 10 then [digit_char n] else nat_str (n div 10) @ [digit_char (n mod 10)])"

declare nat_str.simps [simp del]

text \<open>\<open>str(i)\<close> for an integer.\<close>

definition int_str :: "int \<Rightarrow> string" where
  "int_str i = (if i < 0 then ''-'' @ nat_str (nat (- i)) else nat_str (nat i))"

text \<open>\<open>"%0wd" % n\<close> for a non-negative number that fits \<open>w\<close> digits.\<close>

fun pad :: "nat \<Rightarrow> nat \<Rightarrow> string" where
  "pad 0 n = []"
| "pad (Suc w) n = pad w (n div 10) @ [digit_char (n mod 10)]"

lemma length_pad [simp]: "length (pad w n) = w"
  by (induction w arbitrary: n) auto

lemma digit_char_less: "a < 10 \<Longrightarrow> b < 10 \<Longrightarrow> digit_char a < digit_char b \<longleftrightarrow> a < b"
  by (simp add: less_char_def of_char_of)

lemma digit_char_inj [simp]:
  fixes a b :: nat
  assumes "a < 10" and "b < 10"
  shows "char_of (48 + a) = (char_of (48 + b) :: char) \<longleftrightarrow> a = b"
proof -
  have "(of_char (char_of (48 + a) :: char) :: nat) = 48 + a"
    "(of_char (char_of (48 + b) :: char) :: nat) = 48 + b"
    using assms by (simp_all add: of_char_of)
  then show ?thesis by (metis add_left_cancel)
qed

lemma pad_eq_iff: "a < 10 ^ w \<Longrightarrow> b < 10 ^ w \<Longrightarrow> pad w a = pad w b \<longleftrightarrow> a = b"
proof (induction w arbitrary: a b)
  case (Suc w)
  have "a div 10 < 10 ^ w" "b div 10 < 10 ^ w" using Suc.prems by auto
  then have "pad w (a div 10) = pad w (b div 10) \<longleftrightarrow> a div 10 = b div 10" by (rule Suc.IH)
  then show ?case by simp (metis div_mult_mod_eq)
qed simp

lemma pad_less_iff: "a < 10 ^ w \<Longrightarrow> b < 10 ^ w \<Longrightarrow> pad w a < pad w b \<longleftrightarrow> a < b"
proof (induction w arbitrary: a b)
  case (Suc w)
  have d: "a div 10 < 10 ^ w" "b div 10 < 10 ^ w" using Suc.prems by auto
  have dig: "digit_char (a mod 10) < digit_char (b mod 10) \<longleftrightarrow> a mod 10 < b mod 10"
    by (intro digit_char_less) simp_all
  have one: "[x] < [y] \<longleftrightarrow> x < y" for x y :: char by simp
  have "pad (Suc w) a < pad (Suc w) b \<longleftrightarrow>
      pad w (a div 10) < pad w (b div 10) \<or>
      (pad w (a div 10) = pad w (b div 10) \<and> digit_char (a mod 10) < digit_char (b mod 10))"
    by (simp only: pad.simps lex_append_less length_pad one)
  also have "\<dots> \<longleftrightarrow>
      a div 10 < b div 10 \<or> (a div 10 = b div 10 \<and> a mod 10 < b mod 10)"
    by (simp only: Suc.IH [OF d] pad_eq_iff [OF d] dig)
  also have "\<dots> \<longleftrightarrow> a < b" by (rule divmod_lex [symmetric])
  finally show ?case .
qed simp

text \<open>Reading a fixed-width decimal field back, and the round trip.\<close>

definition is_digit :: "char \<Rightarrow> bool" where
  "is_digit c \<longleftrightarrow> 48 \<le> (of_char c :: nat) \<and> (of_char c :: nat) \<le> 57"

definition digit_val :: "char \<Rightarrow> nat" where
  "digit_val c = of_char c - 48"

definition dec_val :: "string \<Rightarrow> nat" where
  "dec_val s = foldl (\<lambda>a c. 10 * a + digit_val c) 0 s"

definition read_dec :: "string \<Rightarrow> nat option" where
  "read_dec s = (if s \<noteq> [] \<and> list_all is_digit s then Some (dec_val s) else None)"

lemma digit_char_digit [simp]: "n < 10 \<Longrightarrow> is_digit (char_of (48 + n)) \<and> digit_val (char_of (48 + n)) = n"
  by (simp add: is_digit_def digit_val_def of_char_of)

lemma dec_val_snoc [simp]: "dec_val (s @ [c]) = 10 * dec_val s + digit_val c"
  by (simp add: dec_val_def)

lemma pad_digits [simp]: "list_all is_digit (pad w n)"
  by (induction w arbitrary: n) auto

lemma dec_val_pad: "n < 10 ^ w \<Longrightarrow> dec_val (pad w n) = n"
proof (induction w arbitrary: n)
  case 0
  then show ?case by (simp add: dec_val_def)
next
  case (Suc w)
  then have "n div 10 < 10 ^ w" by auto
  with Suc.IH show ?case by simp
qed

lemma read_dec_pad: "0 < w \<Longrightarrow> n < 10 ^ w \<Longrightarrow> read_dec (pad w n) = Some n"
  by (cases w) (auto simp: read_dec_def dec_val_pad simp del: pad.simps, metis length_pad list.size(3) nat.distinct(1))

end
