(* ===== verification/Py_Time.thy ===== *)
theory Py_Time
  imports Py_Str "HOL-Library.Monad_Syntax"
begin

text \<open>
  Python's \<open>datetime\<close> as the program uses it: a wall-clock count of microseconds since
  \<open>0001-01-01 00:00:00\<close> and an optional UTC offset, the proleptic Gregorian calendar that
  turns it into fields, \<open>isoformat\<close>, \<open>fromisoformat\<close> on the texts \<open>isoformat\<close> writes, and
  \<open>timedelta\<close> arithmetic with its \<open>OverflowError\<close>. The point of the theory is
  \<open>stamp_less_iff\<close>: the text order of the stored timestamps is the order of time.
\<close>

section \<open>Calendar\<close>

definition is_leap :: "nat \<Rightarrow> bool" where
  "is_leap y \<longleftrightarrow> y mod 4 = 0 \<and> (y mod 100 \<noteq> 0 \<or> y mod 400 = 0)"

definition days_in_year :: "nat \<Rightarrow> nat" where
  "days_in_year y = (if is_leap y then 366 else 365)"

definition days_in_month :: "nat \<Rightarrow> nat \<Rightarrow> nat" where
  "days_in_month y m =
     (if m = 2 then (if is_leap y then 29 else 28)
      else if m \<in> {4, 6, 9, 11} then 30 else 31)"

definition days_before_year :: "nat \<Rightarrow> nat" where
  "days_before_year y = (let p = y - 1 in p * 365 + p div 4 - p div 100 + p div 400)"

fun days_before_month :: "nat \<Rightarrow> nat \<Rightarrow> nat" where
  "days_before_month y 0 = 0"
| "days_before_month y (Suc m) = (if m = 0 then 0 else days_before_month y m + days_in_month y m)"

text \<open>The ordinal of a date (\<open>0001-01-01\<close> is day 1), and back.\<close>

definition ymd2ord :: "nat \<Rightarrow> nat \<Rightarrow> nat \<Rightarrow> nat" where
  "ymd2ord y m d = days_before_year y + days_before_month y m + d"

text \<open>The year of a day index, and the month of a day index within its year, found by search.\<close>

lemma days_before_year_ge: "y \<le> days_before_year (Suc y)"
proof -
  have "y div 100 \<le> y div 4" by (simp add: div_le_mono2)
  then show ?thesis by (simp add: days_before_year_def Let_def)
qed

function find_year :: "nat \<Rightarrow> nat \<Rightarrow> nat" where
  "find_year y n = (if n < days_before_year (Suc y) then y else find_year (Suc y) n)"
  by pat_completeness auto
termination
proof (relation "measure (\<lambda>(y, n). n + 1 - y)")
  fix y n assume "\<not> n < days_before_year (Suc y)"
  then show "((Suc y, n), (y, n)) \<in> measure (\<lambda>(y, n). n + 1 - y)"
    using days_before_year_ge [of y] by simp
qed simp

function find_month :: "nat \<Rightarrow> nat \<Rightarrow> nat \<Rightarrow> nat" where
  "find_month y m n = (if n < days_before_month y (Suc m) \<or> 12 \<le> m then m else find_month y (Suc m) n)"
  by pat_completeness auto
termination
  by (relation "measure (\<lambda>(y, m, n). 12 - m)") auto

declare find_year.simps [simp del] find_month.simps [simp del]

definition ord2ymd :: "nat \<Rightarrow> nat \<times> nat \<times> nat" where
  "ord2ymd n =
     (let k = n - 1;
          y = find_year (k div 366 + 1) k;
          r = k - days_before_year y;
          m = find_month y 1 r
      in (y, m, Suc (r - days_before_month y m)))"

lemma days_before_year_Suc: "1 \<le> y \<Longrightarrow> days_before_year (Suc y) = days_before_year y + days_in_year y"
proof -
  assume y: "1 \<le> y"
  define p where "p = y - 1"
  have yp: "y = Suc p" using y by (simp add: p_def)
  have a: "Suc p div 4 = p div 4 + (if Suc p mod 4 = 0 then 1 else 0)"
    "Suc p div 100 = p div 100 + (if Suc p mod 100 = 0 then 1 else 0)"
    "Suc p div 400 = p div 400 + (if Suc p mod 400 = 0 then 1 else 0)"
    by (simp_all add: div_Suc)
  have "(100::nat) dvd 400" "(4::nat) dvd 100" by simp_all
  then have b: "Suc p mod 400 = 0 \<Longrightarrow> Suc p mod 100 = 0" "Suc p mod 100 = 0 \<Longrightarrow> Suc p mod 4 = 0"
    by (metis dvd_trans mod_eq_0_iff_dvd)+
  have c: "p div 100 \<le> p div 4" by (simp add: div_le_mono2)
  define i j k where "i = p div 4" and "j = p div 100" and "k = p div 400"
  define P Q R where "P = (Suc p mod 4 = 0)" and "Q = (Suc p mod 100 = 0)" and "R = (Suc p mod 400 = 0)"
  have up: "days_before_year (Suc y) = Suc p * 365 + (i + (if P then 1 else 0))
      - (j + (if Q then 1 else 0)) + (k + (if R then 1 else 0))"
    by (simp only: yp days_before_year_def Let_def diff_Suc_1 a i_def j_def k_def P_def Q_def R_def)
  have here: "days_before_year y = p * 365 + i - j + k"
    by (simp add: yp days_before_year_def Let_def i_def j_def k_def)
  have year: "days_in_year y = 365 + (if P \<and> (\<not> Q \<or> R) then 1 else 0)"
    by (simp add: yp days_in_year_def is_leap_def P_def Q_def R_def)
  have "R \<Longrightarrow> Q" "Q \<Longrightarrow> P" "j \<le> i"
    using b c by (simp_all only: P_def Q_def R_def i_def j_def)
  then show ?thesis by (cases P; cases Q; cases R) (simp_all add: up here year)
qed

lemma days_before_year_start: "days_before_year (k div 366 + 1) \<le> k"
proof -
  define p where "p = k div 366"
  have "p div 400 \<le> p div 100" "p div 4 \<le> p" by (simp_all add: div_le_mono2)
  then have "days_before_year (p + 1) \<le> p * 366" by (simp add: days_before_year_def Let_def)
  also have "\<dots> \<le> k" by (simp add: p_def)
  finally show ?thesis by (simp add: p_def)
qed

lemma days_before_year_mono: "1 \<le> a \<Longrightarrow> a \<le> b \<Longrightarrow> days_before_year a \<le> days_before_year b"
proof (induction b)
  case (Suc b)
  then show ?case by (cases "a = Suc b") (auto simp: days_before_year_Suc)
qed simp

lemma days_before_month_mono: "a \<le> b \<Longrightarrow> days_before_month y a \<le> days_before_month y b"
  by (rule lift_Suc_mono_le) auto

lemma days_before_month_13: "days_before_month y 13 = days_in_year y"
  by (simp add: numeral_eq_Suc days_in_month_def days_in_year_def)

lemma days_in_month_pos [simp]: "0 < days_in_month y m"
  by (simp add: days_in_month_def)

lemma find_year_spec:
  "1 \<le> y \<Longrightarrow> days_before_year y \<le> n \<Longrightarrow>
     y \<le> find_year y n \<and> days_before_year (find_year y n) \<le> n \<and>
     n < days_before_year (Suc (find_year y n))"
proof (induction y n rule: find_year.induct)
  case (1 y n)
  then show ?case
    by (cases "n < days_before_year (Suc y)") (auto simp: find_year.simps [of y n])
qed

lemma find_month_spec:
  "1 \<le> m \<Longrightarrow> m \<le> 12 \<Longrightarrow> days_before_month y m \<le> n \<Longrightarrow> n < days_before_month y 13 \<Longrightarrow>
     m \<le> find_month y m n \<and> find_month y m n \<le> 12 \<and>
     days_before_month y (find_month y m n) \<le> n \<and> n < days_before_month y (Suc (find_month y m n))"
proof (induction y m n rule: find_month.induct)
  case (1 y m n)
  show ?case
  proof (cases "n < days_before_month y (Suc m) \<or> 12 \<le> m")
    case True
    moreover have "Suc m = 13" if "12 \<le> m" using that "1.prems" by simp
    ultimately show ?thesis using "1.prems" by (auto simp: find_month.simps [of y m n] simp del: days_before_month.simps)
  next
    case False
    with "1.IH" [OF False] "1.prems" show ?thesis
      by (auto simp: find_month.simps [of y m n] simp del: days_before_month.simps)
  qed
qed

definition valid_ymd :: "nat \<times> nat \<times> nat \<Rightarrow> bool" where
  "valid_ymd = (\<lambda>(y, m, d). 1 \<le> y \<and> 1 \<le> m \<and> m \<le> 12 \<and> 1 \<le> d \<and> d \<le> days_in_month y m)"

lemma ord2ymd_spec:
  assumes "1 \<le> n" and "ord2ymd n = (y, m, d)"
  shows "valid_ymd (y, m, d)" and "ymd2ord y m d = n"
proof -
  define k where "k = n - 1"
  define r where "r = k - days_before_year y"
  have y: "y = find_year (k div 366 + 1) k"
    and m: "m = find_month y 1 r" and d: "d = Suc (r - days_before_month y m)"
    using assms(2) by (auto simp: ord2ymd_def Let_def k_def r_def)
  have fy: "1 \<le> y" "days_before_year y \<le> k" "k < days_before_year (Suc y)"
    using find_year_spec [OF _ days_before_year_start, of k] unfolding y by auto
  then have "r < days_in_year y" using days_before_year_Suc [OF fy(1)] by (simp add: r_def)
  then have fm: "1 \<le> m" "m \<le> 12" "days_before_month y m \<le> r" "r < days_before_month y (Suc m)"
  proof -
    have "days_before_month y 1 \<le> r" by simp
    with find_month_spec [of 1 y r] \<open>r < days_in_year y\<close> show "1 \<le> m" "m \<le> 12"
      "days_before_month y m \<le> r" "r < days_before_month y (Suc m)"
      unfolding m by (simp_all only: days_before_month_13 le_refl one_le_numeral simp_thms)
  qed
  show "valid_ymd (y, m, d)" using fy fm d by (auto simp: valid_ymd_def)
  show "ymd2ord y m d = n" using fy fm d assms(1) by (simp add: ymd2ord_def r_def k_def)
qed

lemma ymd2ord_less:
  assumes v: "valid_ymd (y1, m1, d1)" "valid_ymd (y2, m2, d2)"
    and l: "(y1, m1, d1) < (y2, m2, d2)"
  shows "ymd2ord y1 m1 d1 < ymd2ord y2 m2 d2"
proof -
  have upto: "days_before_month y m + d \<le> days_before_month y (Suc m)"
    if "valid_ymd (y, m, d)" for y m d
    using that by (auto simp: valid_ymd_def)
  have upto_year: "days_before_month y m + d \<le> days_in_year y" if "valid_ymd (y, m, d)" for y m d
  proof -
    have "Suc m \<le> 13" using that by (simp add: valid_ymd_def)
    then show ?thesis
      using upto [OF that] days_before_month_mono [of "Suc m" 13 y] by (simp add: days_before_month_13)
  qed
  consider "y1 < y2" | "y1 = y2" "m1 < m2" | "y1 = y2" "m1 = m2" "d1 < d2"
    using l by (auto simp: less_prod_simp le_less)
  then show ?thesis
  proof cases
    case 1
    then have "days_before_year (Suc y1) \<le> days_before_year y2"
      using v by (intro days_before_year_mono) (auto simp: valid_ymd_def)
    moreover have "days_before_year (Suc y1) = days_before_year y1 + days_in_year y1"
      using v by (intro days_before_year_Suc) (auto simp: valid_ymd_def)
    moreover have "0 < d2" using v by (simp add: valid_ymd_def)
    ultimately show ?thesis using upto_year [OF v(1)] by (simp add: ymd2ord_def)
  next
    case 2
    then have "days_before_month y1 (Suc m1) \<le> days_before_month y1 m2"
      by (intro days_before_month_mono) simp
    moreover have "0 < d2" using v by (simp add: valid_ymd_def)
    ultimately show ?thesis using upto [OF v(1)] 2 by (simp add: ymd2ord_def)
  next
    case 3
    then show ?thesis by (simp add: ymd2ord_def)
  qed
qed

lemma ord2ymd_less_iff:
  assumes "1 \<le> a" and "1 \<le> b"
  shows "ord2ymd a < ord2ymd b \<longleftrightarrow> a < b"
proof -
  obtain y1 m1 d1 y2 m2 d2 where e: "ord2ymd a = (y1, m1, d1)" "ord2ymd b = (y2, m2, d2)"
    by (metis prod_cases3)
  note s1 = ord2ymd_spec [OF assms(1) e(1)] and s2 = ord2ymd_spec [OF assms(2) e(2)]
  show ?thesis
  proof (cases "ord2ymd a" "ord2ymd b" rule: linorder_cases)
    case less
    with ymd2ord_less [OF s1(1) s2(1)] s1(2) s2(2) e show ?thesis by simp
  next
    case equal
    with s1(2) s2(2) e show ?thesis by simp
  next
    case greater
    moreover have "b < a" using greater ymd2ord_less [OF s2(1) s1(1)] s1(2) s2(2) e by simp
    ultimately show ?thesis by (simp add: not_less_iff_gr_or_eq order.asym)
  qed
qed

lemma ord2ymd_eq_iff:
  assumes "1 \<le> a" and "1 \<le> b"
  shows "ord2ymd a = ord2ymd b \<longleftrightarrow> a = b"
proof (cases a b rule: linorder_cases)
  case less
  then have "ord2ymd a < ord2ymd b" using ord2ymd_less_iff [OF assms] by simp
  with less show ?thesis by auto
next
  case greater
  then have "ord2ymd b < ord2ymd a" using ord2ymd_less_iff [OF assms(2,1)] by simp
  with greater show ?thesis by auto
qed simp

lemma ord2ymd_bounds:
  assumes "1 \<le> n" and "n \<le> 3652059" and "ord2ymd n = (y, m, d)"
  shows "y < 10000" and "m < 100" and "d < 100" and "1 \<le> y"
proof -
  note s = ord2ymd_spec [OF assms(1,3)]
  show "y < 10000"
  proof (rule ccontr)
    assume "\<not> y < 10000"
    then have "days_before_year 10000 \<le> days_before_year y" by (intro days_before_year_mono) auto
    moreover have "days_before_year 10000 = 3652059" by (simp add: days_before_year_def)
    ultimately show False using s assms(2) by (auto simp: ymd2ord_def valid_ymd_def)
  qed
  show "m < 100" "1 \<le> y" using s(1) by (auto simp: valid_ymd_def)
  have "days_in_month y m \<le> 31" by (simp add: days_in_month_def)
  with s(1) show "d < 100" by (simp add: valid_ymd_def)
qed

section \<open>Date-times\<close>

text \<open>
  \<open>dt_us\<close> is the wall clock in microseconds since \<open>0001-01-01 00:00:00\<close>; \<open>dt_tz\<close> the
  offset from UTC in seconds, \<open>None\<close> for a naive value. \<open>max_us\<close> is one past
  \<open>datetime.max\<close> (the end of year 9999).
\<close>

record datetime =
  dt_us :: nat
  dt_tz :: "int option"

definition max_us :: nat where
  "max_us = 3652059 * 86400000000"

definition utc :: "nat \<Rightarrow> datetime" where
  "utc us = \<lparr>dt_us = us, dt_tz = Some 0\<rparr>"

definition in_range :: "datetime \<Rightarrow> bool" where
  "in_range d \<longleftrightarrow> dt_us d < max_us \<and>
     (case dt_tz d of None \<Rightarrow> True | Some off \<Rightarrow> \<bar>off\<bar> < 86400)"

text \<open>\<open>d.replace(microsecond=0)\<close>, \<open>d.replace(tzinfo=tz)\<close> and \<open>d + timedelta(microseconds=us)\<close>.\<close>

definition drop_micros :: "datetime \<Rightarrow> datetime" where
  "drop_micros d = d\<lparr>dt_us := dt_us d div 1000000 * 1000000\<rparr>"

definition replace_tz :: "int option \<Rightarrow> datetime \<Rightarrow> datetime" where
  "replace_tz tz d = d\<lparr>dt_tz := tz\<rparr>"

definition dt_add :: "datetime \<Rightarrow> int \<Rightarrow> datetime result" where
  "dt_add d us = (let v = int (dt_us d) + us in
     if 0 \<le> v \<and> v < int max_us then Ok (d\<lparr>dt_us := nat v\<rparr>) else Raise OverflowError)"

text \<open>
  \<open>d.astimezone(UTC)\<close>. A naive value is read in the system's local zone, which the services
  run in as UTC; the program only converts aware values.
\<close>

definition astimezone_utc :: "datetime \<Rightarrow> datetime result" where
  "astimezone_utc d = (case dt_tz d of
     None \<Rightarrow> Ok (replace_tz (Some 0) d)
   | Some off \<Rightarrow> bind_result (dt_add d (- off * 1000000)) (\<lambda>e. Ok (replace_tz (Some 0) e)))"

section \<open>Writing\<close>

definition stamp_of :: "char \<Rightarrow> nat \<times> nat \<times> nat \<Rightarrow> nat \<Rightarrow> nat \<Rightarrow> nat \<Rightarrow> string" where
  "stamp_of sep = (\<lambda>(y, m, d) h mi s.
      pad 4 y @ CHR ''-'' # pad 2 m @ CHR ''-'' # pad 2 d @ sep #
      pad 2 h @ CHR '':'' # pad 2 mi @ CHR '':'' # pad 2 s)"

definition stamp :: "char \<Rightarrow> nat \<Rightarrow> string" where
  "stamp sep n = (let s = n mod 86400 in
     stamp_of sep (ord2ymd (n div 86400 + 1)) (s div 3600) (s mod 3600 div 60) (s mod 60))"

definition frac_str :: "nat \<Rightarrow> string" where
  "frac_str us = (if us = 0 then [] else CHR ''.'' # pad 6 us)"

definition tz_str :: "int option \<Rightarrow> string" where
  "tz_str tz = (case tz of None \<Rightarrow> [] | Some off \<Rightarrow>
     let a = nat \<bar>off\<bar> in
     (if off < 0 then CHR ''-'' else CHR ''+'') # pad 2 (a div 3600) @ CHR '':'' # pad 2 (a mod 3600 div 60) @
     (if a mod 60 = 0 then [] else CHR '':'' # pad 2 (a mod 60)))"

text \<open>\<open>d.isoformat(sep)\<close> and \<open>d.isoformat(timespec="seconds")\<close>.\<close>

definition isoformat :: "char \<Rightarrow> datetime \<Rightarrow> string" where
  "isoformat sep d =
     stamp sep (dt_us d div 1000000) @ frac_str (dt_us d mod 1000000) @ tz_str (dt_tz d)"

definition isoformat_seconds :: "datetime \<Rightarrow> string" where
  "isoformat_seconds d = stamp (CHR ''T'') (dt_us d div 1000000) @ tz_str (dt_tz d)"

lemma length_stamp [simp]: "length (stamp sep n) = 19"
  by (simp add: stamp_def stamp_of_def Let_def split: prod.split)

lemma tz_str_utc [simp]: "tz_str (Some 0) = ''+00:00''"
  by code_simp

text \<open>The clock fields of a second count: their bounds, and the count from the fields.\<close>

lemma clock_bounds:
  fixes t :: nat
  assumes "t < 86400"
  shows "t div 3600 < 24" and "t mod 3600 div 60 < 60" and "t mod 60 < 60"
    and "t div 3600 < 100" and "t mod 3600 div 60 < 100" and "t mod 60 < 100"
proof -
  show 1: "t div 3600 < 24" by (rule less_mult_imp_div_less) (simp add: assms)
  show 2: "t mod 3600 div 60 < 60" by (rule less_mult_imp_div_less) simp
  show 3: "t mod 60 < 60" by simp
  show "t div 3600 < 100" "t mod 3600 div 60 < 100" "t mod 60 < 100"
    using 1 2 3 by linarith+
qed

lemma clock_split:
  fixes t :: nat
  shows "t div 3600 * 3600 + t mod 3600 div 60 * 60 + t mod 60 = t"
proof -
  have "t mod 3600 mod 60 = t mod 60" by (rule mod_mod_cancel) simp
  then show ?thesis
    using div_mult_mod_eq [of t 3600] div_mult_mod_eq [of "t mod 3600" 60] by linarith
qed

section \<open>The text order is the order of time\<close>

lemma pad_field_less:
  assumes "a < 10 ^ w" and "b < 10 ^ w"
  shows "pad w a @ c # u < pad w b @ c # v \<longleftrightarrow> a < b \<or> (a = b \<and> u < v)"
  using assms by (simp add: lex_append_less pad_less_iff pad_eq_iff)

lemma seconds_lex:
  fixes s t :: nat
  shows "s < t \<longleftrightarrow> s div 3600 < t div 3600 \<or> (s div 3600 = t div 3600 \<and>
     (s mod 3600 div 60 < t mod 3600 div 60 \<or> (s mod 3600 div 60 = t mod 3600 div 60 \<and>
      s mod 60 < t mod 60)))"
proof -
  have m: "u mod 3600 mod 60 = u mod 60" for u :: nat
    by (rule mod_mod_cancel) simp
  show ?thesis
    using divmod_lex [of s t 3600] divmod_lex [of "s mod 3600" "t mod 3600" 60] by (simp only: m)
qed

lemma stamp_of_less:
  assumes "y1 < 10000" "m1 < 100" "d1 < 100" "h1 < 100" "i1 < 100" "s1 < 100"
    and "y2 < 10000" "m2 < 100" "d2 < 100" "h2 < 100" "i2 < 100" "s2 < 100"
  shows "stamp_of sep (y1, m1, d1) h1 i1 s1 < stamp_of sep (y2, m2, d2) h2 i2 s2 \<longleftrightarrow>
     (y1, m1, d1) < (y2, m2, d2) \<or> ((y1, m1, d1) = (y2, m2, d2) \<and> (h1, i1, s1) < (h2, i2, s2))"
proof -
  have p: "(10::nat) ^ 4 = 10000" "(10::nat) ^ 2 = 100" by simp_all
  have f4: "pad 4 a @ c # u < pad 4 b @ c # v \<longleftrightarrow> a < b \<or> (a = b \<and> u < v)"
    if "a < 10000" "b < 10000" for a b c u v using pad_field_less [of a 4 b] that by (simp add: p)
  have f2: "pad 2 a @ c # u < pad 2 b @ c # v \<longleftrightarrow> a < b \<or> (a = b \<and> u < v)"
    if "a < 100" "b < 100" for a b c u v using pad_field_less [of a 2 b] that by (simp add: p)
  have l2: "pad 2 a < pad 2 b \<longleftrightarrow> a < b" if "a < 100" "b < 100" for a b
    using pad_less_iff [of a 2 b] that by (simp add: p)
  show ?thesis
    unfolding stamp_of_def prod.case by (simp add: assms f4 f2 l2 less_prod_def' le_less) blast
qed

lemma stamp_less_iff:
  assumes a: "a < 3652059 * 86400" and b: "b < 3652059 * 86400"
  shows "stamp sep a < stamp sep b \<longleftrightarrow> a < b"
proof -
  obtain y1 m1 d1 where e1: "ord2ymd (a div 86400 + 1) = (y1, m1, d1)" by (metis prod_cases3)
  obtain y2 m2 d2 where e2: "ord2ymd (b div 86400 + 1) = (y2, m2, d2)" by (metis prod_cases3)
  have o1: "1 \<le> a div 86400 + 1" "a div 86400 + 1 \<le> 3652059"
    and o2: "1 \<le> b div 86400 + 1" "b div 86400 + 1 \<le> 3652059"
    using a b by (simp_all add: less_mult_imp_div_less Suc_leI)
  note r1 = ord2ymd_bounds [OF o1 e1] and r2 = ord2ymd_bounds [OF o2 e2]
  let ?s = "a mod 86400" and ?t = "b mod 86400"
  have "?s < 86400" "?t < 86400" by simp_all
  note c1 = clock_bounds [OF this(1)] and c2 = clock_bounds [OF this(2)]
  have "stamp sep a < stamp sep b \<longleftrightarrow> (y1, m1, d1) < (y2, m2, d2) \<or> ((y1, m1, d1) = (y2, m2, d2) \<and>
     (?s div 3600, ?s mod 3600 div 60, ?s mod 60) < (?t div 3600, ?t mod 3600 div 60, ?t mod 60))"
    unfolding stamp_def Let_def e1 e2 by (intro stamp_of_less r1 r2 c1 c2)
  also have "(?s div 3600, ?s mod 3600 div 60, ?s mod 60) < (?t div 3600, ?t mod 3600 div 60, ?t mod 60)
      \<longleftrightarrow> ?s < ?t"
    unfolding seconds_lex [of ?s ?t] less_prod_def' fst_conv snd_conv by (rule refl)
  also have "(y1, m1, d1) < (y2, m2, d2) \<longleftrightarrow> a div 86400 < b div 86400"
    using ord2ymd_less_iff [OF o1(1) o2(1)] unfolding e1 e2 by simp
  also have "(y1, m1, d1) = (y2, m2, d2) \<longleftrightarrow> a div 86400 = b div 86400"
    using ord2ymd_eq_iff [OF o1(1) o2(1)] unfolding e1 e2 by simp
  also have "(a div 86400 < b div 86400 \<or> a div 86400 = b div 86400 \<and> ?s < ?t) \<longleftrightarrow> a < b"
    by (rule divmod_lex [symmetric])
  finally show ?thesis .
qed

lemma stamp_eq_iff:
  assumes "a < 3652059 * 86400" and "b < 3652059 * 86400"
  shows "stamp sep a = stamp sep b \<longleftrightarrow> a = b"
  using stamp_less_iff [OF assms] stamp_less_iff [OF assms(2,1)]
  by (metis linorder_neqE_nat order_less_irrefl)

section \<open>Reading\<close>

fun read_field :: "nat \<Rightarrow> string \<Rightarrow> (nat \<times> string) option" where
  "read_field w s = (if length (take w s) = w then
     map_option (\<lambda>n. (n, drop w s)) (read_dec (take w s)) else None)"

fun expect :: "char \<Rightarrow> string \<Rightarrow> string option" where
  "expect c (x # s) = (if x = c then Some s else None)"
| "expect c [] = None"

definition skip_char :: "string \<Rightarrow> string option" where
  "skip_char s = (case s of [] \<Rightarrow> None | _ # r \<Rightarrow> Some r)"

definition read_stamp :: "string \<Rightarrow> (nat \<times> string) option" where
  "read_stamp s = do {
     (y, s) \<leftarrow> read_field 4 s; s \<leftarrow> expect (CHR ''-'') s;
     (m, s) \<leftarrow> read_field 2 s; s \<leftarrow> expect (CHR ''-'') s;
     (d, s) \<leftarrow> read_field 2 s; s \<leftarrow> skip_char s;
     (h, s) \<leftarrow> read_field 2 s; s \<leftarrow> expect (CHR '':'') s;
     (mi, s) \<leftarrow> read_field 2 s; s \<leftarrow> expect (CHR '':'') s;
     (sec, s) \<leftarrow> read_field 2 s;
     if valid_ymd (y, m, d) \<and> h < 24 \<and> mi < 60 \<and> sec < 60
     then Some ((ymd2ord y m d - 1) * 86400 + h * 3600 + mi * 60 + sec, s) else None }"

definition read_frac :: "string \<Rightarrow> (nat \<times> string) option" where
  "read_frac s = (if startswith s ''.'' then read_field 6 (tl s) else Some (0, s))"

definition read_tz :: "string \<Rightarrow> int option option" where
  "read_tz s = (case s of [] \<Rightarrow> Some None
   | sg # r \<Rightarrow> if sg \<noteq> CHR ''+'' \<and> sg \<noteq> CHR ''-'' then None else do {
       (h, r) \<leftarrow> read_field 2 r; r \<leftarrow> expect (CHR '':'') r; (mi, r) \<leftarrow> read_field 2 r;
       sec \<leftarrow> (if r = [] then Some 0 else do { r \<leftarrow> expect (CHR '':'') r; (x, r) \<leftarrow> read_field 2 r;
                 if r = [] then Some x else None });
       let a = h * 3600 + mi * 60 + sec in
       if h < 24 \<and> mi < 60 \<and> sec < 60
       then Some (Some (if sg = CHR ''-'' then - int a else int a)) else None })"

text \<open>
  \<open>datetime.fromisoformat\<close> on the extended format with seconds, an optional six-digit
  fraction and an optional offset: the texts \<open>isoformat\<close> and SQLite's \<open>CURRENT_TIMESTAMP\<close>
  write. \<open>None\<close> is \<open>ValueError\<close>.
\<close>

definition fromisoformat :: "string \<Rightarrow> datetime option" where
  "fromisoformat s = do {
     (n, s) \<leftarrow> read_stamp s; (us, s) \<leftarrow> read_frac s; tz \<leftarrow> read_tz s;
     Some \<lparr>dt_us = n * 1000000 + us, dt_tz = tz\<rparr> }"

lemma read_field_pad [simp]: "0 < w \<Longrightarrow> n < 10 ^ w \<Longrightarrow> read_field w (pad w n @ s) = Some (n, s)"
  by (simp add: read_dec_pad)

lemma read_field_pad_end [simp]: "0 < w \<Longrightarrow> n < 10 ^ w \<Longrightarrow> read_field w (pad w n) = Some (n, [])"
  using read_field_pad [of w n "[]"] by simp

declare read_field.simps [simp del]

lemma read_stamp_stamp:
  assumes "n < 3652059 * 86400"
  shows "read_stamp (stamp sep n @ s) = Some (n, s)"
proof -
  obtain y m d where e: "ord2ymd (n div 86400 + 1) = (y, m, d)" by (metis prod_cases3)
  have o: "1 \<le> n div 86400 + 1" "n div 86400 + 1 \<le> 3652059"
    using assms by (simp_all add: less_mult_imp_div_less Suc_leI)
  note b = ord2ymd_bounds [OF o e] and v = ord2ymd_spec [OF o(1) e]
  define q t where "q = n div 86400" and "t = n mod 86400"
  have "t < 86400" by (simp add: t_def)
  note c = clock_bounds [OF this]
  have n: "n = q * 86400 + t" by (simp add: q_def t_def)
  have q: "ymd2ord y m d - 1 = q" using v(2) by (simp add: q_def)
  have s: "stamp sep n = stamp_of sep (y, m, d) (t div 3600) (t mod 3600 div 60) (t mod 60)"
    by (simp only: stamp_def Let_def e t_def)
  have "(ymd2ord y m d - 1) * 86400 + t div 3600 * 3600 + t mod 3600 div 60 * 60 + t mod 60 = n"
    using clock_split [of t] n q by linarith
  then show ?thesis
    unfolding s stamp_of_def prod.case using b v(1) c by (simp add: read_stamp_def skip_char_def)
qed

lemma read_tz_str:
  assumes "case tz of None \<Rightarrow> True | Some off \<Rightarrow> \<bar>off\<bar> < 86400"
  shows "read_tz (tz_str tz) = Some tz"
proof (cases tz)
  case None
  then show ?thesis by (simp add: tz_str_def read_tz_def)
next
  case (Some off)
  define a where "a = nat \<bar>off\<bar>"
  have a: "a < 86400" "int a = \<bar>off\<bar>" using assms Some by (auto simp: a_def)
  show ?thesis
    using clock_bounds [OF a(1)] clock_split [of a] a(2)
    by (auto simp: tz_str_def read_tz_def Some Let_def a_def [symmetric])
qed

lemma fromisoformat_isoformat:
  assumes "in_range d"
  shows "fromisoformat (isoformat sep d) = Some d"
proof -
  have "dt_us d div 1000000 < 3652059 * 86400"
    using assms by (intro less_mult_imp_div_less) (simp add: in_range_def max_us_def)
  moreover have "read_frac (frac_str us @ tz_str tz) = Some (us, tz_str tz)" if "us < 1000000" for us tz
    using that by (auto simp: read_frac_def frac_str_def tz_str_def startswith_def Let_def split: option.split)
  moreover have "read_tz (tz_str (dt_tz d)) = Some (dt_tz d)"
    using assms by (intro read_tz_str) (simp add: in_range_def)
  ultimately show ?thesis
    by (simp add: fromisoformat_def isoformat_def read_stamp_stamp)
qed

end
