(* ===== verification/Models.thy ===== *)
theory Models
  imports Py_Time
begin

text \<open>
  The data classes of \<open>mail_router/models.py\<close> and \<open>mail_router/config.py\<close>, one record per
  class with the source's fields. Python \<open>int\<close> is \<open>int\<close>, \<open>str\<close> and \<open>bytes\<close> are
  \<open>string\<close>, \<open>X | None\<close> is \<open>option\<close>. A field whose name another class also has carries
  a prefix.
\<close>

record parsed_address =
  pa_ds_id :: string
  pa_mailbox :: "string option"
  pa_domain :: string

record ds_config =
  cfg_ds_id :: string
  api_url :: string
  api_token :: string

text \<open>The four values that the \<open>CHECK\<close> constraint of the queue table allows in \<open>state\<close>.\<close>

datatype qstate = Pending | In_Flight | Delivered | Dead_Letter

definition state_name :: "qstate \<Rightarrow> string" where
  "state_name s = (case s of Pending \<Rightarrow> ''pending'' | In_Flight \<Rightarrow> ''in_flight''
     | Delivered \<Rightarrow> ''delivered'' | Dead_Letter \<Rightarrow> ''dead_letter'')"

lemma state_name_inj: "state_name s = state_name t \<Longrightarrow> s = t"
  by (cases s; cases t) (simp_all add: state_name_def)

text \<open>SQLite orders the states by their text.\<close>

instantiation qstate :: linorder
begin

definition less_eq_qstate :: "qstate \<Rightarrow> qstate \<Rightarrow> bool" where
  "less_eq_qstate s t \<longleftrightarrow> state_name s \<le> state_name t"

definition less_qstate :: "qstate \<Rightarrow> qstate \<Rightarrow> bool" where
  "less_qstate s t \<longleftrightarrow> state_name s < state_name t"

instance
  by standard (auto simp: less_eq_qstate_def less_qstate_def intro: state_name_inj)

end

record queue_item =
  qi_id :: int
  qi_state :: qstate
  qi_received_at :: datetime
  qi_sender_email :: string
  qi_recipient_email :: string
  qi_ds_id :: string
  qi_mailbox :: "string option"
  qi_idempotency_key :: string
  qi_raw_eml :: string
  qi_attempt_count :: int
  qi_next_attempt_at :: "datetime option"
  qi_last_error :: "string option"
  qi_delivered_at :: "datetime option"
  qi_delivered_message_id :: "string option"
  qi_dead_letter_reason :: "string option"

record attachment =
  att_filename :: string
  att_content_type :: string
  att_content :: string

record parsed_email =
  pe_subject :: string
  pe_sender_email :: string
  pe_sender_name :: "string option"
  pe_message_id :: "string option"
  pe_in_reply_to :: "string option"
  pe_references :: "string option"
  pe_date :: "datetime option"
  pe_body_plain :: "string option"
  pe_body_html :: "string option"
  pe_attachments :: "attachment list"

text \<open>
  The configuration classes. The program does no arithmetic on the floats it reads from the
  configuration (the timeouts and the poll interval): a float is the decimal number
  \<open>m * 10 ^ e\<close> that its text denotes, or one of the three special values.
\<close>

datatype py_float = Dec int int | Infinity bool | NaN

record worker_config =
  poll_interval :: py_float
  batch_size :: int
  max_attempts :: int
  http_timeout :: py_float
  backoff :: "int list"

definition default_worker_config :: worker_config where
  "default_worker_config = \<lparr>poll_interval = Dec 5 0, batch_size = 10, max_attempts = 4,
     http_timeout = Dec 30 0, backoff = [0, 60, 300, 1800]\<rparr>"

record alerts_config =
  al_enabled :: bool
  smtp_host :: string
  smtp_port :: int
  from_address :: string
  to_addresses :: "string list"
  throttle :: int
  queue_size_threshold :: int

definition default_alerts_config :: alerts_config where
  "default_alerts_config = \<lparr>al_enabled = True, smtp_host = ''localhost'', smtp_port = 25,
     from_address = ''mail-router@localhost'', to_addresses = [], throttle = 1800,
     queue_size_threshold = 100\<rparr>"

record lookup_sync_config =
  ls_url :: string
  ls_api_key :: string
  ls_timeout :: py_float

end
