(* ===== verification/Address.thy ===== *)
theory Address
  imports Models
begin

text \<open>
  \<open>mail_router/address.py\<close>: the two regular expressions over a small matcher with Python's
  \<open>re.match\<close> semantics (the \<open>$\<close> anchor also matches before a final newline),
  \<open>is_valid_ds_id\<close> and \<open>parse_recipient\<close>; then what they compute: the identifiers that
  are accepted, a one-pass reading of the separator rule, and the round trip of an address.
\<close>

section \<open>Regular expressions\<close>

datatype regex =
    Ranges "(char \<times> char) list"
  | Seq regex regex
  | Opt regex
  | Rep nat nat regex
  | Dollar

text \<open>\<open>f\<close> at least \<open>m\<close> and at most \<open>n\<close> times, the greedy choices first.\<close>

fun re_rep :: "(string \<Rightarrow> string list) \<Rightarrow> nat \<Rightarrow> nat \<Rightarrow> string \<Rightarrow> string list" where
  "re_rep f m 0 s = (if m = 0 then [s] else [])"
| "re_rep f m (Suc n) s =
     concat (map (re_rep f (m - 1) n) (f s)) @ (if m = 0 then [s] else [])"

definition in_ranges :: "(char \<times> char) list \<Rightarrow> char \<Rightarrow> bool" where
  "in_ranges rs c \<longleftrightarrow> list_ex (\<lambda>(a, b). a \<le> c \<and> c \<le> b) rs"

text \<open>The rests of the subject after every way to match a prefix of it.\<close>

fun re_run :: "regex \<Rightarrow> string \<Rightarrow> string list" where
  "re_run (Ranges rs) s = (case s of [] \<Rightarrow> [] | c # r \<Rightarrow> if in_ranges rs c then [r] else [])"
| "re_run (Seq a b) s = concat (map (re_run b) (re_run a s))"
| "re_run (Opt a) s = re_run a s @ [s]"
| "re_run (Rep m n a) s = re_rep (re_run a) m n s"
| "re_run Dollar s = (if s = [] \<or> s = [CHR 0x0A] then [s] else [])"

text \<open>\<open>RE.match(s)\<close>: anchored at the start by \<open>match\<close> itself.\<close>

definition re_match :: "regex \<Rightarrow> string \<Rightarrow> bool" where
  "re_match r s \<longleftrightarrow> re_run r s \<noteq> []"

definition alnum_ranges :: "(char \<times> char) list" where
  "alnum_ranges = [(CHR ''a'', CHR ''z''), (CHR ''0'', CHR ''9'')]"

definition dash_ranges :: "(char \<times> char) list" where
  "dash_ranges = [(CHR ''-'', CHR ''-'')]"

definition HASH_ID_RE :: regex where
  "HASH_ID_RE = (let four = Rep 4 4 (Ranges alnum_ranges); dash = Ranges dash_ranges in
     Seq four (Seq dash (Seq four (Seq dash (Seq four (Seq dash (Seq four Dollar)))))))"

definition WEB_ID_RE :: regex where
  "WEB_ID_RE = Seq (Ranges alnum_ranges)
     (Seq (Opt (Seq (Rep 0 61 (Ranges (alnum_ranges @ dash_ranges))) (Ranges alnum_ranges))) Dollar)"

section \<open>The code\<close>

definition is_valid_ds_id :: "string \<Rightarrow> bool" where
  "is_valid_ds_id ds_id =
     (if ds_id = [] then False
      else if re_match HASH_ID_RE ds_id then True
      else if \<not> re_match WEB_ID_RE ds_id then False
      else \<not> contains ds_id ''--'')"

text \<open>
  The separator rule, as \<open>parse_recipient\<close> computes it: the offsets of \<open>+\<close> and \<open>--\<close> by
  two searches, then the smaller one. The result is the \<open>ds_id\<close> part and the mailbox.
\<close>

definition split_local :: "string \<Rightarrow> string \<times> string option" where
  "split_local local_part =
     (let plus_idx = py_find local_part ''+'';
          dashes_idx = py_find local_part ''--'';
          separators = filter (\<lambda>i. 0 \<le> i) [plus_idx, dashes_idx]
      in if separators = [] then (local_part, None)
         else
           let sep_idx = Min (set separators);
               sep_len = (if sep_idx = dashes_idx \<and> (plus_idx < 0 \<or> dashes_idx < plus_idx) then 2 else 1);
               rest = drop (nat (sep_idx + sep_len)) local_part
           in (take (nat sep_idx) local_part, if rest = [] then None else Some rest))"

definition parse_recipient :: "string \<Rightarrow> string set \<Rightarrow> parsed_address option" where
  "parse_recipient email allowed_domains =
     (if CHR ''@'' \<notin> set email then None
      else
        let local_part = before_last (CHR ''@'') email;
            domain = py_lower (after_last (CHR ''@'') email)
        in if domain \<notin> allowed_domains then None
           else
             let (ds_id, mailbox) = split_local local_part;
                 ds_id = py_lower ds_id
             in if \<not> is_valid_ds_id ds_id then None
                else Some \<lparr>pa_ds_id = ds_id, pa_mailbox = mailbox, pa_domain = domain\<rparr>)"

section \<open>What the expressions match\<close>

lemma re_run_Ranges: "r \<in> set (re_run (Ranges rs) s) \<longleftrightarrow> (\<exists>c. s = c # r \<and> in_ranges rs c)"
  by (cases s) auto

lemma re_run_Seq: "r \<in> set (re_run (Seq a b) s) \<longleftrightarrow> (\<exists>t \<in> set (re_run a s). r \<in> set (re_run b t))"
  by auto

lemma re_rep_Ranges:
  "r \<in> set (re_rep (re_run (Ranges rs)) m n s) \<longleftrightarrow>
     (\<exists>u. s = u @ r \<and> m \<le> length u \<and> length u \<le> n \<and> list_all (in_ranges rs) u)"
proof (induction n arbitrary: m s)
  case (Suc n)
  have "r \<in> set (re_rep (re_run (Ranges rs)) m (Suc n) s) \<longleftrightarrow>
      (\<exists>c t. s = c # t \<and> in_ranges rs c \<and> r \<in> set (re_rep (re_run (Ranges rs)) (m - 1) n t)) \<or>
      (m = 0 \<and> r = s)"
    by (auto split: list.split)
  also have "\<dots> \<longleftrightarrow> (\<exists>c u. s = c # u @ r \<and> in_ranges rs c \<and> m - 1 \<le> length u \<and> length u \<le> n \<and>
      list_all (in_ranges rs) u) \<or> (m = 0 \<and> r = s)"
    by (auto simp: Suc.IH)
  also have "\<dots> \<longleftrightarrow> (\<exists>v. s = v @ r \<and> m \<le> length v \<and> length v \<le> Suc n \<and> list_all (in_ranges rs) v)"
    (is "?L \<longleftrightarrow> (\<exists>v. ?R v)")
  proof
    assume ?L
    then consider c u where "s = c # u @ r" "in_ranges rs c" "m - 1 \<le> length u" "length u \<le> n"
        "list_all (in_ranges rs) u" | "m = 0" "r = s"
      by blast
    then show "\<exists>v. ?R v"
    proof cases
      case 1
      then have "?R (c # u)" by auto
      then show ?thesis by blast
    next
      case 2
      then have "?R []" by auto
      then show ?thesis by blast
    qed
  next
    assume "\<exists>v. ?R v"
    then obtain v where v: "?R v" by blast
    then show ?L by (cases v) auto
  qed
  finally show ?case .
qed auto

lemma re_run_Dollar: "r \<in> set (re_run Dollar s) \<longleftrightarrow> r = s \<and> (s = [] \<or> s = [CHR 0x0A])"
  by auto

lemmas re_run_iffs = re_run_Ranges re_run_Seq re_rep_Ranges re_run_Dollar

abbreviation alnum :: "char \<Rightarrow> bool" where "alnum \<equiv> in_ranges alnum_ranges"
abbreviation slug_char :: "char \<Rightarrow> bool" where "slug_char \<equiv> in_ranges (alnum_ranges @ dash_ranges)"

lemma dash_iff [simp]: "in_ranges dash_ranges c \<longleftrightarrow> c = CHR ''-''"
  by (auto simp: in_ranges_def dash_ranges_def intro: antisym)

lemma slug_char_iff: "slug_char c \<longleftrightarrow> alnum c \<or> c = CHR ''-''"
  using dash_iff [of c] by (auto simp: in_ranges_def simp del: dash_iff)

lemma alnum_not [simp]: "alnum c \<Longrightarrow> c \<noteq> CHR ''-''" "alnum c \<Longrightarrow> c \<noteq> CHR ''+''"
    "alnum c \<Longrightarrow> c \<noteq> CHR 0x0A" "alnum c \<Longrightarrow> c \<noteq> CHR ''@''"
  by (auto simp: in_ranges_def alnum_ranges_def less_eq_char_def)

lemma re_match_iff: "re_match r s \<longleftrightarrow> (\<exists>e. e \<in> set (re_run r s))"
  by (metis re_match_def list.set_intros(1) list.set_cases neq_Nil_conv empty_iff list.set(1))

lemma re_match_WEB_ID:
  "re_match WEB_ID_RE s \<longleftrightarrow> (\<exists>c e. alnum c \<and> (e = [] \<or> e = [CHR 0x0A]) \<and>
     (s = c # e \<or> (\<exists>u d. s = c # u @ d # e \<and> length u \<le> 61 \<and> list_all slug_char u \<and> alnum d)))"
proof -
  have "re_match WEB_ID_RE s \<longleftrightarrow> (\<exists>e. e \<in> set (re_run WEB_ID_RE s))"
    by (rule re_match_iff)
  also have "\<dots> \<longleftrightarrow> (\<exists>c e. alnum c \<and> (e = [] \<or> e = [CHR 0x0A]) \<and>
     (s = c # e \<or> (\<exists>u d. s = c # u @ d # e \<and> length u \<le> 61 \<and> list_all slug_char u \<and> alnum d)))"
    unfolding WEB_ID_RE_def re_run_Seq re_run_Ranges re_run_Dollar re_run.simps(3,4) set_append
      Un_iff re_rep_Ranges list.set empty_iff insert_iff Bex_def
    by (rule iffI; (elim exE conjE disjE)?; blast?; auto)
  finally show ?thesis .
qed

section \<open>The accepted identifiers\<close>

text \<open>
  The identifiers the pattern comments describe: 1 to 63 lower-case letters, digits and
  dashes, no dash at either end and no double dash.
\<close>

definition slug :: "string \<Rightarrow> bool" where
  "slug t \<longleftrightarrow> t \<noteq> [] \<and> length t \<le> 63 \<and> list_all slug_char t \<and>
     alnum (hd t) \<and> alnum (last t) \<and> \<not> contains t ''--''"

lemma contains_snoc_newline [simp]: "contains (t @ [CHR 0x0A]) ''--'' \<longleftrightarrow> contains t ''--''"
proof
  assume "contains (t @ [CHR 0x0A]) ''--''"
  then obtain u v where e: "t @ [CHR 0x0A] = u @ ''--'' @ v" by (auto simp: contains_iff)
  then obtain v' where "v = v' @ [CHR 0x0A]"
    by (cases v rule: rev_cases) (auto simp: append_eq_append_conv2 Cons_eq_append_conv)
  then have "t = u @ ''--'' @ v'" using e by simp
  then show "contains t ''--''" by (auto simp: contains_iff)
next
  assume "contains t ''--''"
  then obtain u v where "t = u @ ''--'' @ v" by (auto simp: contains_iff)
  then have "t @ [CHR 0x0A] = u @ ''--'' @ (v @ [CHR 0x0A])" by simp
  then show "contains (t @ [CHR 0x0A]) ''--''" unfolding contains_iff by blast
qed

lemma web_id_iff:
  "re_match WEB_ID_RE s \<and> \<not> contains s ''--'' \<longleftrightarrow> (\<exists>t. slug t \<and> (s = t \<or> s = t @ [CHR 0x0A]))"
proof
  assume l: "re_match WEB_ID_RE s \<and> \<not> contains s ''--''"
  then obtain c e where c: "alnum c" "e = [] \<or> e = [CHR 0x0A]"
    and s: "s = c # e \<or> (\<exists>u d. s = c # u @ d # e \<and> length u \<le> 61 \<and> list_all slug_char u \<and> alnum d)"
    unfolding re_match_WEB_ID by blast
  from s show "\<exists>t. slug t \<and> (s = t \<or> s = t @ [CHR 0x0A])"
  proof (elim disjE exE conjE)
    assume "s = c # e"
    then have "slug [c]" using c by (simp add: slug_def slug_char_iff contains_def startswith_def)
    then show ?thesis using c \<open>s = c # e\<close> by auto
  next
    fix u d
    assume u: "s = c # u @ d # e" "length u \<le> 61" "list_all slug_char u" "alnum d"
    then have st: "s = (c # u @ [d]) @ e" by simp
    then have "\<not> contains (c # u @ [d]) ''--''" using l c(2) contains_snoc_newline [of "c # u @ [d]"] by auto
    then have "slug (c # u @ [d])" using u c by (simp add: slug_def slug_char_iff)
    then show ?thesis using st c(2) by auto
  qed
next
  assume "\<exists>t. slug t \<and> (s = t \<or> s = t @ [CHR 0x0A])"
  then obtain t e where t: "slug t" "s = t @ e" "e = [] \<or> e = [CHR 0x0A]" by fastforce
  have "\<not> contains s ''--''" using t by (auto simp: slug_def)
  moreover have "re_match WEB_ID_RE s"
  proof -
    obtain c r where c: "t = c # r" using t(1) by (cases t) (auto simp: slug_def)
    show ?thesis
    proof (cases r rule: rev_cases)
      case Nil
      with c t show ?thesis unfolding re_match_WEB_ID by (auto simp: slug_def)
    next
      case (snoc u d)
      then have "alnum c" "alnum d" "list_all slug_char u" "length u \<le> 61" "s = c # u @ d # e"
        using c t by (auto simp: slug_def)
      with t(3) show ?thesis unfolding re_match_WEB_ID by blast
    qed
  qed
  ultimately show "re_match WEB_ID_RE s \<and> \<not> contains s ''--''" by blast
qed

lemma four_cases: "length u = 4 \<Longrightarrow> (\<And>a b c d. u = [a, b, c, d] \<Longrightarrow> P) \<Longrightarrow> P"
  by (auto simp: length_Suc_conv numeral_eq_Suc)

lemma hash_id_slug:
  assumes "re_match HASH_ID_RE s"
  shows "\<exists>t. slug t \<and> (s = t \<or> s = t @ [CHR 0x0A])"
proof -
  from assms obtain e where "e \<in> set (re_run HASH_ID_RE s)" by (auto simp: re_match_iff)
  then obtain u1 u2 u3 u4 where s: "s = u1 @ CHR ''-'' # u2 @ CHR ''-'' # u3 @ CHR ''-'' # u4 @ e"
    and e: "e = [] \<or> e = [CHR 0x0A]"
    and l: "length u1 = 4" "length u2 = 4" "length u3 = 4" "length u4 = 4"
    and a: "list_all alnum u1" "list_all alnum u2" "list_all alnum u3" "list_all alnum u4"
    unfolding HASH_ID_RE_def Let_def re_run_Seq re_run.simps(4) Bex_def re_rep_Ranges re_run_Ranges
      re_run_Dollar
    by auto
  let ?t = "u1 @ CHR ''-'' # u2 @ CHR ''-'' # u3 @ CHR ''-'' # u4"
  have "slug ?t"
    using l a
    by (auto elim!: four_cases simp: slug_def slug_char_iff contains_def startswith_def)
  then show ?thesis using s e by auto
qed

lemma is_valid_ds_id_slug: "is_valid_ds_id s \<longleftrightarrow> (\<exists>t. slug t \<and> (s = t \<or> s = t @ [CHR 0x0A]))"
proof -
  have "\<not> (\<exists>t. slug t \<and> ([] = t \<or> [] = t @ [CHR 0x0A]))" by (simp add: slug_def)
  then show ?thesis
    using web_id_iff [of s] hash_id_slug [of s] unfolding is_valid_ds_id_def by auto
qed

text \<open>functional: an identifier is accepted exactly when it is a slug (1 to 63 of
  \<open>a-z0-9-\<close>, no dash at an end, no double dash), possibly followed by one newline, which
  Python's \<open>$\<close> lets through; the hash-id expression accepts nothing more.\<close>

theorem is_valid_ds_id_iff:
  "is_valid_ds_id s \<longleftrightarrow> (\<exists>t. slug t \<and> (s = t \<or> s = t @ [CHR 0x0A]))"
  by (rule is_valid_ds_id_slug)

section \<open>The separator rule, read in one pass\<close>

text \<open>The first \<open>+\<close> or \<open>--\<close> ends the identifier: a scanner that looks at two characters.\<close>

fun split_scan :: "string \<Rightarrow> string \<times> string option" where
  "split_scan [] = ([], None)"
| "split_scan [c] = (if c = CHR ''+'' then ([], Some []) else ([c], None))"
| "split_scan (c # d # s) =
     (if c = CHR ''+'' then ([], Some (d # s))
      else if c = CHR ''-'' \<and> d = CHR ''-'' then ([], Some s)
      else (let (a, m) = split_scan (d # s) in (c # a, m)))"

text \<open>A mailbox that is the empty string is no mailbox (\<open>... or None\<close>).\<close>

definition or_none :: "string option \<Rightarrow> string option" where
  "or_none m = (case m of Some (c # s) \<Rightarrow> Some (c # s) | _ \<Rightarrow> None)"

definition cut :: "nat \<Rightarrow> nat \<Rightarrow> string \<Rightarrow> string \<times> string option" where
  "cut i k s = (take i s, or_none (Some (drop (i + k) s)))"

definition first_of :: "nat option \<Rightarrow> nat option \<Rightarrow> string \<Rightarrow> string \<times> string option" where
  "first_of p q s = (case (p, q) of
     (None, None) \<Rightarrow> (s, None)
   | (Some i, None) \<Rightarrow> cut i 1 s
   | (None, Some j) \<Rightarrow> cut j 2 s
   | (Some i, Some j) \<Rightarrow> if j < i then cut j 2 s else cut i 1 s)"

lemma or_none_drop: "(if drop k s = [] then None else Some (drop k s)) = or_none (Some (drop k s))"
  by (cases "drop k s") (simp_all add: or_none_def)

lemma split_local_first_of: "split_local s = first_of (find_sub ''+'' s) (find_sub ''--'' s) s"
proof -
  have "nat (int i + 1) = i + 1" "nat (int i + 2) = i + 2" for i by simp_all
  then show ?thesis
    unfolding split_local_def Let_def py_find_def first_of_def cut_def or_none_drop
    by (cases "find_sub ''+'' s"; cases "find_sub ''--'' s") (auto simp: min_def)
qed

lemma first_of_Suc: "first_of (map_option Suc p) (map_option Suc q) (c # s) =
    (c # fst (first_of p q s), snd (first_of p q s))"
  by (cases p; cases q) (simp_all add: first_of_def cut_def)

lemma split_local_scan_eq: "split_local s = (fst (split_scan s), or_none (snd (split_scan s)))"
proof (induction s rule: split_scan.induct)
  case 1
  show ?case by (simp add: split_local_first_of first_of_def or_none_def)
next
  case (2 c)
  show ?case
    by (simp add: split_local_first_of first_of_def or_none_def cut_def startswith_def)
next
  case (3 c d s)
  let ?r = "d # s"
  consider "c = CHR ''+''" | "c \<noteq> CHR ''+''" "c = CHR ''-''" "d = CHR ''-''"
    | "c \<noteq> CHR ''+''" "\<not> (c = CHR ''-'' \<and> d = CHR ''-'')"
    by blast
  then show ?case
  proof cases
    case 1
    then show ?thesis
      by (auto simp: split_local_first_of first_of_def cut_def startswith_def split: option.split)
  next
    case 2
    then show ?thesis
      by (auto simp: split_local_first_of first_of_def cut_def startswith_def split: option.split)
  next
    case 3
    then have "find_sub ''+'' (c # ?r) = map_option Suc (find_sub ''+'' ?r)"
      and "find_sub ''--'' (c # ?r) = map_option Suc (find_sub ''--'' ?r)"
      by (auto simp: startswith_def simp del: find_sub.simps(2) simp: find_sub.simps(2) [of _ c])
    then have "split_local (c # ?r) = (c # fst (split_local ?r), snd (split_local ?r))"
      by (simp only: split_local_first_of first_of_Suc)
    with 3 "3.IH" show ?thesis by (auto split: prod.split)
  qed
qed

text \<open>equivalence: the two searches and the choice of the smaller offset compute the
  one-pass rule ``the first \<open>+\<close> or \<open>--\<close> ends the identifier, the rest is the mailbox''.\<close>

theorem split_local_scan: "split_local s = (fst (split_scan s), or_none (snd (split_scan s)))"
  by (rule split_local_scan_eq)

section \<open>\<open>parse_recipient\<close>\<close>

lemma parse_recipient_iff:
  "parse_recipient e D = Some p \<longleftrightarrow>
     (\<exists>l d. e = l @ CHR ''@'' # d \<and> CHR ''@'' \<notin> set d \<and> py_lower d \<in> D \<and>
        is_valid_ds_id (py_lower (fst (split_scan l))) \<and>
        p = \<lparr>pa_ds_id = py_lower (fst (split_scan l)), pa_mailbox = or_none (snd (split_scan l)),
             pa_domain = py_lower d\<rparr>)" (is "?L \<longleftrightarrow> ?R")
proof
  assume ?L
  then have "CHR ''@'' \<in> set e" by (auto simp: parse_recipient_def split: if_splits)
  from split_last_join [OF this] \<open>?L\<close> show ?R
    by (intro exI [of _ "before_last (CHR ''@'') e"] exI [of _ "after_last (CHR ''@'') e"])
      (auto simp: parse_recipient_def Let_def split_local_scan_eq split: if_splits)
next
  assume ?R
  then obtain l d where e: "e = l @ CHR ''@'' # d" "CHR ''@'' \<notin> set d" and rest: "py_lower d \<in> D"
    "is_valid_ds_id (py_lower (fst (split_scan l)))"
    "p = \<lparr>pa_ds_id = py_lower (fst (split_scan l)), pa_mailbox = or_none (snd (split_scan l)),
          pa_domain = py_lower d\<rparr>" by blast
  have "after_last (CHR ''@'') e = d" "before_last (CHR ''@'') e = l"
    using split_last_eq [OF e(2), of l] e(1) by simp_all
  then show ?L using e rest by (simp add: parse_recipient_def split_local_scan_eq)
qed



lemma lower_char_dash [simp]: "lower_char c = CHR ''-'' \<longleftrightarrow> c = CHR ''-''"
proof -
  have "(of_char (lower_char c) :: nat) = 45 \<longleftrightarrow> (of_char c :: nat) = 45"
    by (auto simp: of_char_lower_char Let_def)
  moreover have "(of_char (CHR ''-'') :: nat) = 45" by simp
  ultimately show ?thesis by (metis of_char_eq_iff)
qed

lemma lower_char_plus [simp]: "lower_char c = CHR ''+'' \<longleftrightarrow> c = CHR ''+''"
proof -
  have "(of_char (lower_char c) :: nat) = 43 \<longleftrightarrow> (of_char c :: nat) = 43"
    by (auto simp: of_char_lower_char Let_def)
  moreover have "(of_char (CHR ''+'') :: nat) = 43" by simp
  ultimately show ?thesis by (metis of_char_eq_iff)
qed

text \<open>The scanner runs over a slug and stops at the separator after it.\<close>

lemma contains_Cons_I: "contains s p \<Longrightarrow> contains (c # s) p"
  by (auto simp: contains_def)

lemma split_scan_slug:
  assumes "CHR ''+'' \<notin> set a" and "\<not> contains a ''--''" and "a = [] \<or> last a \<noteq> CHR ''-''"
  shows "split_scan a = (a, None)"
    and "split_scan (a @ CHR ''+'' # m) = (a, Some m)"
    and "split_scan (a @ CHR ''-'' # CHR ''-'' # m) = (a, Some m)"
proof -
  have "split_scan a = (a, None) \<and> split_scan (a @ CHR ''+'' # m) = (a, Some m) \<and>
     split_scan (a @ CHR ''-'' # CHR ''-'' # m) = (a, Some m)"
    using assms
  proof (induction a rule: split_scan.induct)
    case 1
    show ?case by (cases m) auto
  next
    case (2 c)
    then show ?case by (cases m) auto
  next
    case (3 c d s)
    have nd: "\<not> (c = CHR ''-'' \<and> d = CHR ''-'')"
      using "3.prems"(2) by (auto simp: contains_def startswith_def split: if_splits)
    have "\<not> contains (d # s) ''--''" using "3.prems"(2) contains_Cons_I by blast
    with "3.IH" "3.prems" nd show ?case by auto
  qed
  then show "split_scan a = (a, None)" "split_scan (a @ CHR ''+'' # m) = (a, Some m)"
    "split_scan (a @ CHR ''-'' # CHR ''-'' # m) = (a, Some m)" by blast+
qed

lemma slug_lower_plain:
  assumes "slug (py_lower a)"
  shows "CHR ''+'' \<notin> set a" and "\<not> contains a ''--''" and "a = [] \<or> last a \<noteq> CHR ''-''"
proof -
  have "lower_char c \<noteq> CHR ''+''" if "c \<in> set a" for c
  proof -
    have "slug_char (lower_char c)"
      using assms that by (auto simp: slug_def py_lower_def list_all_iff)
    then consider "alnum (lower_char c)" | "lower_char c = CHR ''-''" by (auto simp: slug_char_iff)
    then show ?thesis by cases (rule alnum_not(2), assumption, simp)
  qed
  then show "CHR ''+'' \<notin> set a" by fastforce
  show "\<not> contains a ''--''"
  proof
    assume "contains a ''--''"
    then obtain u v where "a = u @ ''--'' @ v" by (auto simp: contains_iff)
    then have "py_lower a = py_lower u @ ''--'' @ py_lower v"
      by (simp add: py_lower_def lower_char_def)
    then have "contains (py_lower a) ''--''" unfolding contains_iff by blast
    with assms show False by (simp add: slug_def)
  qed
  show "a = [] \<or> last a \<noteq> CHR ''-''"
  proof (cases a rule: rev_cases)
    case (snoc b c)
    then have "alnum (lower_char c)" using assms by (simp add: slug_def py_lower_def)
    then show ?thesis using snoc alnum_not(1) [of "lower_char c"] by auto
  qed simp
qed

lemma valid_lower_plain:
  assumes "is_valid_ds_id (py_lower a)"
  shows "CHR ''+'' \<notin> set a" and "\<not> contains a ''--''" and "a = [] \<or> last a \<noteq> CHR ''-''"
proof -
  from assms obtain t where t: "slug t" "py_lower a = t \<or> py_lower a = t @ [CHR 0x0A]"
    using is_valid_ds_id_slug by blast
  have "CHR ''+'' \<notin> set a \<and> \<not> contains a ''--'' \<and> (a = [] \<or> last a \<noteq> CHR ''-'')"
    using t(2)
  proof
    assume "py_lower a = t"
    then show ?thesis using t(1) slug_lower_plain [of a] by blast
  next
    assume nl: "py_lower a = t @ [CHR 0x0A]"
    then obtain b c where a: "a = b @ [c]" by (cases a rule: rev_cases) (auto simp: py_lower_def)
    then have b: "py_lower b = t" and c: "lower_char c = CHR 0x0A"
      using nl by (simp_all add: py_lower_def)
    then have "c \<noteq> CHR ''+''" and cd: "c \<noteq> CHR ''-''"
      using lower_char_plus [of c] lower_char_dash [of c] by auto
    moreover have "\<not> contains (b @ [c]) ''--''"
    proof
      assume "contains (b @ [c]) ''--''"
      then obtain u v where e: "b @ [c] = u @ ''--'' @ v" by (auto simp: contains_iff)
      then obtain v' where "v = v' @ [c]" using cd
        by (cases v rule: rev_cases) (auto simp: append_eq_append_conv2 Cons_eq_append_conv)
      then have "contains b ''--''" using e by (auto simp: contains_iff)
      with b t(1) show False using slug_lower_plain(2) [of b] by blast
    qed
    ultimately show ?thesis using a b t(1) slug_lower_plain(1) [of b] by auto
  qed
  then show "CHR ''+'' \<notin> set a" "\<not> contains a ''--''" "a = [] \<or> last a \<noteq> CHR ''-''" by blast+
qed

lemma split_scan_parts:
  "l = fst (split_scan l) @ (case snd (split_scan l) of None \<Rightarrow> [] | Some m \<Rightarrow> ''+'' @ m) \<or>
   l = fst (split_scan l) @ (case snd (split_scan l) of None \<Rightarrow> [] | Some m \<Rightarrow> ''--'' @ m)"
  by (induction l rule: split_scan.induct) (auto split: prod.split)

text \<open>C33 - functional: which addresses are accepted, and what is read from each. The address
  is an identifier, then nothing or a separator (\<open>+\<close> or \<open>--\<close>) and a mailbox, then
  \<open>@\<close> and a domain without \<open>@\<close>; in lower case the identifier is a slug (possibly with the
  one newline that Python's \<open>$\<close> lets through) and the domain an allowed one. The result is
  exactly the identifier and the domain in lower case and the mailbox as it was written, none
  when it is empty; every other address is refused.\<close>

theorem parse_recipient_parts:
  "parse_recipient e D = Some p \<longleftrightarrow>
     (\<exists>a sep m d. e = a @ sep @ m @ ''@'' @ d \<and>
        (sep = [] \<and> m = [] \<or> sep = ''+'' \<or> sep = ''--'') \<and>
        (\<exists>s. slug s \<and> (py_lower a = s \<or> py_lower a = s @ [CHR 0x0A])) \<and>
        CHR ''@'' \<notin> set d \<and> py_lower d \<in> D \<and>
        pa_ds_id p = py_lower a \<and> pa_domain p = py_lower d \<and>
        pa_mailbox p = (if m = [] then None else Some m))" (is "?L \<longleftrightarrow> ?R")
proof
  assume ?L
  then obtain l d where l: "e = l @ CHR ''@'' # d" "CHR ''@'' \<notin> set d" "py_lower d \<in> D"
      "is_valid_ds_id (py_lower (fst (split_scan l)))"
    and p: "p = \<lparr>pa_ds_id = py_lower (fst (split_scan l)), pa_mailbox = or_none (snd (split_scan l)),
          pa_domain = py_lower d\<rparr>" unfolding parse_recipient_iff by blast
  obtain sep m where eq: "l = fst (split_scan l) @ sep @ m"
    and sep: "sep = [] \<and> m = [] \<or> sep = ''+'' \<or> sep = ''--''"
    and m: "or_none (snd (split_scan l)) = (if m = [] then None else Some m)"
  proof (cases "snd (split_scan l)")
    case None
    then show ?thesis using that [of "[]" "[]"] split_scan_parts [of l] by (simp add: or_none_def)
  next
    case (Some m)
    then have "or_none (Some m) = (if m = [] then None else Some m)"
      by (cases m) (simp_all add: or_none_def)
    then show ?thesis using Some that [of "''+''" m] that [of "''--''" m] split_scan_parts [of l] by auto
  qed
  have "e = fst (split_scan l) @ sep @ m @ ''@'' @ d" using l(1) by (subst (asm) eq) simp
  moreover have "pa_mailbox p = (if m = [] then None else Some m)" unfolding p by (simp add: m)
  moreover have "pa_ds_id p = py_lower (fst (split_scan l)) \<and> pa_domain p = py_lower d"
    unfolding p by simp
  moreover note sep l(4) [unfolded is_valid_ds_id_slug] l(2,3)
  ultimately show ?R by blast
next
  assume ?R
  then obtain a sep m d where e: "e = a @ sep @ m @ ''@'' @ d"
      "sep = [] \<and> m = [] \<or> sep = ''+'' \<or> sep = ''--''" and v: "is_valid_ds_id (py_lower a)"
    and d: "CHR ''@'' \<notin> set d" "py_lower d \<in> D" and p: "pa_ds_id p = py_lower a"
      "pa_domain p = py_lower d" "pa_mailbox p = (if m = [] then None else Some m)"
    unfolding is_valid_ds_id_slug by blast
  note scan = split_scan_slug [OF valid_lower_plain [OF v]]
  have "fst (split_scan (a @ sep @ m)) = a"
    and "or_none (snd (split_scan (a @ sep @ m))) = (if m = [] then None else Some m)"
    using e(2) scan by (auto simp: or_none_def split: list.split)
  then show ?L unfolding parse_recipient_iff using e(1) v d p
    by (intro exI [of _ "a @ sep @ m"] exI [of _ d]) simp
qed



end
