(* ===== verification/Interfaces.thy ===== *)
theory Interfaces
  imports Models
begin

text \<open>
  The contracts between components, as locales: the operations a client calls and the laws
  its provider promises. The clients' consequences are proved here once; each provider
  interprets its contract on the definitions of its own theory.
\<close>

section \<open>A text encoding with its reader\<close>

text \<open>Provider: the timestamp columns of the queue. Client: whoever compares stored texts.\<close>

locale text_codec =
  fixes enc :: "'a \<Rightarrow> string" and dec :: "string \<Rightarrow> 'a option" and dom_ok :: "'a \<Rightarrow> bool"
  assumes dec_enc: "dom_ok x \<Longrightarrow> dec (enc x) = Some x"
begin

lemma enc_inj: "dom_ok x \<Longrightarrow> dom_ok y \<Longrightarrow> enc x = enc y \<Longrightarrow> x = y"
  by (metis dec_enc option.inject)

lemma dec_total: "dom_ok x \<Longrightarrow> dec (enc x) \<noteq> None"
  by (simp add: dec_enc)

end

section \<open>A durable mail store\<close>

text \<open>
  Provider: the SQLite queue. Clients: the receiver, the worker and the admin tool, which
  interleave atomic transactions (the events). The store keeps its invariant, never rewrites
  what a mail is, and lets go of a mail only once it is delivered.
\<close>

locale mail_store =
  fixes inv :: "'q \<Rightarrow> bool"
    and row_of :: "int \<Rightarrow> 'q \<Rightarrow> 'r option"
    and payload :: "'r \<Rightarrow> 'p"
    and status :: "'r \<Rightarrow> qstate"
    and ok_event :: "'e \<Rightarrow> bool"
    and step :: "'q \<Rightarrow> 'e \<Rightarrow> 'q"
  assumes inv_step: "inv q \<Longrightarrow> ok_event e \<Longrightarrow> inv (step q e)"
    and payload_step: "inv q \<Longrightarrow> row_of i q = Some r \<Longrightarrow> row_of i (step q e) = Some r' \<Longrightarrow>
      payload r' = payload r"
    and kept_step: "inv q \<Longrightarrow> row_of i q = Some r \<Longrightarrow> status r \<noteq> Delivered \<Longrightarrow>
      row_of i (step q e) \<noteq> None"
begin

lemma inv_run: "inv q \<Longrightarrow> list_all ok_event es \<Longrightarrow> inv (foldl step q es)"
  by (induction es arbitrary: q) (auto intro: inv_step)

lemma lost_only_delivered:
  assumes "inv q" and "list_all ok_event es" and "row_of i q = Some r"
    and "row_of i (foldl step q es) = None"
  shows "\<exists>es1 e es2 r1. es = es1 @ e # es2 \<and> row_of i (foldl step q es1) = Some r1 \<and>
    status r1 = Delivered \<and> payload r1 = payload r \<and> row_of i (step (foldl step q es1) e) = None"
  using assms
proof (induction es arbitrary: q r)
  case (Cons e es)
  show ?case
  proof (cases "row_of i (step q e)")
    case None
    then have "status r = Delivered" using kept_step [OF Cons.prems(1,3)] by blast
    then show ?thesis
      using None Cons.prems(3) by (intro exI [of _ "[]"] exI [of _ e] exI [of _ es] exI [of _ r]) simp
  next
    case (Some r')
    have p: "payload r' = payload r" by (rule payload_step [OF Cons.prems(1,3) Some])
    have "inv (step q e)" using Cons.prems by (auto intro: inv_step)
    with Cons.IH [of "step q e" r'] Cons.prems Some obtain es1 e' es2 r1 where
      "es = es1 @ e' # es2" "row_of i (foldl step (step q e) es1) = Some r1" "status r1 = Delivered"
      "payload r1 = payload r'" "row_of i (step (foldl step (step q e) es1) e') = None"
      by auto
    then show ?thesis
      using p by (intro exI [of _ "e # es1"] exI [of _ e'] exI [of _ es2] exI [of _ r1]) simp
  qed
qed simp

lemma payload_run:
  assumes "inv q" and "list_all ok_event es" and "row_of i q = Some r"
    and "\<And>es1 es2. es = es1 @ es2 \<Longrightarrow> row_of i (foldl step q es1) \<noteq> None"
  shows "\<exists>r'. row_of i (foldl step q es) = Some r' \<and> payload r' = payload r"
  using assms
proof (induction es arbitrary: q r)
  case (Cons e es)
  have "row_of i (foldl step q [e]) \<noteq> None" by (rule Cons.prems(4) [of _ es]) simp
  then obtain r1 where r1: "row_of i (step q e) = Some r1" by auto
  have "payload r1 = payload r" by (rule payload_step [OF Cons.prems(1,3) r1])
  moreover have "\<exists>r'. row_of i (foldl step (step q e) es) = Some r' \<and> payload r' = payload r1"
  proof (rule Cons.IH)
    show "inv (step q e)" "list_all ok_event es" using Cons.prems by (auto intro: inv_step)
    show "row_of i (step q e) = Some r1" by (rule r1)
    fix es1 es2 assume "es = es1 @ es2"
    then show "row_of i (foldl step (step q e) es1) \<noteq> None"
      using Cons.prems(4) [of "e # es1" es2] by simp
  qed
  ultimately show ?case by auto
qed simp

end

section \<open>A directory of data sources\<close>

text \<open>
  Provider: the lookup table. Clients: the policy server, the receiver and the worker. The
  served domains are lower case, and identifiers are found whatever their case.
\<close>

locale directory =
  fixes domains :: "'t \<Rightarrow> string set" and find_ds :: "'t \<Rightarrow> string \<Rightarrow> ds_config option"
    and table_ok :: "'t \<Rightarrow> bool"
  assumes domains_lower: "table_ok t \<Longrightarrow> d \<in> domains t \<Longrightarrow> py_lower d = d"
    and find_lower: "find_ds t (py_lower k) = find_ds t k"
    and find_id: "table_ok t \<Longrightarrow> find_ds t k = Some c \<Longrightarrow> cfg_ds_id c = py_lower k"
begin

lemma find_case_insensitive: "py_lower a = py_lower b \<Longrightarrow> find_ds t a = find_ds t b"
  by (metis find_lower)

lemma find_same_entry: "table_ok t \<Longrightarrow> find_ds t k = Some c \<Longrightarrow> find_ds t (cfg_ds_id c) = Some c"
  by (simp add: find_id find_lower)

end

section \<open>A guarded transition system\<close>

text \<open>Provider: each step relation of the system. An invariant of the steps holds on every run.\<close>

locale step_system =
  fixes start :: "'s \<Rightarrow> bool" and move :: "'s \<Rightarrow> 's \<Rightarrow> bool" and inv :: "'s \<Rightarrow> bool"
  assumes inv_start: "start s \<Longrightarrow> inv s"
    and inv_move: "inv s \<Longrightarrow> move s t \<Longrightarrow> inv t"
begin

lemma inv_reach: "move\<^sup>*\<^sup>* s t \<Longrightarrow> inv s \<Longrightarrow> inv t"
  by (induction rule: rtranclp_induct) (auto intro: inv_move)

lemma inv_from_start: "start s \<Longrightarrow> move\<^sup>*\<^sup>* s t \<Longrightarrow> inv t"
  by (auto intro: inv_reach inv_start)

end

text \<open>
  Provider: a program whose steps are finer than those of the system. Every step of it is a
  step of the system or invisible there, so that what holds on the system's runs holds on its own.
\<close>

locale simulation = step_system +
  fixes fine :: "'c \<Rightarrow> 'c \<Rightarrow> bool" and view :: "'c \<Rightarrow> 'a"
  assumes fine_step: "fine c d \<Longrightarrow> move (view c) (view d) \<or> view d = view c"
begin

lemma view_reach: "fine\<^sup>*\<^sup>* c d \<Longrightarrow> move\<^sup>*\<^sup>* (view c) (view d)"
proof (induction rule: rtranclp_induct)
  case (step d e)
  from fine_step [OF step.hyps(2)] show ?case using step.IH by (auto intro: rtranclp.rtrancl_into_rtrancl)
qed simp

lemma view_inv: "fine\<^sup>*\<^sup>* c d \<Longrightarrow> inv (view c) \<Longrightarrow> inv (view d)"
  using view_reach inv_reach by blast

end

end
