(* ===== verification/Json.thy ===== *)
theory Json
  imports Py_Str
begin

text \<open>
  JSON values as \<open>json.loads\<close> returns them, with the operations of the Python objects that the
  program applies to them (truth value, \<open>dict.get\<close>, \<open>str\<close>), and the reader \<open>json.loads\<close>
  and writer \<open>json.dumps(indent=2, ensure_ascii=False)\<close>. An object is an association list in
  insertion order with distinct keys, as a Python \<open>dict\<close> is. A float keeps the text it was
  written with. A \<open>\u\<close> escape above \<open>\u00ff\<close> is outside the string model and is not read.
  The limits of the interpreter on integers and nesting are no part of the reader: a caller that
  meets texts beyond them has them in its environment (\<open>loads_within\<close> of \<open>Lookup_Sync\<close>).
\<close>

section \<open>Values\<close>

datatype json =
    JNull
  | JBool bool
  | JInt int
  | JFloat string
  | JStr string
  | JList "json list"
  | JObj "(string \<times> json) list"

text \<open>\<open>d[k] = v\<close> on a Python \<open>dict\<close>: a key keeps the position of its first insertion.\<close>

fun dict_set :: "('k \<times> 'v) list \<Rightarrow> 'k \<Rightarrow> 'v \<Rightarrow> ('k \<times> 'v) list" where
  "dict_set [] k v = [(k, v)]"
| "dict_set ((k', v') # d) k v = (if k' = k then (k, v) # d else (k', v') # dict_set d k v)"

lemma dict_set_keys: "fst ` set (dict_set d k v) = insert k (fst ` set d)"
  by (induction d k v rule: dict_set.induct) (simp_all add: insert_commute)

lemma dict_set_distinct [simp]: "distinct (map fst d) \<Longrightarrow> distinct (map fst (dict_set d k v))"
  by (induction d k v rule: dict_set.induct) (auto simp: dict_set_keys)

lemma map_of_dict_set [simp]: "map_of (dict_set d k v) = (map_of d)(k \<mapsto> v)"
  by (induction d) auto

lemma dict_set_fresh: "k \<notin> fst ` set d \<Longrightarrow> dict_set d k v = d @ [(k, v)]"
  by (induction d) auto

text \<open>\<open>bool(v)\<close>.\<close>

fun truthy :: "json \<Rightarrow> bool" where
  "truthy JNull = False"
| "truthy (JBool b) = b"
| "truthy (JInt i) = (i \<noteq> 0)"
| "truthy (JFloat t) = (\<exists>c \<in> set (takeWhile (\<lambda>c. c \<noteq> CHR ''e'' \<and> c \<noteq> CHR ''E'') t). c \<notin> set ''-0.'')"
| "truthy (JStr s) = (s \<noteq> [])"
| "truthy (JList xs) = (xs \<noteq> [])"
| "truthy (JObj d) = (d \<noteq> [])"

definition is_dict :: "json \<Rightarrow> bool" where
  "is_dict j = (case j of JObj _ \<Rightarrow> True | _ \<Rightarrow> False)"

text \<open>\<open>v.get(k)\<close>: only a \<open>dict\<close> has the method; a missing key gives \<open>None\<close>.\<close>

definition py_get :: "json \<Rightarrow> string \<Rightarrow> json result" where
  "py_get j k = (case j of
     JObj d \<Rightarrow> Ok (case map_of d k of None \<Rightarrow> JNull | Some v \<Rightarrow> v)
   | _ \<Rightarrow> Raise AttributeError)"

definition dict_get :: "(string \<times> json) list \<Rightarrow> string \<Rightarrow> json \<Rightarrow> json" where
  "dict_get d k dflt = (case map_of d k of None \<Rightarrow> dflt | Some v \<Rightarrow> v)"

section \<open>Python's \<open>str\<close> and \<open>repr\<close> of a value\<close>

definition hex_digit :: "nat \<Rightarrow> char" where
  "hex_digit n = (if n < 10 then char_of (48 + n) else char_of (87 + n))"

definition hex2 :: "nat \<Rightarrow> string" where
  "hex2 n = [hex_digit (n div 16), hex_digit (n mod 16)]"

definition quote :: char where "quote = CHR 0x27"
definition backslash :: char where "backslash = CHR 0x5C"

definition repr_char :: "char \<Rightarrow> char \<Rightarrow> string" where
  "repr_char q c = (let n = of_char c :: nat in
     if c = q \<or> c = backslash then [backslash, c]
     else if n = 10 then [backslash, CHR ''n'']
     else if n = 13 then [backslash, CHR ''r'']
     else if n = 9 then [backslash, CHR ''t'']
     else if n < 32 \<or> 127 \<le> n \<and> n \<le> 160 \<or> n = 173 then backslash # CHR ''x'' # hex2 n
     else [c])"

definition repr_str :: "string \<Rightarrow> string" where
  "repr_str s = (let q = (if quote \<in> set s \<and> CHR 0x22 \<notin> set s then CHR 0x22 else quote) in
     q # concat (map (repr_char q) s) @ [q])"

fun join :: "string \<Rightarrow> string list \<Rightarrow> string" where
  "join sep [] = []"
| "join sep [x] = x"
| "join sep (x # y # xs) = x @ sep @ join sep (y # xs)"

fun py_repr :: "json \<Rightarrow> string" where
  "py_repr JNull = ''None''"
| "py_repr (JBool b) = (if b then ''True'' else ''False'')"
| "py_repr (JInt i) = int_str i"
| "py_repr (JFloat t) = t"
| "py_repr (JStr s) = repr_str s"
| "py_repr (JList xs) = ''['' @ join '', '' (map py_repr xs) @ '']''"
| "py_repr (JObj d) = ''{'' @ join '', '' (map (\<lambda>(k, v). repr_str k @ '': '' @ py_repr v) d) @ ''}''"

definition py_str :: "json \<Rightarrow> string" where
  "py_str j = (case j of JStr s \<Rightarrow> s | _ \<Rightarrow> py_repr j)"

section \<open>\<open>json.loads\<close>\<close>

definition json_ws :: "string \<Rightarrow> string" where
  "json_ws = dropWhile (\<lambda>c. c \<in> set [CHR '' '', CHR 0x09, CHR 0x0A, CHR 0x0D])"

definition hex_val :: "char \<Rightarrow> nat option" where
  "hex_val c = (let n = of_char c :: nat in
     if 48 \<le> n \<and> n \<le> 57 then Some (n - 48)
     else if 97 \<le> n \<and> n \<le> 102 then Some (n - 87)
     else if 65 \<le> n \<and> n \<le> 70 then Some (n - 55) else None)"

text \<open>The character an escape stands for, after the backslash, and the rest of the text.\<close>

fun unescape :: "string \<Rightarrow> (char \<times> string) option" where
  "unescape [] = None"
| "unescape (c # r) =
    (if c = CHR 0x22 \<or> c = backslash \<or> c = CHR ''/'' then Some (c, r)
     else if c = CHR ''b'' then Some (CHR 0x08, r)
     else if c = CHR ''f'' then Some (CHR 0x0C, r)
     else if c = CHR ''n'' then Some (CHR 0x0A, r)
     else if c = CHR ''r'' then Some (CHR 0x0D, r)
     else if c = CHR ''t'' then Some (CHR 0x09, r)
     else if c = CHR ''u'' then
       (case r of
          z1 # z2 # h1 # h2 # r' \<Rightarrow>
            if z1 = CHR ''0'' \<and> z2 = CHR ''0'' then
              (case (hex_val h1, hex_val h2) of
                 (Some a, Some b) \<Rightarrow> Some (char_of (16 * a + b), r')
               | _ \<Rightarrow> None)
            else None
        | _ \<Rightarrow> None)
     else None)"

lemma unescape_shorter: "unescape s = Some (c, r) \<Longrightarrow> length r < length s"
  by (cases s) (auto split: if_splits list.splits option.splits)

text \<open>The text of a string up to its closing quote (the opening one is consumed).\<close>

function scan_str :: "string \<Rightarrow> (string \<times> string) option" where
  "scan_str s = (case s of
     [] \<Rightarrow> None
   | c # r \<Rightarrow>
       if c = CHR 0x22 then Some ([], r)
       else if c = backslash then
         (case unescape r of None \<Rightarrow> None
          | Some (x, r') \<Rightarrow> map_option (\<lambda>(t, r''). (x # t, r'')) (scan_str r'))
       else if (of_char c :: nat) < 32 then None
       else map_option (\<lambda>(t, r''). (c # t, r'')) (scan_str r))"
  by pat_completeness auto
termination
  by (relation "measure length") (auto dest!: unescape_shorter)

declare scan_str.simps [simp del]

text \<open>A number: an integer part, an optional fraction and an optional exponent.\<close>

definition scan_digits :: "string \<Rightarrow> string \<times> string" where
  "scan_digits s = (takeWhile is_digit s, dropWhile is_digit s)"

definition scan_int :: "string \<Rightarrow> (string \<times> string) option" where
  "scan_int s = (case s of
     [] \<Rightarrow> None
   | c # r \<Rightarrow> if c = CHR ''0'' then Some ([c], r)
              else if is_digit c then Some (scan_digits s) else None)"

definition scan_frac :: "string \<Rightarrow> string \<times> string" where
  "scan_frac s = (case s of
     [] \<Rightarrow> ([], s)
   | c # r \<Rightarrow> if c = CHR ''.'' \<and> fst (scan_digits r) \<noteq> []
              then (c # fst (scan_digits r), snd (scan_digits r)) else ([], s))"

definition scan_exp :: "string \<Rightarrow> string \<times> string" where
  "scan_exp s = (case s of
     [] \<Rightarrow> ([], s)
   | c # r \<Rightarrow> if c = CHR ''e'' \<or> c = CHR ''E'' then
       (let (sg, r1) = (case r of d # r1 \<Rightarrow> if d = CHR ''+'' \<or> d = CHR ''-'' then ([d], r1) else ([], r) | [] \<Rightarrow> ([], r)) in
        if fst (scan_digits r1) \<noteq> [] then (c # sg @ fst (scan_digits r1), snd (scan_digits r1)) else ([], s))
     else ([], s))"

definition scan_number :: "string \<Rightarrow> (json \<times> string) option" where
  "scan_number s =
    (let (sg, r) = (if startswith s ''-'' then (''-'', tl s) else ([], s)) in
     case scan_int r of None \<Rightarrow> None
     | Some (i, r1) \<Rightarrow>
         let (f, r2) = scan_frac r1; (e, r3) = scan_exp r2 in
         if f = [] \<and> e = [] then Some (JInt (if sg = [] then int (dec_val i) else - int (dec_val i)), r1)
         else Some (JFloat (sg @ i @ f @ e), r3))"

definition scan_word :: "string \<Rightarrow> (json \<times> string) option" where
  "scan_word s =
    (if startswith s ''null'' then Some (JNull, drop 4 s)
     else if startswith s ''true'' then Some (JBool True, drop 4 s)
     else if startswith s ''false'' then Some (JBool False, drop 5 s)
     else case scan_number s of
       Some x \<Rightarrow> Some x
     | None \<Rightarrow>
         if startswith s ''NaN'' then Some (JFloat ''nan'', drop 3 s)
         else if startswith s ''Infinity'' then Some (JFloat ''inf'', drop 8 s)
         else if startswith s ''-Infinity'' then Some (JFloat ''-inf'', drop 9 s)
         else None)"

text \<open>
  The recursive descent over values, list elements and object members. The fuel bounds the
  nesting and the number of elements; \<open>json_loads\<close> starts with more than the text's length,
  and every element consumes a character.
\<close>

fun scan_value :: "nat \<Rightarrow> string \<Rightarrow> (json \<times> string) option"
  and scan_elems :: "nat \<Rightarrow> string \<Rightarrow> (json list \<times> string) option"
  and scan_members :: "nat \<Rightarrow> (string \<times> json) list \<Rightarrow> string \<Rightarrow> ((string \<times> json) list \<times> string) option"
where
  "scan_value 0 s = None"
| "scan_value (Suc n) s =
    (case s of
       [] \<Rightarrow> None
     | c # r \<Rightarrow>
         if c = CHR 0x22 then map_option (\<lambda>(t, r'). (JStr t, r')) (scan_str r)
         else if c = CHR ''{'' then
           (if startswith (json_ws r) ''}'' then Some (JObj [], tl (json_ws r))
            else map_option (\<lambda>(d, r'). (JObj d, r')) (scan_members n [] (json_ws r)))
         else if c = CHR ''['' then
           (if startswith (json_ws r) '']'' then Some (JList [], tl (json_ws r))
            else map_option (\<lambda>(xs, r'). (JList xs, r')) (scan_elems n (json_ws r)))
         else scan_word s)"
| "scan_elems 0 s = None"
| "scan_elems (Suc n) s =
    (case scan_value n s of None \<Rightarrow> None
     | Some (v, r) \<Rightarrow>
         if startswith (json_ws r) '']'' then Some ([v], tl (json_ws r))
         else if startswith (json_ws r) '','' then
           map_option (\<lambda>(vs, r'). (v # vs, r')) (scan_elems n (json_ws (tl (json_ws r))))
         else None)"
| "scan_members 0 d s = None"
| "scan_members (Suc n) d s =
    (case s of
       [] \<Rightarrow> None
     | c # r \<Rightarrow>
         if c \<noteq> CHR 0x22 then None
         else (case scan_str r of None \<Rightarrow> None
          | Some (k, r1) \<Rightarrow>
              if \<not> startswith (json_ws r1) '':'' then None
              else (case scan_value n (json_ws (tl (json_ws r1))) of None \<Rightarrow> None
               | Some (v, r2) \<Rightarrow>
                   if startswith (json_ws r2) ''}'' then Some (dict_set d k v, tl (json_ws r2))
                   else if startswith (json_ws r2) '','' then
                     scan_members n (dict_set d k v) (json_ws (tl (json_ws r2)))
                   else None)))"

definition json_loads :: "string \<Rightarrow> json result" where
  "json_loads s = (case scan_value (2 * length s + 2) (json_ws s) of
     None \<Rightarrow> Raise JSONDecodeError
   | Some (v, r) \<Rightarrow> if json_ws r = [] then Ok v else Raise JSONDecodeError)"

section \<open>\<open>json.dumps(indent=2, ensure_ascii=False)\<close>\<close>

definition dump_char :: "char \<Rightarrow> string" where
  "dump_char c = (let n = of_char c :: nat in
     if c = CHR 0x22 \<or> c = backslash then [backslash, c]
     else if n = 10 then [backslash, CHR ''n'']
     else if n = 13 then [backslash, CHR ''r'']
     else if n = 9 then [backslash, CHR ''t'']
     else if n = 12 then [backslash, CHR ''f'']
     else if n = 8 then [backslash, CHR ''b'']
     else if n < 32 then backslash # ''u00'' @ hex2 n
     else [c])"

definition dump_str :: "string \<Rightarrow> string" where
  "dump_str s = CHR 0x22 # concat (map dump_char s) @ [CHR 0x22]"

definition new_line :: "nat \<Rightarrow> string" where
  "new_line k = CHR 0x0A # replicate (2 * k) (CHR '' '')"

fun dump :: "nat \<Rightarrow> json \<Rightarrow> string" where
  "dump k JNull = ''null''"
| "dump k (JBool b) = (if b then ''true'' else ''false'')"
| "dump k (JInt i) = int_str i"
| "dump k (JFloat t) = (if t = ''nan'' then ''NaN'' else if t = ''inf'' then ''Infinity''
      else if t = ''-inf'' then ''-Infinity'' else t)"
| "dump k (JStr s) = dump_str s"
| "dump k (JList xs) = (if xs = [] then ''[]'' else
     ''['' @ new_line (Suc k) @ join ('','' @ new_line (Suc k)) (map (dump (Suc k)) xs) @ new_line k @ '']'')"
| "dump k (JObj d) = (if d = [] then ''{}'' else
     ''{'' @ new_line (Suc k) @
       join ('','' @ new_line (Suc k)) (map (\<lambda>(n, v). dump_str n @ '': '' @ dump (Suc k) v) d) @
       new_line k @ ''}'')"

definition json_dumps :: "json \<Rightarrow> string" where
  "json_dumps = dump 0"

end
