(* ===== verification/Lookup.thy ===== *)
theory Lookup
  imports Interfaces Json
begin

text \<open>
  \<open>mail_router/lookup.py\<close>: the table of served domains and data sources, read from a JSON
  file and reloaded when the file's mtime changes. The file system is the environment: each
  of the three system calls of a lookup (the \<open>stat\<close> that decides, the read, the \<open>stat\<close>
  that records the new mtime) sees a file of its own, so that a writer may come in between.
  The lock makes one process' reloads sequential.
\<close>

section \<open>State\<close>

record lookup_file =
  f_text :: string
  f_mtime :: int

record lookup_table =
  lt_auto_reload :: bool
  lt_mtime :: "int option"
  lt_hosts :: "string set"
  lt_data :: "string \<Rightarrow> ds_config option"

record obs =
  ob_stat :: "lookup_file option"
  ob_read :: "lookup_file option"
  ob_stat2 :: "lookup_file option"

definition quiet :: "lookup_file option \<Rightarrow> obs" where
  "quiet f = \<lparr>ob_stat = f, ob_read = f, ob_stat2 = f\<rparr>"

section \<open>Reading the document\<close>

text \<open>\<open>for x in v\<close> over a JSON value, \<open>v.lower()\<close>, \<open>v[k]\<close> and \<open>v.rstrip("/")\<close>.\<close>

definition py_iter :: "json \<Rightarrow> json list result" where
  "py_iter v = (case v of
     JList xs \<Rightarrow> Ok xs
   | JStr s \<Rightarrow> Ok (map (\<lambda>c. JStr [c]) s)
   | JObj d \<Rightarrow> Ok (map (\<lambda>(k, v). JStr k) d)
   | _ \<Rightarrow> Raise TypeError)"

definition json_lower :: "json \<Rightarrow> string result" where
  "json_lower v = (case v of JStr s \<Rightarrow> Ok (py_lower s) | _ \<Rightarrow> Raise AttributeError)"

definition subscript :: "json \<Rightarrow> string \<Rightarrow> json result" where
  "subscript v k = (case v of
     JObj d \<Rightarrow> (case map_of d k of None \<Rightarrow> Raise (KeyError k) | Some x \<Rightarrow> Ok x)
   | _ \<Rightarrow> Raise TypeError)"

definition rstrip_slash :: "json \<Rightarrow> string result" where
  "rstrip_slash v = (case v of JStr s \<Rightarrow> Ok (rstrip_chars ''/'' s) | _ \<Rightarrow> Raise AttributeError)"

fun lower_hosts :: "json list \<Rightarrow> string set result" where
  "lower_hosts [] = Ok {}"
| "lower_hosts (h # hs) = bind_result (json_lower h) (\<lambda>x.
     bind_result (lower_hosts hs) (\<lambda>xs. Ok (insert x xs)))"

text \<open>\<open>DsConfig(...)\<close>; the token is only ever formatted, so its text is kept.\<close>

definition ds_entry :: "string \<Rightarrow> json \<Rightarrow> ds_config result" where
  "ds_entry key entry =
     bind_result (subscript entry ''api_url'') (\<lambda>u.
     bind_result (rstrip_slash u) (\<lambda>url.
     bind_result (subscript entry ''api_token'') (\<lambda>tok.
       Ok \<lparr>cfg_ds_id = py_lower key, api_url = url, api_token = py_str tok\<rparr>)))"

fun load_sources :: "(string \<Rightarrow> ds_config option) \<Rightarrow> (string \<times> json) list \<Rightarrow> (string \<Rightarrow> ds_config option) result" where
  "load_sources m [] = Ok m"
| "load_sources m ((key, entry) # es) = bind_result (ds_entry key entry) (\<lambda>c.
     load_sources (m(py_lower key \<mapsto> c)) es)"

definition get_default :: "json \<Rightarrow> string \<Rightarrow> json \<Rightarrow> json result" where
  "get_default v k dflt = (case v of JObj d \<Rightarrow> Ok (dict_get d k dflt) | _ \<Rightarrow> Raise AttributeError)"

definition parse_lookup :: "string \<Rightarrow> (string set \<times> (string \<Rightarrow> ds_config option)) result" where
  "parse_lookup body =
     bind_result (json_loads body) (\<lambda>raw.
     bind_result (get_default raw ''hosts'' (JList [])) (\<lambda>hs.
     bind_result (py_iter hs) (\<lambda>hs.
     bind_result (lower_hosts hs) (\<lambda>hosts.
     bind_result (py_get raw ''data_sources'') (\<lambda>ds.
     bind_result (if truthy ds then (case ds of JObj d \<Rightarrow> Ok d | _ \<Rightarrow> Raise AttributeError) else Ok []) (\<lambda>items.
     bind_result (load_sources Map.empty items) (\<lambda>data. Ok (hosts, data))))))))"

section \<open>Operations\<close>

text \<open>A raised exception leaves the table as it was: the assignments come last.\<close>

definition load_table :: "lookup_file option \<Rightarrow> lookup_file option \<Rightarrow> lookup_table \<Rightarrow> lookup_table result" where
  "load_table rd st t = (case rd of
     None \<Rightarrow> Ok (t\<lparr>lt_hosts := {}, lt_data := Map.empty, lt_mtime := None\<rparr>)
   | Some f \<Rightarrow> bind_result (parse_lookup (f_text f)) (\<lambda>(hosts, data).
       Ok (t\<lparr>lt_hosts := hosts, lt_data := data, lt_mtime := map_option f_mtime st\<rparr>)))"

definition LookupTable_init :: "bool \<Rightarrow> lookup_file option \<Rightarrow> lookup_file option \<Rightarrow> lookup_table result" where
  "LookupTable_init auto rd st =
     load_table rd st \<lparr>lt_auto_reload = auto, lt_mtime = None, lt_hosts = {}, lt_data = Map.empty\<rparr>"

definition maybe_reload :: "obs \<Rightarrow> lookup_table \<Rightarrow> lookup_table result" where
  "maybe_reload ob t = (case ob_stat ob of
     None \<Rightarrow> Ok t
   | Some f \<Rightarrow> if Some (f_mtime f) \<noteq> lt_mtime t then load_table (ob_read ob) (ob_stat2 ob) t else Ok t)"

definition refresh :: "obs \<Rightarrow> lookup_table \<Rightarrow> lookup_table result" where
  "refresh ob t = (if lt_auto_reload t then maybe_reload ob t else Ok t)"

definition allowed_domains :: "obs \<Rightarrow> lookup_table \<Rightarrow> (string set \<times> lookup_table) result" where
  "allowed_domains ob t = bind_result (refresh ob t) (\<lambda>t'. Ok (lt_hosts t', t'))"

definition find_ds :: "lookup_table \<Rightarrow> string \<Rightarrow> ds_config option" where
  "find_ds t ds_id = lt_data t (py_lower ds_id)"

definition resolve :: "obs \<Rightarrow> string \<Rightarrow> lookup_table \<Rightarrow> (ds_config option \<times> lookup_table) result" where
  "resolve ob ds_id t = bind_result (refresh ob t) (\<lambda>t'. Ok (find_ds t' ds_id, t'))"

section \<open>The table invariant\<close>

definition table_ok :: "lookup_table \<Rightarrow> bool" where
  "table_ok t \<longleftrightarrow> (\<forall>h \<in> lt_hosts t. py_lower h = h) \<and>
     (\<forall>k c. lt_data t k = Some c \<longrightarrow> cfg_ds_id c = k \<and> py_lower k = k)"

lemma lower_hosts_lower: "lower_hosts hs = Inr H \<Longrightarrow> h \<in> H \<Longrightarrow> py_lower h = h"
  by (induction hs arbitrary: H) (auto simp: json_lower_def split: json.splits)

lemma ds_entry_id: "ds_entry key entry = Inr c \<Longrightarrow> cfg_ds_id c = py_lower key"
  by (auto simp: ds_entry_def)

lemma load_sources_ids:
  "load_sources m es = Inr m' \<Longrightarrow> (\<forall>k c. m k = Some c \<longrightarrow> cfg_ds_id c = k \<and> py_lower k = k) \<Longrightarrow>
   m' k = Some c \<Longrightarrow> cfg_ds_id c = k \<and> py_lower k = k"
proof (induction m es arbitrary: m' rule: load_sources.induct)
  case (2 m key entry es)
  obtain c' where c': "ds_entry key entry = Inr c'" "load_sources (m(py_lower key \<mapsto> c')) es = Inr m'"
    using "2.prems"(1) by auto
  have "\<forall>k c. (m(py_lower key \<mapsto> c')) k = Some c \<longrightarrow> cfg_ds_id c = k \<and> py_lower k = k"
    using "2.prems"(2) ds_entry_id [OF c'(1)] by auto
  from "2.IH" [OF c'(2) this "2.prems"(3)] show ?case .
qed auto

lemma parse_lookup_ok:
  assumes "parse_lookup body = Inr (hosts, data)"
  shows "\<forall>h \<in> hosts. py_lower h = h" and "data k = Some c \<Longrightarrow> cfg_ds_id c = k \<and> py_lower k = k"
proof -
  from assms obtain hs items where "lower_hosts hs = Inr hosts" "load_sources Map.empty items = Inr data"
    by (auto simp: parse_lookup_def)
  then show "\<forall>h \<in> hosts. py_lower h = h" "data k = Some c \<Longrightarrow> cfg_ds_id c = k \<and> py_lower k = k"
    using lower_hosts_lower load_sources_ids [of Map.empty items data k c] by auto
qed

lemma table_ok_load [inv_intros]: "table_ok t \<Longrightarrow> load_table rd st t = Inr t' \<Longrightarrow> table_ok t'"
  using parse_lookup_ok by (fastforce simp: load_table_def table_ok_def split: option.splits)

lemma table_ok_init [inv_intros]: "LookupTable_init auto rd st = Inr t \<Longrightarrow> table_ok t"
  unfolding LookupTable_init_def by (erule table_ok_load [rotated]) (simp add: table_ok_def)

lemma table_ok_refresh [inv_intros]: "table_ok t \<Longrightarrow> refresh ob t = Inr t' \<Longrightarrow> table_ok t'"
  using table_ok_load by (auto simp: refresh_def maybe_reload_def split: if_splits option.splits)

interpretation ldir: directory lt_hosts find_ds table_ok
  by unfold_locales (auto simp: table_ok_def find_ds_def)

section \<open>Reloading\<close>

text \<open>The table holds what the file says, and remembers its mtime.\<close>

definition loaded_from :: "lookup_file \<Rightarrow> lookup_table \<Rightarrow> bool" where
  "loaded_from f t \<longleftrightarrow> lt_mtime t = Some (f_mtime f) \<and> parse_lookup (f_text f) = Ok (lt_hosts t, lt_data t)"

text \<open>functional: freshness. If no writer interferes with a lookup and mtimes tell
  versions apart, \<open>resolve\<close> answers from the current file, after a reload or without one,
  whatever the case of the identifier.\<close>

theorem resolve_fresh:
  assumes "lt_auto_reload t" and "parse_lookup (f_text f) = Ok (hosts, data)"
    and "lt_mtime t = Some (f_mtime f) \<Longrightarrow> loaded_from f t"
  shows "\<exists>t'. resolve (quiet (Some f)) ds_id t = Ok (data (py_lower ds_id), t') \<and> loaded_from f t' \<and>
    allowed_domains (quiet (Some f)) t = Ok (hosts, t')"
proof (cases "lt_mtime t = Some (f_mtime f)")
  case True
  then show ?thesis
    using assms by (auto simp: resolve_def allowed_domains_def refresh_def maybe_reload_def quiet_def find_ds_def loaded_from_def)
next
  case False
  then have "refresh (quiet (Some f)) t = Ok (t\<lparr>lt_hosts := hosts, lt_data := data, lt_mtime := Some (f_mtime f)\<rparr>)"
    using assms(1,2) by (simp add: refresh_def maybe_reload_def quiet_def load_table_def)
  then show ?thesis
    using assms(2) by (simp add: resolve_def allowed_domains_def find_ds_def loaded_from_def)
qed

definition sample_text :: string where
  "sample_text = json_dumps (JObj [(''hosts'', JList [JStr ''Shipard.Email'']),
     (''data_sources'', JObj [(''Firma-xyz'', JObj [(''api_url'', JStr ''https://h/''), (''api_token'', JStr ''t'')])])])"

definition sample_cfg :: ds_config where
  "sample_cfg = \<lparr>cfg_ds_id = ''firma-xyz'', api_url = ''https://h'', api_token = ''t''\<rparr>"

definition empty_table :: lookup_table where
  "empty_table = \<lparr>lt_auto_reload = True, lt_mtime = None, lt_hosts = {}, lt_data = Map.empty\<rparr>"

lemma parse_sample: "parse_lookup sample_text = Ok ({''shipard.email''}, [''firma-xyz'' \<mapsto> sample_cfg])"
proof -
  have js: "json_loads sample_text = Ok (JObj [(''hosts'', JList [JStr ''Shipard.Email'']),
     (''data_sources'', JObj [(''Firma-xyz'', JObj [(''api_url'', JStr ''https://h/''), (''api_token'', JStr ''t'')])])])"
    unfolding sample_text_def by code_simp
  have low: "py_lower ''Shipard.Email'' = ''shipard.email''" "py_lower ''Firma-xyz'' = ''firma-xyz''"
    "rstrip_chars ''/'' ''https://h/'' = ''https://h''"
    by code_simp+
  show ?thesis
    by (simp add: parse_lookup_def js get_default_def py_get_def dict_get_def py_iter_def json_lower_def
        low ds_entry_def subscript_def rstrip_slash_def py_str_def sample_cfg_def)
qed

theorem resolve_fresh_witness:
  "\<exists>t'. resolve (quiet (Some \<lparr>f_text = sample_text, f_mtime = 7\<rparr>)) ''FIRMA-XYZ'' empty_table =
      Ok (Some sample_cfg, t') \<and> loaded_from \<lparr>f_text = sample_text, f_mtime = 7\<rparr> t' \<and>
    allowed_domains (quiet (Some \<lparr>f_text = sample_text, f_mtime = 7\<rparr>)) empty_table = Ok ({''shipard.email''}, t')"
proof -
  have "py_lower ''FIRMA-XYZ'' = ''firma-xyz''" by code_simp
  then show ?thesis
    using resolve_fresh [of empty_table "\<lparr>f_text = sample_text, f_mtime = 7\<rparr>" "{''shipard.email''}"
        "[''firma-xyz'' \<mapsto> sample_cfg]" "''FIRMA-XYZ''"]
    by (simp add: parse_sample empty_table_def)
qed

text \<open>safety: a reload that races with a writer. The text is read before the mtime is
  recorded, so when the file is replaced in between, the old table is stored under the new
  mtime: every later lookup answers from the old file, until the file changes again.\<close>

theorem reload_race_is_stale:
  assumes "lt_auto_reload t" and "lt_mtime t \<noteq> Some (f_mtime old)"
    and "parse_lookup (f_text old) = Ok (hosts, data)"
  shows "\<exists>t'. resolve \<lparr>ob_stat = Some old, ob_read = Some old, ob_stat2 = Some new\<rparr> k t = Ok (data (py_lower k), t') \<and>
    (\<forall>ds_id. resolve (quiet (Some new)) ds_id t' = Ok (data (py_lower ds_id), t'))"
  using assms by (auto simp: resolve_def refresh_def maybe_reload_def load_table_def quiet_def find_ds_def)

theorem reload_race_is_stale_witness:
  "\<exists>t'. resolve \<lparr>ob_stat = Some \<lparr>f_text = sample_text, f_mtime = 7\<rparr>, ob_read = Some \<lparr>f_text = sample_text, f_mtime = 7\<rparr>,
        ob_stat2 = Some \<lparr>f_text = ''{}'', f_mtime = 8\<rparr>\<rparr> ''x'' empty_table = Ok (None, t') \<and>
    resolve (quiet (Some \<lparr>f_text = ''{}'', f_mtime = 8\<rparr>)) ''firma-xyz'' t' = Ok (Some sample_cfg, t')"
proof -
  have low: "py_lower ''x'' = ''x''" "py_lower ''firma-xyz'' = ''firma-xyz''" by code_simp+
  show ?thesis
    using reload_race_is_stale [of empty_table "\<lparr>f_text = sample_text, f_mtime = 7\<rparr>" "{''shipard.email''}"
        "[''firma-xyz'' \<mapsto> sample_cfg]" "\<lparr>f_text = ''{}'', f_mtime = 8\<rparr>" "''x''"] low
    by (force simp: parse_sample empty_table_def)
qed

text \<open>error: a document that does not load. While the changed file cannot be parsed, every
  lookup raises the parser's error (the old table stays, but answers nobody); a missing file
  raises nothing: it keeps the old table on a lookup and gives an empty one on a fresh start.\<close>

theorem reload_failures:
  assumes "lt_auto_reload t" and "lt_mtime t \<noteq> Some (f_mtime f)" and "parse_lookup (f_text f) = Raise e"
  shows "resolve (quiet (Some f)) ds_id t = Raise e \<and> allowed_domains (quiet (Some f)) t = Raise e \<and>
    LookupTable_init auto (Some f) (Some f) = Raise e \<and>
    resolve (quiet None) ds_id t = Ok (find_ds t ds_id, t) \<and>
    LookupTable_init True None None = Ok empty_table"
  using assms by (auto simp: resolve_def allowed_domains_def refresh_def maybe_reload_def load_table_def quiet_def
      LookupTable_init_def empty_table_def)

theorem reload_failures_witness:
  "resolve (quiet (Some \<lparr>f_text = ''{'', f_mtime = 7\<rparr>)) ''x'' empty_table = Raise JSONDecodeError \<and>
   resolve (quiet (Some \<lparr>f_text = ''[]'', f_mtime = 7\<rparr>)) ''x'' empty_table = Raise AttributeError"
proof -
  have js: "json_loads ''{'' = Raise JSONDecodeError" "json_loads ''[]'' = Ok (JList [])" by code_simp+
  have bad: "parse_lookup ''{'' = Raise JSONDecodeError" "parse_lookup ''[]'' = Raise AttributeError"
    by (simp_all add: parse_lookup_def get_default_def js)
  show ?thesis
    using reload_failures [of empty_table "\<lparr>f_text = ''{'', f_mtime = 7\<rparr>" JSONDecodeError "''x''" True]
      reload_failures [of empty_table "\<lparr>f_text = ''[]'', f_mtime = 7\<rparr>" AttributeError "''x''" True] bad
    by (simp add: empty_table_def)
qed

end
