(* ===== verification/Policy.thy ===== *)
theory Policy
  imports Address Lookup
begin

text \<open>
  \<open>mail_router/policy.py\<close>: the Postfix policy delegation server. A connection carries
  requests, blocks of \<open>key=value\<close> lines closed by an empty line; every request gets one
  \<open>action=\<close> reply. The byte stream of a connection is the list of what is still to be read;
  the UTF-8 decoder with replacement is the argument \<open>decode\<close>.
\<close>

section \<open>The verdict\<close>

type_synonym attrs = "(string \<times> string) list"

definition reject_empty :: string where
  "reject_empty = ''REJECT 550 5.1.1 Empty recipient''"

definition reject_unknown :: string where
  "reject_unknown = ''REJECT 550 5.1.1 Unknown recipient''"

text \<open>
  \<open>_evaluate\<close>, with what its two lookups observe of the file system. The table is returned
  beside the outcome: an exception of the second lookup leaves what the first one loaded.
\<close>

definition evaluate :: "obs \<Rightarrow> obs \<Rightarrow> attrs \<Rightarrow> lookup_table \<Rightarrow> string result \<times> lookup_table" where
  "evaluate ob1 ob2 attrs t =
     (let recipient = strip (case map_of attrs ''recipient'' of None \<Rightarrow> '''' | Some v \<Rightarrow> v)
      in if recipient = '''' then (Ok reject_empty, t)
         else case allowed_domains ob1 t of
           Inl e \<Rightarrow> (Raise e, t)
         | Inr (domains, t1) \<Rightarrow> (case parse_recipient recipient domains of
             None \<Rightarrow> (Ok reject_unknown, t1)
           | Some p \<Rightarrow> (case resolve ob2 (pa_ds_id p) t1 of
               Inl e \<Rightarrow> (Raise e, t1)
             | Inr (None, t2) \<Rightarrow> (Ok reject_unknown, t2)
             | Inr (Some c, t2) \<Rightarrow> (Ok ''OK'', t2))))"

section \<open>Reading a request\<close>

text \<open>
  \<open>StreamReader.readline\<close>: up to and with the next newline, or the rest at the end of the
  stream; a line of more than 64 KiB before its newline raises \<open>ValueError\<close>.
\<close>

definition stream_limit :: nat where
  "stream_limit = 65536"

definition newline :: char where
  "newline = CHR 0x0A"

definition readline :: "string \<Rightarrow> (string \<times> string) result" where
  "readline s = (let body = takeWhile (\<lambda>c. c \<noteq> newline) s; rest = dropWhile (\<lambda>c. c \<noteq> newline) s
     in if length body > stream_limit then Raise ValueError
        else case rest of [] \<Rightarrow> Ok (body, []) | c # cs \<Rightarrow> Ok (body @ [c], cs))"

lemma readline_split: "readline s = Inr (line, rest) \<Longrightarrow> s = line @ rest"
proof -
  assume "readline s = Inr (line, rest)"
  then have "takeWhile (\<lambda>c. c \<noteq> newline) s @ dropWhile (\<lambda>c. c \<noteq> newline) s = line @ rest"
    by (auto simp: readline_def Let_def simp del: takeWhile_dropWhile_id split: if_splits list.splits)
  then show ?thesis by simp
qed

lemma readline_Nil: "readline s = Inr ([], rest) \<Longrightarrow> s = []"
  by (cases s) (auto simp: readline_def Let_def split: if_splits list.splits)

lemma readline_shorter: "readline s = Inr (line, rest) \<Longrightarrow> line \<noteq> [] \<Longrightarrow> length rest < length s"
  by (drule readline_split) simp

function read_request :: "(string \<Rightarrow> string) \<Rightarrow> attrs \<Rightarrow> string \<Rightarrow> (attrs option \<times> string) result" where
  "read_request decode attrs s = (case readline s of
     Inl e \<Rightarrow> Inl e
   | Inr (line, rest) \<Rightarrow>
       if line = [] then Ok (if attrs = [] then None else Some attrs, rest)
       else let msg = rstrip_chars [CHR 0x0D, CHR 0x0A] (decode line) in
         if msg = [] then Ok (Some attrs, rest)
         else if CHR ''='' \<notin> set msg then read_request decode attrs rest
         else read_request decode (dict_set attrs (strip (before_first (CHR ''='') msg))
                (strip (after_first (CHR ''='') msg))) rest)"
  by pat_completeness auto
termination
  by (relation "measure (\<lambda>(d, a, s). length s)") (auto dest: readline_shorter)

declare read_request.simps [simp del]

lemma read_request_le: "read_request decode attrs s = Inr (a, rest) \<Longrightarrow> length rest \<le> length s"
proof (induction decode attrs s rule: read_request.induct)
  case (1 decode attrs s)
  obtain line mid where rl: "readline s = Inr (line, mid)"
    using "1.prems" by (subst (asm) read_request.simps) (auto split: sum.splits)
  have le: "length mid \<le> length s" using readline_split [OF rl] by simp
  define msg where "msg = rstrip_chars [CHR 0x0D, CHR 0x0A] (decode line)"
  note unfold = read_request.simps [of decode attrs s, unfolded rl, simplified, folded msg_def]
  note IH = "1.IH" [OF rl refl _ msg_def]
  show ?case
    using "1.prems" IH le unfold by (fastforce simp: Let_def split: if_splits)
qed

lemma read_request_shorter:
  assumes "read_request decode attrs s = Inr (a, rest)" and "s \<noteq> []"
  shows "length rest < length s"
proof -
  obtain line mid where rl: "readline s = Inr (line, mid)"
    using assms(1) by (subst (asm) read_request.simps) (auto split: sum.splits)
  then have line: "line \<noteq> []" using readline_Nil assms(2) by blast
  then have "length rest \<le> length mid"
    using assms(1) rl read_request_le [of decode _ mid]
    by (subst (asm) read_request.simps) (auto simp: Let_def split: if_splits)
  then show ?thesis using readline_shorter [OF rl line] by simp
qed

section \<open>A connection\<close>

text \<open>
  \<open>_handle_client\<close>: the replies written and the table afterwards. The environment says what
  the lookups of the n-th request observe and whether the n-th \<open>drain\<close> fails. A lost
  connection ends the loop in silence; any other exception is answered with a deferral, so
  that Postfix tries again, and the connection is closed.
\<close>

definition reply :: "string \<Rightarrow> string" where
  "reply verdict = ''action='' @ verdict @ [newline, newline]"

definition defer_verdict :: string where
  "defer_verdict = ''DEFER_IF_PERMIT Mail router policy error''"

record session_env =
  se_obs :: "nat \<Rightarrow> obs \<times> obs"
  se_drain :: "nat \<Rightarrow> exn option"
  se_decode :: "string \<Rightarrow> string"

definition on_error :: "exn \<Rightarrow> string list" where
  "on_error e = (if e = ConnectionResetError \<or> e = BrokenPipeError then [] else [reply defer_verdict])"

function handle_client :: "session_env \<Rightarrow> nat \<Rightarrow> lookup_table \<Rightarrow> string \<Rightarrow> string list \<times> lookup_table" where
  "handle_client env n t s = (if s = [] then ([], t)
     else case read_request (se_decode env) [] s of
       Inl e \<Rightarrow> (on_error e, t)
     | Inr (None, rest) \<Rightarrow> ([], t)
     | Inr (Some attrs, rest) \<Rightarrow> (case evaluate (fst (se_obs env n)) (snd (se_obs env n)) attrs t of
         (Inl e, t') \<Rightarrow> (on_error e, t')
       | (Inr verdict, t') \<Rightarrow> (case se_drain env n of
           Some e \<Rightarrow> (reply verdict # on_error e, t')
         | None \<Rightarrow> (let (out, t'') = handle_client env (Suc n) t' rest in (reply verdict # out, t'')))))"
  by pat_completeness auto
termination
  by (relation "measure (\<lambda>(env, n, t, s). length s)") (auto dest: read_request_shorter)

declare handle_client.simps [simp del]

section \<open>Verdicts over a settled table\<close>

text \<open>A table is settled when a lookup would not reload it; then a verdict is a pure function.\<close>

definition settled :: "obs \<Rightarrow> lookup_table \<Rightarrow> bool" where
  "settled ob t \<longleftrightarrow> refresh ob t = Ok t"

definition serves :: "lookup_table \<Rightarrow> string \<Rightarrow> bool" where
  "serves t recipient \<longleftrightarrow> (case parse_recipient recipient (lt_hosts t) of
     None \<Rightarrow> False | Some p \<Rightarrow> find_ds t (pa_ds_id p) \<noteq> None)"

definition recipient_of :: "attrs \<Rightarrow> string" where
  "recipient_of attrs = strip (case map_of attrs ''recipient'' of None \<Rightarrow> '''' | Some v \<Rightarrow> v)"

definition verdict :: "lookup_table \<Rightarrow> attrs \<Rightarrow> string" where
  "verdict t attrs = (if recipient_of attrs = '''' then reject_empty
     else if serves t (recipient_of attrs) then ''OK'' else reject_unknown)"

lemma evaluate_settled:
  "settled ob1 t \<Longrightarrow> settled ob2 t \<Longrightarrow> evaluate ob1 ob2 attrs t = (Ok (verdict t attrs), t)"
  by (auto simp: evaluate_def settled_def allowed_domains_def resolve_def verdict_def serves_def
      recipient_of_def Let_def split: option.splits)

text \<open>safety: a policy verdict. Whatever the lookups observe, the answer is one of three
  texts, and a recipient is accepted only if the table that was loaded for the request lists
  its domain and its data source.\<close>

theorem evaluate_accepts_known:
  assumes "evaluate ob1 ob2 attrs t = (Ok v, t')"
  shows "v \<in> {''OK'', reject_empty, reject_unknown} \<and>
    (v = ''OK'' \<longrightarrow> (\<exists>p t1. refresh ob1 t = Ok t1 \<and> parse_recipient (recipient_of attrs) (lt_hosts t1) = Some p \<and>
        refresh ob2 t1 = Ok t' \<and> find_ds t' (pa_ds_id p) \<noteq> None))"
  using assms
  by (auto simp: evaluate_def allowed_domains_def resolve_def recipient_of_def reject_empty_def reject_unknown_def
      Let_def split: if_splits option.splits sum.splits prod.splits)

definition known_table :: lookup_table where
  "known_table = \<lparr>lt_auto_reload = False, lt_mtime = Some 7, lt_hosts = {''h.cz''}, lt_data = [''firma'' \<mapsto> sample_cfg]\<rparr>"

lemma known_settled: "settled ob known_table"
  by (simp add: settled_def refresh_def known_table_def)

lemma known_serves: "serves known_table ''Firma+a@h.cz''" "\<not> serves known_table ''nikdo@h.cz''"
proof -
  have "parse_recipient ''Firma+a@h.cz'' {''h.cz''} = Some \<lparr>pa_ds_id = ''firma'', pa_mailbox = Some ''a'', pa_domain = ''h.cz''\<rparr>"
    "parse_recipient ''nikdo@h.cz'' {''h.cz''} = Some \<lparr>pa_ds_id = ''nikdo'', pa_mailbox = None, pa_domain = ''h.cz''\<rparr>"
    "py_lower ''firma'' = ''firma''" "py_lower ''nikdo'' = ''nikdo''"
    by code_simp+
  then show "serves known_table ''Firma+a@h.cz''" "\<not> serves known_table ''nikdo@h.cz''"
    by (simp_all add: serves_def find_ds_def known_table_def)
qed

theorem evaluate_accepts_known_witness:
  "\<exists>p. parse_recipient ''Firma+a@h.cz'' (lt_hosts known_table) = Some p \<and> find_ds known_table (pa_ds_id p) \<noteq> None"
proof -
  have "strip ''Firma+a@h.cz'' = ''Firma+a@h.cz''" by code_simp
  then have "evaluate (quiet None) (quiet None) [(''recipient'', ''Firma+a@h.cz'')] known_table = (Ok ''OK'', known_table)"
    and r: "recipient_of [(''recipient'', ''Firma+a@h.cz'')] = ''Firma+a@h.cz''"
    by (simp_all add: evaluate_settled known_settled verdict_def recipient_of_def known_serves)
  from evaluate_accepts_known [OF this(1)] show ?thesis
    using r known_settled by (auto simp: settled_def)
qed

section \<open>Requests on the wire\<close>

text \<open>How Postfix writes a request, and the requests that survive the trip.\<close>

definition render_line :: "string \<times> string \<Rightarrow> string" where
  "render_line kv = fst kv @ ''='' @ snd kv @ [newline]"

definition render :: "attrs \<Rightarrow> string" where
  "render a = concat (map render_line a) @ [newline]"

definition ascii :: "string \<Rightarrow> bool" where
  "ascii s \<longleftrightarrow> list_all (\<lambda>c. (of_char c :: nat) < 128) s"

definition clean_pair :: "string \<times> string \<Rightarrow> bool" where
  "clean_pair kv \<longleftrightarrow> CHR ''='' \<notin> set (fst kv) \<and> newline \<notin> set (fst kv) \<and> newline \<notin> set (snd kv) \<and>
     strip (fst kv) = fst kv \<and> strip (snd kv) = snd kv \<and>
     ascii (fst kv @ snd kv) \<and> length (fst kv @ ''='' @ snd kv) \<le> stream_limit"

definition clean :: "attrs \<Rightarrow> bool" where
  "clean a \<longleftrightarrow> list_all clean_pair a \<and> distinct (map fst a)"

lemma newline_not_eq [simp]: "newline \<noteq> CHR ''=''" "CHR ''='' \<noteq> newline"
  by (simp_all add: newline_def)

lemma readline_line: "newline \<notin> set b \<Longrightarrow> length b \<le> stream_limit \<Longrightarrow>
  readline (b @ newline # rest) = Ok (b @ [newline], rest)"
  using upto_first [of newline b rest] by (simp add: readline_def Let_def)

lemma strip_last: "strip v = v \<Longrightarrow> v \<noteq> [] \<Longrightarrow> \<not> is_space (last v)"
proof -
  assume s: "strip v = v" and n: "v \<noteq> []"
  have "rev v = dropWhile is_space (rev (dropWhile is_space v))"
    using s by (simp add: strip_def strip_by_def rstrip_by_def rev_swap)
  then have "\<not> is_space (hd (rev v))" using hd_dropWhile n by (metis rev_is_Nil_conv)
  then show ?thesis using n by (simp add: hd_rev)
qed

lemma rstrip_line:
  assumes "strip v = v"
  shows "rstrip_chars [CHR 0x0D, CHR 0x0A] (k @ ''='' @ v @ [newline]) = k @ ''='' @ v"
proof -
  have nl: "newline \<in> set [CHR 0x0D, CHR 0x0A]" by (simp add: newline_def)
  show ?thesis
  proof (cases v rule: rev_cases)
    case Nil
    then show ?thesis using nl by (simp add: rstrip_chars_def rstrip_by_def)
  next
    case (snoc u c)
    then have "\<not> is_space c" using strip_last [OF assms] by simp
    then have "c \<notin> set [CHR 0x0D, CHR 0x0A]" by (auto simp: is_space_def)
    then show ?thesis using nl snoc by (simp add: rstrip_chars_def rstrip_by_def)
  qed
qed

lemma read_rendered:
  assumes "list_all clean_pair a" and "distinct (map fst (acc @ a))" and "\<And>s. ascii s \<Longrightarrow> decode s = s"
  shows "read_request decode acc (render a @ rest) = Ok (Some (acc @ a), rest)"
  using assms(1,2)
proof (induction a arbitrary: acc)
  case Nil
  have "readline (newline # rest) = Ok ([newline], rest)" using readline_line [of "[]" rest] by simp
  moreover have "rstrip_chars [CHR 0x0D, CHR 0x0A] [newline] = []"
    by (simp add: rstrip_chars_def rstrip_by_def newline_def)
  moreover have "decode [newline] = [newline]" by (rule assms(3)) (simp add: ascii_def newline_def)
  ultimately show ?case by (simp add: render_def read_request.simps)
next
  case (Cons kv a)
  obtain k v where kv: "kv = (k, v)" by (cases kv)
  have c: "CHR ''='' \<notin> set k" "newline \<notin> set (k @ ''='' @ v)" "strip k = k" "strip v = v"
    "length (k @ ''='' @ v) \<le> stream_limit"
    using Cons.prems(1) kv by (auto simp: clean_pair_def)
  have "readline (render (kv # a) @ rest) = Ok (k @ ''='' @ v @ [newline], render a @ rest)"
    using readline_line [OF c(2,5), of "render a @ rest"] by (simp add: render_def render_line_def kv)
  moreover have "dict_set acc k v = acc @ [(k, v)]"
    using Cons.prems(2) kv by (intro dict_set_fresh) auto
  moreover have "read_request decode (acc @ [(k, v)]) (render a @ rest) = Ok (Some ((acc @ [(k, v)]) @ a), rest)"
    using Cons.prems kv by (intro Cons.IH) auto
  moreover have "decode (k @ ''='' @ v @ [newline]) = k @ ''='' @ v @ [newline]"
    using Cons.prems(1) kv by (intro assms(3)) (simp add: clean_pair_def ascii_def newline_def)
  ultimately show ?case
    using rstrip_line [OF c(4), of k] split_first_eq [OF c(1), of v] c(3,4)
    by (simp add: read_request.simps [of decode acc] kv)
qed

text \<open>C32 - roundtrip: a whole connection. Over a settled table the server answers every
  well-formed request exactly once, in order, with the verdict on its recipient, and then
  stops at the end of the stream, whatever attributes the requests carry besides.\<close>

theorem session_answers_in_order:
  assumes "list_all clean reqs" and "\<And>s. ascii s \<Longrightarrow> se_decode env s = s" and "\<And>n. se_drain env n = None"
    and "\<And>n. settled (fst (se_obs env n)) t \<and> settled (snd (se_obs env n)) t"
  shows "handle_client env n t (concat (map render reqs)) = (map (\<lambda>a. reply (verdict t a)) reqs, t)"
  using assms(1)
proof (induction reqs arbitrary: n)
  case Nil
  show ?case by (simp add: handle_client.simps)
next
  case (Cons a reqs)
  have "render a \<noteq> []" by (simp add: render_def)
  moreover have "read_request (se_decode env) [] (render a @ concat (map render reqs)) =
      Ok (Some a, concat (map render reqs))"
    using read_rendered [of a "[]" "se_decode env"] Cons.prems assms(2) by (simp add: clean_def)
  ultimately show ?case
    using Cons evaluate_settled [of "fst (se_obs env n)" t "snd (se_obs env n)" a] assms(3,4)
    by (simp add: handle_client.simps [of env n])
qed

definition calm_env :: session_env where
  "calm_env = \<lparr>se_obs = (\<lambda>_. (quiet None, quiet None)), se_drain = (\<lambda>_. None), se_decode = (\<lambda>s. map (\<lambda>c. if (of_char c :: nat) < 128 then c else CHR ''?'') s)\<rparr>"

theorem session_answers_in_order_witness:
  "handle_client calm_env 0 known_table
     (render [(''request'', ''x''), (''recipient'', ''Firma+a@h.cz'')] @ render [(''recipient'', ''nikdo@h.cz'')]) =
   ([reply ''OK'', reply reject_unknown], known_table)"
proof -
  have s: "strip ''Firma+a@h.cz'' = ''Firma+a@h.cz''" "strip ''nikdo@h.cz'' = ''nikdo@h.cz''"
    "strip ''request'' = ''request''" "strip ''recipient'' = ''recipient''" "strip ''x'' = ''x''"
    by code_simp+
  have "clean [(''request'', ''x''), (''recipient'', ''Firma+a@h.cz'')]" "clean [(''recipient'', ''nikdo@h.cz'')]"
    by (simp_all add: clean_def clean_pair_def s newline_def stream_limit_def ascii_def)
  moreover have ascii_id: "ascii s \<Longrightarrow> se_decode calm_env s = s" for s
    by (induction s) (auto simp: ascii_def calm_env_def)
  ultimately show ?thesis
    using session_answers_in_order [of "[[(''request'', ''x''), (''recipient'', ''Firma+a@h.cz'')], [(''recipient'', ''nikdo@h.cz'')]]"
        calm_env known_table 0]
    by (simp add: calm_env_def known_settled verdict_def recipient_of_def s known_serves)
qed

lemma evaluate_cases: "fst (evaluate ob1 ob2 attrs t) = Ok v \<Longrightarrow> v \<in> {''OK'', reject_empty, reject_unknown}"
  by (auto simp: evaluate_def Let_def split: if_splits option.splits sum.splits prod.splits)

text \<open>error: no connection gets anything but the four replies, whatever bytes arrive, and
  whatever the lookups and the socket do; the deferral, which stands for an internal error, can
  only be the last reply, so that no verdict follows an error.\<close>

theorem session_replies:
  "set (fst (handle_client env n t s)) \<subseteq> reply ` {''OK'', reject_empty, reject_unknown, defer_verdict} \<and>
   set (butlast (fst (handle_client env n t s))) \<subseteq> reply ` {''OK'', reject_empty, reject_unknown}"
proof (induction env n t s rule: handle_client.induct)
  case (1 env n t s)
  show ?case
  proof (cases "s = [] \<or> (\<forall>attrs rest. read_request (se_decode env) [] s \<noteq> Ok (Some attrs, rest))")
    case True
    then show ?thesis by (subst (1 2) handle_client.simps) (auto simp: on_error_def split: sum.splits option.splits)
  next
    case False
    then obtain attrs rest where s: "s \<noteq> []" and r: "read_request (se_decode env) [] s = Ok (Some attrs, rest)" by auto
    obtain res t' where ev: "evaluate (fst (se_obs env n)) (snd (se_obs env n)) attrs t = (res, t')" by fastforce
    note unf = handle_client.simps [of env n t s]
    show ?thesis
    proof (cases res)
      case (Inl e)
      then show ?thesis using s r ev unf by (auto simp: on_error_def)
    next
      case (Inr v)
      then have v: "v \<in> {''OK'', reject_empty, reject_unknown}" using evaluate_cases ev by (metis fst_conv)
      show ?thesis
      proof (cases "se_drain env n")
        case (Some e)
        then show ?thesis using s r ev Inr v unf by (auto simp: on_error_def)
      next
        case None
        have ih: "set (fst (handle_client env (Suc n) t' rest)) \<subseteq> reply ` {''OK'', reject_empty, reject_unknown, defer_verdict} \<and>
            set (butlast (fst (handle_client env (Suc n) t' rest))) \<subseteq> reply ` {''OK'', reject_empty, reject_unknown}"
          using "1.IH" [OF s r refl refl ev [symmetric] Inr None] by simp
        have "fst (handle_client env n t s) = reply v # fst (handle_client env (Suc n) t' rest)"
          using s r ev Inr None unf by (simp add: case_prod_unfold Let_def)
        then show ?thesis using ih v by auto
      qed
    qed
  qed
qed

end
