(* ===== verification/Queue_Db.thy ===== *)
theory Queue_Db
  imports Interfaces
begin

text \<open>
  \<open>mail_router/queue.py\<close>: the SQLite table as a list of rows with the text values it stores,
  one operation per method of \<open>Queue\<close> (each a single SQL transaction under the process lock
  and SQLite's write lock, hence one atomic step), the store invariant that every operation
  keeps, the effect of each operation on a row, and the proof that the text comparison of
  timestamps decides due time and age correctly.

  \<open>now\<close> is the reading of \<open>datetime.now(UTC)\<close>. \<open>fault\<close> is a database error of the
  environment (disk full, lock timeout): it surfaces as \<open>OperationalError\<close>. SQL leaves the
  order of rows with equal sort keys open; the parameter \<open>tie\<close> ranks them.
\<close>

section \<open>The table\<close>

record row =
  r_id :: int
  r_state :: qstate
  r_received_at :: string
  r_sender_email :: string
  r_recipient_email :: string
  r_ds_id :: string
  r_mailbox :: "string option"
  r_idempotency_key :: string
  r_raw_eml :: string
  r_attempt_count :: int
  r_next_attempt_at :: "string option"
  r_last_error :: "string option"
  r_delivered_at :: "string option"
  r_delivered_message_id :: "string option"
  r_dead_letter_reason :: "string option"

text \<open>
  \<open>sequence\<close> is the \<open>AUTOINCREMENT\<close> counter. SQLite also advances it when an insert is
  dropped by \<open>ON CONFLICT DO NOTHING\<close>.
\<close>

record db =
  db_rows :: "row list"
  sequence :: int

text \<open>Opening a database: the schema script creates the table if it does not exist.\<close>

definition Queue_init :: "db option \<Rightarrow> db" where
  "Queue_init existing = (case existing of None \<Rightarrow> \<lparr>db_rows = [], sequence = 0\<rparr> | Some d \<Rightarrow> d)"

section \<open>Timestamps\<close>

definition utcnow :: "datetime \<Rightarrow> datetime" where
  "utcnow now = drop_micros now"

definition iso_text :: "datetime \<Rightarrow> string" where
  "iso_text = isoformat (CHR '' '')"

definition parse_ts :: "string option \<Rightarrow> datetime option" where
  "parse_ts value = (case value of
     None \<Rightarrow> None
   | Some v \<Rightarrow> (case fromisoformat v of
       None \<Rightarrow> None
     | Some dt \<Rightarrow> Some (if dt_tz dt = None then replace_tz (Some 0) dt else dt)))"

definition row_to_item :: "datetime \<Rightarrow> row \<Rightarrow> queue_item" where
  "row_to_item now r = \<lparr>
     qi_id = r_id r,
     qi_state = r_state r,
     qi_received_at = (case parse_ts (Some (r_received_at r)) of Some t \<Rightarrow> t | None \<Rightarrow> utcnow now),
     qi_sender_email = r_sender_email r,
     qi_recipient_email = r_recipient_email r,
     qi_ds_id = r_ds_id r,
     qi_mailbox = r_mailbox r,
     qi_idempotency_key = r_idempotency_key r,
     qi_raw_eml = r_raw_eml r,
     qi_attempt_count = r_attempt_count r,
     qi_next_attempt_at = parse_ts (r_next_attempt_at r),
     qi_last_error = r_last_error r,
     qi_delivered_at = parse_ts (r_delivered_at r),
     qi_delivered_message_id = r_delivered_message_id r,
     qi_dead_letter_reason = r_dead_letter_reason r\<rparr>"

lemma row_to_item_id [simp]: "qi_id (row_to_item now r) = r_id r"
  by (simp add: row_to_item_def)

section \<open>SQL building blocks\<close>

definition sql_limit :: "int \<Rightarrow> 'a list \<Rightarrow> 'a list" where
  "sql_limit n xs = (if n < 0 then xs else take (nat n) xs)"

definition update_where :: "(row \<Rightarrow> bool) \<Rightarrow> (row \<Rightarrow> row) \<Rightarrow> db \<Rightarrow> db" where
  "update_where P f d = d\<lparr>db_rows := map (\<lambda>r. if P r then f r else r) (db_rows d)\<rparr>"

definition count_where :: "(row \<Rightarrow> bool) \<Rightarrow> db \<Rightarrow> int" where
  "count_where P d = int (length (filter P (db_rows d)))"

section \<open>Operations\<close>

record mail =
  m_sender_email :: string
  m_recipient_email :: string
  m_ds_id :: string
  m_mailbox :: "string option"
  m_idempotency_key :: string
  m_raw_eml :: string

definition new_row :: "datetime \<Rightarrow> int \<Rightarrow> mail \<Rightarrow> row" where
  "new_row now i m = \<lparr>r_id = i, r_state = Pending, r_received_at = iso_text (utcnow now),
     r_sender_email = m_sender_email m, r_recipient_email = m_recipient_email m,
     r_ds_id = m_ds_id m, r_mailbox = m_mailbox m, r_idempotency_key = m_idempotency_key m,
     r_raw_eml = m_raw_eml m, r_attempt_count = 0, r_next_attempt_at = None, r_last_error = None,
     r_delivered_at = None, r_delivered_message_id = None, r_dead_letter_reason = None\<rparr>"

definition find_key :: "string \<Rightarrow> db \<Rightarrow> row option" where
  "find_key k d = List.find (\<lambda>r. r_idempotency_key r = k) (db_rows d)"

definition enqueue :: "datetime \<Rightarrow> mail \<Rightarrow> db \<Rightarrow> (int \<times> bool) \<times> db" where
  "enqueue now m d =
     (let i = sequence d + 1; d' = d\<lparr>sequence := i\<rparr> in
      case find_key (m_idempotency_key m) d of
        None \<Rightarrow> ((i, True), d'\<lparr>db_rows := db_rows d @ [new_row now i m]\<rparr>)
      | Some r \<Rightarrow> ((r_id r, False), d'))"

definition due :: "string \<Rightarrow> row \<Rightarrow> bool" where
  "due now_text r \<longleftrightarrow> r_state r = Pending \<and>
     (case r_next_attempt_at r of None \<Rightarrow> True | Some t \<Rightarrow> t \<le> now_text)"

definition select_due :: "(row \<Rightarrow> int) \<Rightarrow> string \<Rightarrow> int \<Rightarrow> db \<Rightarrow> row list" where
  "select_due tie now_text limit d =
     sql_limit limit (sort_key (\<lambda>r. (r_received_at r, tie r)) (filter (due now_text) (db_rows d)))"

text \<open>
  \<open>dequeue_batch\<close> with its transaction written out: \<open>d\<close> is the committed database, the
  update runs on the transaction's copy, and an exception inside the \<open>try\<close> rolls back.
\<close>

datatype fault = No_Fault | At_Begin | At_Select | At_Update | At_Commit

definition dequeue_batch ::
    "(row \<Rightarrow> int) \<Rightarrow> datetime \<Rightarrow> int \<Rightarrow> fault \<Rightarrow> db \<Rightarrow> queue_item list result \<times> db" where
  "dequeue_batch tie now limit f d =
     (let err = Raise (OperationalError ''database error'');
          rollback = (err, d)
      in if f = At_Begin then (err, d)
         else if f = At_Select then rollback
         else
           let rows = select_due tie (iso_text (utcnow now)) limit d in
           if rows = [] then (if f = At_Commit then rollback else (Ok [], d))
           else
             let ids = map r_id rows in
             if f = At_Update then rollback
             else
               let d' = update_where (\<lambda>r. r_id r \<in> set ids) (\<lambda>r. r\<lparr>r_state := In_Flight\<rparr>) d in
               if f = At_Commit then rollback
               else (Ok (map (row_to_item now) rows), d'))"

definition mark_delivered :: "datetime \<Rightarrow> int \<Rightarrow> string option \<Rightarrow> db \<Rightarrow> db" where
  "mark_delivered now item_id message_id = update_where (\<lambda>r. r_id r = item_id)
     (\<lambda>r. r\<lparr>r_state := Delivered, r_delivered_at := Some (iso_text (utcnow now)),
            r_delivered_message_id := message_id, r_last_error := None\<rparr>)"

text \<open>\<open>mark_retry\<close> stores the time converted to UTC and without its offset.\<close>

definition mark_retry :: "int \<Rightarrow> int \<Rightarrow> datetime \<Rightarrow> string \<Rightarrow> db \<Rightarrow> db result" where
  "mark_retry item_id attempts next_attempt last_error d =
     bind_result (astimezone_utc next_attempt) (\<lambda>t.
       Ok (update_where (\<lambda>r. r_id r = item_id)
         (\<lambda>r. r\<lparr>r_state := Pending, r_attempt_count := attempts,
                r_next_attempt_at := Some (iso_text (replace_tz None t)),
                r_last_error := Some last_error\<rparr>) d))"

definition mark_dead_letter :: "int \<Rightarrow> string \<Rightarrow> db \<Rightarrow> db" where
  "mark_dead_letter item_id reason = update_where (\<lambda>r. r_id r = item_id)
     (\<lambda>r. r\<lparr>r_state := Dead_Letter, r_dead_letter_reason := Some reason, r_last_error := Some reason\<rparr>)"

definition requeue_in_flight :: "db \<Rightarrow> int \<times> db" where
  "requeue_in_flight d =
     (count_where (\<lambda>r. r_state r = In_Flight) d,
      update_where (\<lambda>r. r_state r = In_Flight) (\<lambda>r. r\<lparr>r_state := Pending, r_next_attempt_at := None\<rparr>) d)"

text \<open>\<open>stats\<close>: one entry per state that occurs, in the order of the grouping key.\<close>

definition stats :: "db \<Rightarrow> (qstate \<times> int) list" where
  "stats d = filter (\<lambda>(s, n). n \<noteq> 0)
     (map (\<lambda>s. (s, count_where (\<lambda>r. r_state r = s) d)) [Dead_Letter, Delivered, In_Flight, Pending])"

definition stats_get :: "(qstate \<times> int) list \<Rightarrow> qstate \<Rightarrow> int" where
  "stats_get st s = (case map_of st s of None \<Rightarrow> 0 | Some n \<Rightarrow> n)"

definition list_dead_letters :: "datetime \<Rightarrow> int \<Rightarrow> db \<Rightarrow> queue_item list" where
  "list_dead_letters now limit d = map (row_to_item now)
     (sql_limit limit (sort_key (\<lambda>r. - r_id r) (filter (\<lambda>r. r_state r = Dead_Letter) (db_rows d))))"

text \<open>\<open>delivered_at < ?\<close> is not true for \<open>NULL\<close>.\<close>

definition prunable :: "string \<Rightarrow> row \<Rightarrow> bool" where
  "prunable cutoff r \<longleftrightarrow> r_state r = Delivered \<and>
     (case r_delivered_at r of None \<Rightarrow> False | Some t \<Rightarrow> t < cutoff)"

definition prune_delivered :: "datetime \<Rightarrow> int \<Rightarrow> db \<Rightarrow> (int \<times> db) result" where
  "prune_delivered now days d =
     bind_result (dt_add (utcnow now) (- days * 86400000000)) (\<lambda>cutoff.
       let P = prunable (iso_text cutoff) in
       Ok (count_where P d, d\<lparr>db_rows := filter (\<lambda>r. \<not> P r) (db_rows d)\<rparr>))"

definition find_id :: "int \<Rightarrow> db \<Rightarrow> row option" where
  "find_id i d = List.find (\<lambda>r. r_id r = i) (db_rows d)"

definition get_item :: "datetime \<Rightarrow> int \<Rightarrow> db \<Rightarrow> queue_item option" where
  "get_item now i d = map_option (row_to_item now) (find_id i d)"

definition iter_all :: "datetime \<Rightarrow> db \<Rightarrow> queue_item list" where
  "iter_all now d = map (row_to_item now) (sort_key r_id (db_rows d))"

section \<open>The text of a timestamp\<close>

interpretation ts: text_codec "iso_text" fromisoformat in_range
  by unfold_locales (simp add: iso_text_def fromisoformat_isoformat)

definition clock_ok :: "datetime \<Rightarrow> bool" where
  "clock_ok now \<longleftrightarrow> dt_tz now = Some 0 \<and> dt_us now < max_us"

lemma clock_ok_utcnow: "clock_ok now \<Longrightarrow> clock_ok (utcnow now)"
  unfolding clock_ok_def utcnow_def drop_micros_def
  by simp (metis div_times_less_eq_dividend le_less_trans)

lemma clock_ok_in_range [simp]: "clock_ok t \<Longrightarrow> in_range t"
  by (simp add: clock_ok_def in_range_def)

text \<open>What a column holds: a time in UTC with its offset, or a UTC time without.\<close>

definition stored_aware :: "string \<Rightarrow> bool" where
  "stored_aware s = (case fromisoformat s of None \<Rightarrow> False
     | Some t \<Rightarrow> clock_ok t \<and> drop_micros t = t \<and> s = iso_text t)"

definition stored_naive :: "string \<Rightarrow> bool" where
  "stored_naive s = (case fromisoformat s of None \<Rightarrow> False
     | Some t \<Rightarrow> dt_tz t = None \<and> dt_us t < max_us \<and> s = iso_text t)"

lemma drop_micros_idem [simp]: "drop_micros (drop_micros t) = drop_micros t"
  by (simp add: drop_micros_def)

lemma stored_aware_now: "clock_ok now \<Longrightarrow> stored_aware (iso_text (utcnow now))"
  using clock_ok_utcnow [of now] ts.dec_enc [of "utcnow now"]
  by (simp add: stored_aware_def utcnow_def)

lemma stored_naive_iso: "clock_ok t \<Longrightarrow> stored_naive (iso_text (replace_tz None t))"
  using ts.dec_enc [of "replace_tz None t"]
  by (simp add: stored_naive_def in_range_def clock_ok_def replace_tz_def)

text \<open>The text comparisons of the queries are comparisons of instants.\<close>

lemma seconds_bound: "us < max_us \<Longrightarrow> us div 1000000 < 3652059 * 86400"
  by (simp add: max_us_def less_mult_imp_div_less)

lemma naive_le_aware:
  assumes "us < max_us" and "clock_ok now"
  shows "iso_text \<lparr>dt_us = us, dt_tz = None\<rparr> \<le> iso_text (utcnow now) \<longleftrightarrow> us \<le> dt_us (utcnow now)"
proof -
  define n where "n = dt_us now div 1000000"
  have now: "dt_us (utcnow now) = n * 1000000" "dt_tz (utcnow now) = Some 0"
    using assms(2) by (simp_all add: utcnow_def drop_micros_def n_def clock_ok_def)
  have b: "us div 1000000 < 3652059 * 86400" "n < 3652059 * 86400"
    using assms seconds_bound by (simp_all add: n_def clock_ok_def)
  have shape: "iso_text (utcnow now) = stamp (CHR '' '') n @ ''+00:00''"
    by (simp add: iso_text_def isoformat_def now frac_str_def)
  have naive: "iso_text \<lparr>dt_us = us, dt_tz = None\<rparr> =
      stamp (CHR '' '') (us div 1000000) @ frac_str (us mod 1000000) @ tz_str None"
    by (simp add: iso_text_def isoformat_def)
  have frac: "frac_str (us mod 1000000) @ tz_str None \<le> ''+00:00'' \<longleftrightarrow> us mod 1000000 = 0"
    by (simp add: frac_str_def tz_str_def less_char_def)
  have "iso_text \<lparr>dt_us = us, dt_tz = None\<rparr> \<le> iso_text (utcnow now) \<longleftrightarrow>
      us div 1000000 < n \<or> (us div 1000000 = n \<and> us mod 1000000 = 0)"
    unfolding shape naive by (simp only: lex_append_le length_stamp stamp_less_iff [OF b] stamp_eq_iff [OF b] frac)
  also have "\<dots> \<longleftrightarrow> us \<le> n * 1000000"
    using divmod_lex [of us "n * 1000000" 1000000] by (auto simp: le_less) 
  finally show ?thesis by (simp add: now)
qed

lemma aware_less_aware:
  assumes "clock_ok a" and "clock_ok b" and "drop_micros a = a" and "drop_micros b = b"
  shows "iso_text a < iso_text b \<longleftrightarrow> dt_us a < dt_us b"
proof -
  have s: "dt_us t = dt_us t div 1000000 * 1000000" if "drop_micros t = t" for t
    using arg_cong [OF that, of dt_us] by (simp add: drop_micros_def)
  have shape: "iso_text t = stamp (CHR '' '') (dt_us t div 1000000) @ ''+00:00''"
    if "drop_micros t = t" "clock_ok t" for t
  proof -
    have "dt_us t mod 1000000 = 0" using s [OF that(1)] by (metis mod_mult_self2_is_0)
    then show ?thesis using that(2) by (simp add: iso_text_def isoformat_def clock_ok_def frac_str_def)
  qed
  have b: "dt_us a div 1000000 < 3652059 * 86400" "dt_us b div 1000000 < 3652059 * 86400"
    using assms seconds_bound by (simp_all add: clock_ok_def)
  have "iso_text a < iso_text b \<longleftrightarrow> dt_us a div 1000000 < dt_us b div 1000000"
    by (simp add: shape assms lex_append_less stamp_less_iff [OF b])
  also have "\<dots> \<longleftrightarrow> dt_us a < dt_us b"
    by (subst (2) s [OF assms(3)], subst (2) s [OF assms(4)]) simp
  finally show ?thesis .
qed

section \<open>Rows by identifier\<close>

lemma find_id_update:
  assumes "\<And>r. r_id (f r) = r_id r"
  shows "find_id i (update_where P f d) = map_option (\<lambda>r. if P r then f r else r) (find_id i d)"
proof -
  have "List.find (\<lambda>r. r_id r = i) (map (\<lambda>r. if P r then f r else r) rs) =
      map_option (\<lambda>r. if P r then f r else r) (List.find (\<lambda>r. r_id r = i) rs)" for rs
    by (induction rs) (auto simp: assms)
  then show ?thesis by (simp add: find_id_def update_where_def)
qed

lemma find_id_Some: "find_id i d = Some r \<Longrightarrow> r \<in> set (db_rows d) \<and> r_id r = i"
  unfolding find_id_def by (rule find_Some_in)

lemma find_id_in: "distinct (map r_id (db_rows d)) \<Longrightarrow> r \<in> set (db_rows d) \<Longrightarrow> find_id (r_id r) d = Some r"
  unfolding find_id_def by (rule find_key_unique) simp_all

lemma find_id_None: "find_id i d = None \<longleftrightarrow> (\<forall>r \<in> set (db_rows d). r_id r \<noteq> i)"
  unfolding find_id_def by (rule find_None_all)

section \<open>The invariant\<close>

definition row_ok :: "row \<Rightarrow> bool" where
  "row_ok r \<longleftrightarrow> stored_aware (r_received_at r) \<and> 0 \<le> r_attempt_count r \<and>
     (case r_next_attempt_at r of None \<Rightarrow> True | Some t \<Rightarrow> stored_naive t) \<and>
     (case r_delivered_at r of None \<Rightarrow> r_state r \<noteq> Delivered | Some t \<Rightarrow> stored_aware t) \<and>
     (r_state r = Dead_Letter \<longrightarrow> r_dead_letter_reason r \<noteq> None)"

definition db_inv :: "db \<Rightarrow> bool" where
  "db_inv d \<longleftrightarrow> distinct (map r_id (db_rows d)) \<and> distinct (map r_idempotency_key (db_rows d)) \<and>
     (\<forall>r \<in> set (db_rows d). 1 \<le> r_id r \<and> r_id r \<le> sequence d \<and> row_ok r) \<and> 0 \<le> sequence d"

definition payload :: "row \<Rightarrow> mail" where
  "payload r = \<lparr>m_sender_email = r_sender_email r, m_recipient_email = r_recipient_email r,
     m_ds_id = r_ds_id r, m_mailbox = r_mailbox r, m_idempotency_key = r_idempotency_key r,
     m_raw_eml = r_raw_eml r\<rparr>"

lemma payload_new_row [simp]: "payload (new_row now i m) = m"
  by (cases m) (simp add: payload_def new_row_def)

lemma row_ok_new_row [simp]: "clock_ok now \<Longrightarrow> row_ok (new_row now i m)"
  by (simp add: row_ok_def new_row_def stored_aware_now)

lemma new_row_simps [simp]: "r_id (new_row now i m) = i" "r_state (new_row now i m) = Pending"
  "r_idempotency_key (new_row now i m) = m_idempotency_key m" "r_attempt_count (new_row now i m) = 0"
  "r_next_attempt_at (new_row now i m) = None"
  by (simp_all add: new_row_def)

lemma db_inv_init [inv_intros]: "db_inv (Queue_init None)"
  by (simp add: db_inv_def Queue_init_def)

lemma db_inv_enqueue [inv_intros]:
  assumes "db_inv d" and "clock_ok now"
  shows "db_inv (snd (enqueue now m d))"
proof (cases "find_key (m_idempotency_key m) d")
  case None
  then have "m_idempotency_key m \<notin> r_idempotency_key ` set (db_rows d)"
    by (auto simp: find_key_def find_None_all)
  moreover have "sequence d + 1 \<notin> r_id ` set (db_rows d)" using assms(1) by (force simp: db_inv_def)
  ultimately show ?thesis
    using assms None by (auto simp: enqueue_def Let_def db_inv_def)
next
  case (Some r)
  with assms show ?thesis by (auto simp: enqueue_def Let_def db_inv_def)
qed

lemma db_inv_update:
  assumes "db_inv d" and "\<And>r. r_id (f r) = r_id r" and "\<And>r. r_idempotency_key (f r) = r_idempotency_key r"
    and "\<And>r. r \<in> set (db_rows d) \<Longrightarrow> P r \<Longrightarrow> row_ok r \<Longrightarrow> row_ok (f r)"
  shows "db_inv (update_where P f d)"
proof -
  let ?g = "\<lambda>r. if P r then f r else r"
  have "r_id \<circ> ?g = r_id" "r_idempotency_key \<circ> ?g = r_idempotency_key"
    by (auto simp: fun_eq_iff assms(2,3))
  then show ?thesis
    using assms(1,4) by (auto simp: db_inv_def update_where_def assms(2))
qed

lemma db_inv_mark_delivered [inv_intros]:
  "db_inv d \<Longrightarrow> clock_ok now \<Longrightarrow> db_inv (mark_delivered now i mid d)"
  unfolding mark_delivered_def by (rule db_inv_update) (auto simp: row_ok_def stored_aware_now)

lemma db_inv_mark_dead_letter [inv_intros]: "db_inv d \<Longrightarrow> db_inv (mark_dead_letter i reason d)"
  unfolding mark_dead_letter_def
  by (rule db_inv_update) (auto simp: row_ok_def split: option.splits)

lemma db_inv_requeue [inv_intros]: "db_inv d \<Longrightarrow> db_inv (snd (requeue_in_flight d))"
  unfolding requeue_in_flight_def snd_conv
  by (rule db_inv_update) (auto simp: row_ok_def split: option.splits)

lemma astimezone_utc_clock: "clock_ok t \<Longrightarrow> astimezone_utc t = Ok t"
  by (cases t) (simp add: clock_ok_def astimezone_utc_def dt_add_def replace_tz_def max_us_def)

lemma mark_retry_clock:
  "clock_ok t \<Longrightarrow> mark_retry i n t e d = Ok (update_where (\<lambda>r. r_id r = i)
     (\<lambda>r. r\<lparr>r_state := Pending, r_attempt_count := n, r_next_attempt_at := Some (iso_text (replace_tz None t)),
            r_last_error := Some e\<rparr>) d)"
  by (simp add: mark_retry_def astimezone_utc_clock)

lemma db_inv_mark_retry [inv_intros]:
  assumes "db_inv d" and "clock_ok t" and "0 \<le> n" and "mark_retry i n t e d = Ok d'"
  shows "db_inv d'"
proof -
  have "d' = update_where (\<lambda>r. r_id r = i)
     (\<lambda>r. r\<lparr>r_state := Pending, r_attempt_count := n, r_next_attempt_at := Some (iso_text (replace_tz None t)),
            r_last_error := Some e\<rparr>) d"
    using assms(4) mark_retry_clock [OF assms(2)] by simp
  then show ?thesis
    using assms by (auto intro!: db_inv_update simp: row_ok_def stored_naive_iso split: option.splits)
qed

lemma db_inv_dequeue [inv_intros]:
  assumes "db_inv d"
  shows "db_inv (snd (dequeue_batch tie now limit f d))"
proof -
  have "db_inv (update_where P (\<lambda>r. r\<lparr>r_state := In_Flight\<rparr>) d)" for P
    by (rule db_inv_update [OF assms]) (auto simp: row_ok_def split: option.splits)
  with assms show ?thesis by (simp add: dequeue_batch_def Let_def)
qed

lemma db_inv_prune [inv_intros]: "db_inv d \<Longrightarrow> prune_delivered now days d = Ok (n, d') \<Longrightarrow> db_inv d'"
  by (auto simp: prune_delivered_def Let_def db_inv_def)

section \<open>Transactions as events\<close>

text \<open>
  The receiver, the worker and the admin tool are separate processes; SQLite serialises
  their transactions. Any interleaving is a list of these events.
\<close>

datatype qevent =
    Enqueue datetime mail
  | Dequeue "row \<Rightarrow> int" datetime int fault
  | Mark_Delivered datetime int "string option"
  | Mark_Retry int int datetime string
  | Mark_Dead_Letter int string
  | Requeue
  | Prune datetime int

definition or_same :: "db \<Rightarrow> db result \<Rightarrow> db" where
  "or_same d r = (case r of Inl _ \<Rightarrow> d | Inr d' \<Rightarrow> d')"

fun apply_event :: "db \<Rightarrow> qevent \<Rightarrow> db" where
  "apply_event d (Enqueue now m) = snd (enqueue now m d)"
| "apply_event d (Dequeue tie now limit f) = snd (dequeue_batch tie now limit f d)"
| "apply_event d (Mark_Delivered now i mid) = mark_delivered now i mid d"
| "apply_event d (Mark_Retry i n t e) = or_same d (mark_retry i n t e d)"
| "apply_event d (Mark_Dead_Letter i reason) = mark_dead_letter i reason d"
| "apply_event d Requeue = snd (requeue_in_flight d)"
| "apply_event d (Prune now days) = or_same d (map_sum id snd (prune_delivered now days d))"

fun event_ok :: "qevent \<Rightarrow> bool" where
  "event_ok (Enqueue now m) = clock_ok now"
| "event_ok (Mark_Delivered now i mid) = clock_ok now"
| "event_ok (Mark_Retry i n t e) = (clock_ok t \<and> 0 \<le> n)"
| "event_ok _ = True"

lemma or_same_simps [simp]: "or_same d (Inl e) = d" "or_same d (Inr d') = d'"
  by (simp_all add: or_same_def)

lemma or_same_map: "or_same d (map_sum id snd r) = (case r of Inl _ \<Rightarrow> d | Inr (n, d') \<Rightarrow> d')"
  by (cases r) (simp_all split: prod.split)

lemma db_inv_apply_event: "db_inv d \<Longrightarrow> event_ok e \<Longrightarrow> db_inv (apply_event d e)"
proof (cases e)
  case (Mark_Retry i n t err)
  assume "db_inv d" "event_ok e"
  then show ?thesis
    using Mark_Retry mark_retry_clock [of t i n err d] db_inv_mark_retry [of d t n i err] by simp
next
  case (Prune now days)
  assume "db_inv d"
  then show ?thesis
    using Prune db_inv_prune [of d now days] by (auto simp: or_same_map split: sum.split)
qed (auto intro: inv_intros)

text \<open>The effect of every event on the row of an identifier.\<close>

lemma find_id_enqueue:
  assumes "db_inv d"
  shows "find_id i (snd (enqueue now m d)) =
    (if find_key (m_idempotency_key m) d = None \<and> i = sequence d + 1
     then Some (new_row now i m) else find_id i d)"
proof (cases "find_key (m_idempotency_key m) d")
  case None
  have "List.find (\<lambda>r. r_id r = i) (rs @ [x]) =
      (case List.find (\<lambda>r. r_id r = i) rs of None \<Rightarrow> if r_id x = i then Some x else None | Some y \<Rightarrow> Some y)"
    for rs and x :: row
    by (induction rs) auto
  moreover have "find_id (sequence d + 1) d = None"
    using assms by (force simp: find_id_None db_inv_def)
  ultimately show ?thesis using None
    by (auto simp: enqueue_def Let_def find_id_def split: option.split)
next
  case (Some r)
  then show ?thesis by (simp add: enqueue_def Let_def find_id_def)
qed

definition set_state :: "qstate \<Rightarrow> row \<Rightarrow> row" where
  "set_state s r = r\<lparr>r_state := s\<rparr>"

lemma update_none: "update_where (\<lambda>r. False) f d = d"
  by (cases d) (simp add: update_where_def)

lemma dequeue_result:
  "(\<exists>e. dequeue_batch tie now limit f d = (Inl e, d)) \<or>
   dequeue_batch tie now limit f d =
     (Inr (map (row_to_item now) (select_due tie (iso_text (utcnow now)) limit d)),
      update_where (\<lambda>r. r_id r \<in> r_id ` set (select_due tie (iso_text (utcnow now)) limit d)) (set_state In_Flight) d)"
proof -
  have "(\<lambda>r. r\<lparr>r_state := In_Flight\<rparr>) = set_state In_Flight" by (simp add: set_state_def fun_eq_iff)
  then show ?thesis by (auto simp: dequeue_batch_def Let_def update_none)
qed

lemma find_id_dequeue:
  "find_id i (snd (dequeue_batch tie now limit f d)) =
     (case fst (dequeue_batch tie now limit f d) of
        Inl e \<Rightarrow> find_id i d
      | Inr items \<Rightarrow> map_option (\<lambda>r. if i \<in> qi_id ` set items then set_state In_Flight r else r) (find_id i d))"
proof -
  have id: "r_id (set_state s r) = r_id r" for s r by (simp add: set_state_def)
  have "r_id r = i" if "find_id i d = Some r" for r using find_id_Some [OF that] by simp
  then show ?thesis
    using dequeue_result [of tie now limit f d]
    by (cases "find_id i d") (auto simp: find_id_update id image_image)
qed

lemma find_id_prune:
  assumes "db_inv d" and "prune_delivered now days d = Ok (n, d')"
  shows "\<exists>P. find_id i d' = (case find_id i d of None \<Rightarrow> None | Some r \<Rightarrow> if P r then None else Some r) \<and>
     (\<forall>r. P r \<longrightarrow> r_state r = Delivered)"
proof -
  obtain cutoff where d': "d' = d\<lparr>db_rows := filter (\<lambda>r. \<not> prunable cutoff r) (db_rows d)\<rparr>"
    using assms(2) by (auto simp: prune_delivered_def Let_def)
  have "List.find (\<lambda>r. r_id r = i) (filter (\<lambda>r. \<not> P r) rs) =
      (case List.find (\<lambda>r. r_id r = i) rs of None \<Rightarrow> None | Some r \<Rightarrow> if P r then None else Some r)"
    if "distinct (map r_id rs)" for P and rs :: "row list"
    using that
  proof (induction rs)
    case (Cons x rs)
    moreover have "List.find (\<lambda>r. r_id r = i) rs = None" if "r_id x = i"
      using Cons.prems that by (auto simp: find_None_all image_iff)
    ultimately show ?case by auto
  qed simp
  moreover have "prunable cutoff r \<longrightarrow> r_state r = Delivered" for r by (simp add: prunable_def)
  ultimately show ?thesis
    using assms(1) d' by (intro exI [of _ "prunable cutoff"]) (simp add: find_id_def db_inv_def)
qed

lemma apply_event_row:
  assumes "db_inv d" and "find_id i d = Some r"
  shows "(\<exists>r'. find_id i (apply_event d e) = Some r' \<and> payload r' = payload r) \<or>
    (find_id i (apply_event d e) = None \<and> r_state r = Delivered)"
proof (cases e)
  case (Enqueue now m)
  have "i \<noteq> sequence d + 1" using find_id_Some [OF assms(2)] assms(1) by (auto simp: db_inv_def)
  then show ?thesis using Enqueue assms by (simp add: find_id_enqueue)
next
  case (Dequeue tie now limit f)
  then show ?thesis
    using assms(2) by (auto simp: find_id_dequeue payload_def set_state_def split: sum.split)
next
  case (Mark_Retry j n t err)
  then show ?thesis
    using assms(2) by (auto simp: mark_retry_def bind_result_def find_id_update payload_def split: sum.split)
next
  case (Prune now days)
  show ?thesis
  proof (cases "prune_delivered now days d")
    case (Inl err)
    with Prune assms show ?thesis by simp
  next
    case (Inr p)
    obtain n d' where p: "p = (n, d')" by force
    from find_id_prune [OF assms(1), of now days n d' i] Inr p Prune assms(2) show ?thesis
      by (auto simp: or_same_map split: if_splits)
  qed
qed (use assms(2) in \<open>auto simp: mark_delivered_def mark_dead_letter_def requeue_in_flight_def
      find_id_update payload_def\<close>)

interpretation store: mail_store db_inv find_id payload r_state event_ok apply_event
proof (unfold_locales, goal_cases)
  case (1 q e)
  then show ?case by (rule db_inv_apply_event)
next
  case (2 q i r e r')
  then show ?case using apply_event_row [of q i r e] by auto
next
  case (3 q i r e)
  then show ?case using apply_event_row [of q i r e] by auto
qed

section \<open>The selection of a batch\<close>

lemma set_sql_limit: "set (sql_limit n xs) \<subseteq> set xs"
  by (auto simp: sql_limit_def dest: in_set_takeD)

lemma select_due_sub: "r \<in> set (select_due tie t limit d) \<Longrightarrow> r \<in> set (db_rows d) \<and> due t r"
  using set_sql_limit by (fastforce simp: select_due_def)

lemma select_due_ids:
  assumes "db_inv d"
  shows "distinct (map r_id (select_due tie t limit d))"
proof -
  have "distinct (map r_id (sort_key k (filter P (db_rows d))))" for k :: "row \<Rightarrow> string \<times> int" and P
    using assms by (simp add: db_inv_def distinct_map inj_on_def)
  then show ?thesis by (auto simp: select_due_def sql_limit_def)
qed

lemma select_due_oldest:
  assumes "r \<in> set (select_due tie t limit d)" and "s \<in> set (db_rows d)" and "due t s"
    and "s \<notin> set (select_due tie t limit d)"
  shows "r_received_at r \<le> r_received_at s"
proof -
  let ?k = "\<lambda>r. (r_received_at r, tie r)"
  let ?xs = "sort_key ?k (filter (due t) (db_rows d))"
  have n: "0 \<le> limit" using assms by (auto simp: select_due_def sql_limit_def split: if_splits)
  have "sorted (map ?k (take (nat limit) ?xs @ drop (nat limit) ?xs))" by simp
  then have "sorted (map ?k (take (nat limit) ?xs) @ map ?k (drop (nat limit) ?xs))"
    by (simp only: map_append)
  moreover have "r \<in> set (take (nat limit) ?xs)" using assms(1) n by (simp add: select_due_def sql_limit_def)
  moreover have "s \<in> set (drop (nat limit) ?xs)"
  proof -
    have "set ?xs = set (take (nat limit) ?xs) \<union> set (drop (nat limit) ?xs)"
      by (metis append_take_drop_id set_append)
    moreover have "s \<in> set ?xs" using assms(2,3) by simp
    ultimately show ?thesis using assms(4) n by (auto simp: select_due_def sql_limit_def)
  qed
  ultimately have "?k r \<le> ?k s" by (force simp: sorted_append)
  then show ?thesis by auto
qed

lemma length_select_due:
  "0 \<le> limit \<Longrightarrow> int (length (select_due tie t limit d)) = min limit (count_where (due t) d)"
  by (auto simp: select_due_def sql_limit_def count_where_def min_def)

text \<open>A batch as large as the number of due rows has all of them.\<close>

lemma due_all_selected:
  assumes "int (length (select_due tie t limit d)) = count_where (due t) d" and "r \<in> set (db_rows d)" and "due t r"
  shows "r \<in> set (select_due tie t limit d)"
proof -
  let ?xs = "sort_key (\<lambda>r. (r_received_at r, tie r)) (filter (due t) (db_rows d))"
  have "select_due tie t limit d = ?xs"
    using assms(1) by (auto simp: select_due_def sql_limit_def count_where_def)
  then show ?thesis using assms(2,3) by simp
qed

lemma due_in_time:
  assumes "row_ok r" and "clock_ok now"
  shows "due (iso_text (utcnow now)) r \<longleftrightarrow> r_state r = Pending \<and>
    (case parse_ts (r_next_attempt_at r) of None \<Rightarrow> True | Some t \<Rightarrow> dt_us t \<le> dt_us (utcnow now))"
proof (cases "r_next_attempt_at r")
  case None
  then show ?thesis by (simp add: due_def parse_ts_def)
next
  case (Some s)
  with assms(1) obtain t where t: "fromisoformat s = Some t" "dt_tz t = None" "dt_us t < max_us" "s = iso_text t"
    by (auto simp: row_ok_def stored_naive_def split: option.splits)
  then have "s = iso_text \<lparr>dt_us = dt_us t, dt_tz = None\<rparr>" by (metis datetime.surjective old.unit.exhaust)
  with naive_le_aware [OF t(3) assms(2)] t Some show ?thesis
    by (simp add: due_def parse_ts_def replace_tz_def)
qed

text \<open>C26 - equivalence: SQLite compares the stored texts; on rows that the queue wrote, the
  comparison decides whether the scheduled instant (to the microsecond) has been reached by
  the current second.\<close>

theorem due_is_time_order:
  assumes "row_ok r" and "clock_ok now"
  shows "due (iso_text (utcnow now)) r \<longleftrightarrow> r_state r = Pending \<and>
    (case parse_ts (r_next_attempt_at r) of None \<Rightarrow> True | Some t \<Rightarrow> dt_us t \<le> dt_us (utcnow now))"
  by (rule due_in_time [OF assms])

lemma row_ok_retry_row:
  assumes "clock_ok t" and "clock_ok now"
  shows "row_ok ((new_row now i m)\<lparr>r_next_attempt_at := Some (iso_text (replace_tz None t))\<rparr>)"
  using row_ok_new_row [OF assms(2), of i m] stored_naive_iso [OF assms(1)]
  by (simp add: row_ok_def new_row_def)

definition sample_mail :: mail where
  "sample_mail = \<lparr>m_sender_email = ''a@x'', m_recipient_email = ''firma@d'', m_ds_id = ''firma'',
     m_mailbox = None, m_idempotency_key = ''k'', m_raw_eml = ''From: a''\<rparr>"

lemma sample_clocks [simp]: "us < 86400000000 \<Longrightarrow> clock_ok (utc us)"
  by (simp add: clock_ok_def utc_def max_us_def)

theorem due_is_time_order_witness:
  "let r = (new_row (utc 5) 1 sample_mail)\<lparr>r_next_attempt_at := Some (iso_text (replace_tz None (utc 60000001)))\<rparr>
   in \<not> due (iso_text (utcnow (utc 60999999))) r \<and> due (iso_text (utcnow (utc 61000000))) r"
proof -
  define r where "r = (new_row (utc 5) 1 sample_mail)\<lparr>r_next_attempt_at := Some (iso_text (replace_tz None (utc 60000001)))\<rparr>"
  have c: "clock_ok (utc 60999999)" "clock_ok (utc 61000000)" by simp_all
  have ok: "row_ok r" unfolding r_def by (rule row_ok_retry_row) simp_all
  have "parse_ts (r_next_attempt_at r) = Some (utc 60000001)"
    using ts.dec_enc [of "replace_tz None (utc 60000001)"]
    by (simp add: r_def parse_ts_def in_range_def replace_tz_def utc_def max_us_def)
  moreover have "r_state r = Pending" by (simp add: r_def new_row_def)
  moreover have "dt_us (utcnow (utc 60999999)) = 60000000" "dt_us (utcnow (utc 61000000)) = 61000000"
    "dt_us (utc 60000001) = 60000001"
    by (simp_all add: utcnow_def drop_micros_def utc_def)
  ultimately show ?thesis
    using due_is_time_order [OF ok c(1)] due_is_time_order [OF ok c(2)] by (simp add: r_def [symmetric])
qed


text \<open>C23 - functional: the batch is the oldest due mail. Its rows are distinct, due and at most
  \<open>limit\<close>; there are as many as \<open>limit\<close> allows, and no due row left behind was received
  before one that was taken.\<close>

theorem dequeue_batch_oldest_due:
  assumes "db_inv d" and "0 \<le> limit" and "dequeue_batch tie now limit f d = (Inr items, d')"
  shows "distinct (map qi_id items) \<and>
    int (length items) = min limit (count_where (due (iso_text (utcnow now))) d) \<and>
    (\<forall>x \<in> set items. qi_state x = Pending \<and>
       (\<exists>r. find_id (qi_id x) d = Some r \<and> due (iso_text (utcnow now)) r \<and> x = row_to_item now r \<and>
         (\<forall>s \<in> set (db_rows d). due (iso_text (utcnow now)) s \<and> r_id s \<notin> qi_id ` set items \<longrightarrow>
            r_received_at r \<le> r_received_at s)))"
proof -
  let ?t = "iso_text (utcnow now)"
  let ?rs = "select_due tie ?t limit d"
  have items: "items = map (row_to_item now) ?rs"
    using dequeue_result [of tie now limit f d] assms(3) by auto
  have "qi_id \<circ> row_to_item now = r_id" by (simp add: fun_eq_iff)
  then have "distinct (map qi_id items)" using select_due_ids [OF assms(1)] by (simp add: items)
  moreover have "int (length items) = min limit (count_where (due ?t) d)"
    using length_select_due [OF assms(2)] by (simp add: items)
  moreover have "qi_state (row_to_item now r) = Pending \<and> find_id (r_id r) d = Some r \<and> due ?t r \<and>
      (\<forall>s \<in> set (db_rows d). due ?t s \<and> r_id s \<notin> qi_id ` set items \<longrightarrow> r_received_at r \<le> r_received_at s)"
    if r: "r \<in> set ?rs" for r
  proof -
    have in_d: "r \<in> set (db_rows d)" "due ?t r" using select_due_sub [OF r] by blast+
    have "find_id (r_id r) d = Some r" using find_id_in in_d(1) assms(1) by (simp add: db_inv_def)
    moreover have "r_received_at r \<le> r_received_at s"
      if "s \<in> set (db_rows d)" "due ?t s" "r_id s \<notin> qi_id ` set items" for s
      using select_due_oldest [OF r that(1,2)] that(3) by (force simp: items image_image)
    ultimately show ?thesis using in_d(2) by (auto simp: row_to_item_def due_def)
  qed
  ultimately show ?thesis by (auto simp: items)
qed

text \<open>A one-mail database, for the instances below.\<close>

definition sample_db :: db where
  "sample_db = snd (enqueue (utc 5) sample_mail (Queue_init None))"

lemma sample_db_eq: "sample_db = \<lparr>db_rows = [new_row (utc 5) 1 sample_mail], sequence = 1\<rparr>"
  by (simp add: sample_db_def enqueue_def Let_def Queue_init_def find_key_def)

lemma sample_db_inv [simp]: "db_inv sample_db"
  unfolding sample_db_def by (intro inv_intros) simp

lemma sample_dequeue:
  "dequeue_batch r_id (utc 7) 10 No_Fault sample_db =
     (Inr [row_to_item (utc 7) (new_row (utc 5) 1 sample_mail)],
      \<lparr>db_rows = [set_state In_Flight (new_row (utc 5) 1 sample_mail)], sequence = 1\<rparr>)"
  by (simp add: dequeue_batch_def Let_def select_due_def sql_limit_def sample_db_eq due_def
      update_where_def set_state_def)

theorem dequeue_batch_oldest_due_witness:
  "fst (dequeue_batch r_id (utc 7) 10 No_Fault sample_db) =
     Inr [row_to_item (utc 7) (new_row (utc 5) 1 sample_mail)] \<and>
   qi_state (row_to_item (utc 7) (new_row (utc 5) 1 sample_mail)) = Pending"
  using dequeue_batch_oldest_due [OF sample_db_inv _ sample_dequeue] by (simp add: sample_dequeue)

section \<open>Enqueueing\<close>

lemma find_key_Some: "find_key k d = Some r \<Longrightarrow> r \<in> set (db_rows d) \<and> r_idempotency_key r = k"
  unfolding find_key_def by (rule find_Some_in)

lemma find_key_in:
  "db_inv d \<Longrightarrow> r \<in> set (db_rows d) \<Longrightarrow> find_key (r_idempotency_key r) d = Some r"
  unfolding find_key_def db_inv_def by (rule find_key_unique) simp_all

text \<open>functional: \<open>enqueue\<close> deduplicates by idempotency key. An unknown key creates a row
  with a fresh identifier and reports \<open>created\<close>; a known key reports the identifier of the
  row that has it and changes no row.\<close>

theorem enqueue_deduplicates:
  assumes "db_inv d" and "enqueue now m d = ((i, created), d')"
  shows "(created \<longleftrightarrow> find_key (m_idempotency_key m) d = None) \<and>
    (created \<longrightarrow> find_id i d = None \<and> find_id i d' = Some (new_row now i m)) \<and>
    (\<not> created \<longrightarrow> db_rows d' = db_rows d \<and>
       (\<exists>r. find_id i d = Some r \<and> r_idempotency_key r = m_idempotency_key m)) \<and>
    (\<forall>j. j \<noteq> i \<longrightarrow> find_id j d' = find_id j d)"
proof (cases "find_key (m_idempotency_key m) d")
  case None
  then have e: "i = sequence d + 1" "created" "d' = snd (enqueue now m d)"
    using assms(2) by (auto simp: enqueue_def Let_def)
  have "find_id (sequence d + 1) d = None" using assms(1) by (force simp: find_id_None db_inv_def)
  with e None show ?thesis by (simp add: find_id_enqueue [OF assms(1)])
next
  case (Some r)
  then have e: "i = r_id r" "\<not> created" "d' = d\<lparr>sequence := sequence d + 1\<rparr>"
    using assms(2) by (auto simp: enqueue_def Let_def)
  have "find_id i d = Some r"
    using find_id_in [of d r] find_key_Some [OF Some] assms(1) by (simp add: e db_inv_def)
  with e Some find_key_Some [OF Some] show ?thesis by (simp add: find_id_def)
qed

theorem enqueue_deduplicates_witness:
  "fst (enqueue (utc 9) sample_mail sample_db) = (1, False) \<and>
   db_rows (snd (enqueue (utc 9) sample_mail sample_db)) = db_rows sample_db"
proof -
  have e: "enqueue (utc 9) sample_mail sample_db = ((1, False), sample_db\<lparr>sequence := 2\<rparr>)"
    by (simp add: enqueue_def Let_def sample_db_eq find_key_def)
  show ?thesis using enqueue_deduplicates [OF sample_db_inv e] by (simp add: e)
qed

section \<open>What the queue promises, by key\<close>

text \<open>
  The abstract store: per idempotency key, the mail, its state and the failed attempts. A
  client that only knows keys sees the operations as updates of this map.
\<close>

definition key_view :: "db \<Rightarrow> string \<Rightarrow> (mail \<times> qstate \<times> int) option" where
  "key_view d k = map_option (\<lambda>r. (payload r, r_state r, r_attempt_count r)) (find_key k d)"

lemma find_key_update:
  assumes "\<And>r. r_idempotency_key (f r) = r_idempotency_key r"
  shows "find_key k (update_where P f d) = map_option (\<lambda>r. if P r then f r else r) (find_key k d)"
proof -
  have "List.find (\<lambda>r. r_idempotency_key r = k) (map (\<lambda>r. if P r then f r else r) rs) =
      map_option (\<lambda>r. if P r then f r else r) (List.find (\<lambda>r. r_idempotency_key r = k) rs)" for rs
    by (induction rs) (auto simp: assms)
  then show ?thesis by (simp add: find_key_def update_where_def)
qed

lemma key_view_update_id:
  assumes "db_inv d" and "find_id i d = Some r" and "\<And>r. payload (f r) = payload r"
  shows "key_view (update_where (\<lambda>r. r_id r = i) f d) =
    (key_view d)(r_idempotency_key r \<mapsto> (payload r, r_state (f r), r_attempt_count (f r)))"
proof
  fix k
  have key: "r_idempotency_key (f r) = r_idempotency_key r" for r
    using assms(3) [of r] by (simp add: payload_def)
  have r: "r \<in> set (db_rows d)" "r_id r = i" using find_id_Some [OF assms(2)] by blast+
  show "key_view (update_where (\<lambda>r. r_id r = i) f d) k =
    ((key_view d)(r_idempotency_key r \<mapsto> (payload r, r_state (f r), r_attempt_count (f r)))) k"
  proof (cases "find_key k d")
    case None
    then have "k \<noteq> r_idempotency_key r" using find_key_in [OF assms(1) r(1)] by auto
    with None show ?thesis by (simp add: key_view_def find_key_update [OF key])
  next
    case (Some s)
    have s: "s \<in> set (db_rows d)" "r_idempotency_key s = k" using find_key_Some [OF Some] by blast+
    have fs: "find_id (r_id s) d = Some s" using find_id_in [of d s] assms(1) s(1) by (simp add: db_inv_def)
    have fr: "find_key (r_idempotency_key r) d = Some r" by (rule find_key_in [OF assms(1) r(1)])
    have eq: "s = r" if "r_id s = i \<or> k = r_idempotency_key r"
      using that fs fr Some assms(2) by auto
    have "r_id s = i \<longleftrightarrow> k = r_idempotency_key r" using eq r(2) s(2) by blast
    moreover have "payload (f r) = payload r" by (rule assms(3))
    ultimately show ?thesis using Some eq
      by (cases "k = r_idempotency_key r") (simp_all add: key_view_def find_key_update [OF key])
  qed
qed

lemma key_view_enqueue:
  "key_view (snd (enqueue now m d)) = (if key_view d (m_idempotency_key m) \<noteq> None then key_view d
      else (key_view d)(m_idempotency_key m \<mapsto> (m, Pending, 0)))"
proof (cases "find_key (m_idempotency_key m) d")
  case None
  have k: "find_key k (snd (enqueue now m d)) =
      (case find_key k d of None \<Rightarrow> if m_idempotency_key m = k then Some (new_row now (sequence d + 1) m) else None
       | Some r \<Rightarrow> Some r)" for k
    using None by (cases "find_key k d") (auto simp: enqueue_def Let_def find_key_def find_append)
  show ?thesis
    using None by (auto simp: fun_eq_iff key_view_def k split: option.split)
next
  case (Some r)
  then have "find_key k (snd (enqueue now m d)) = find_key k d" for k
    by (simp add: enqueue_def Let_def find_key_def)
  with Some show ?thesis by (simp add: fun_eq_iff key_view_def)
qed

text \<open>C16 - refinement: seen by key, an insert adds a pending mail or does nothing, the three
  outcomes of a delivery attempt set the state (and only a retry the attempt count) of one
  key, and the crash recovery returns what was in flight to pending; no operation touches
  the mail itself.\<close>

theorem queue_refines_key_store:
  assumes "db_inv d" and "find_id i d = Some r" and "clock_ok t"
  shows "key_view (snd (enqueue now m d)) = (if key_view d (m_idempotency_key m) \<noteq> None then key_view d
      else (key_view d)(m_idempotency_key m \<mapsto> (m, Pending, 0))) \<and>
    key_view (mark_delivered now i mid d) =
      (key_view d)(r_idempotency_key r \<mapsto> (payload r, Delivered, r_attempt_count r)) \<and>
    key_view (mark_dead_letter i reason d) =
      (key_view d)(r_idempotency_key r \<mapsto> (payload r, Dead_Letter, r_attempt_count r)) \<and>
    (\<exists>d'. mark_retry i n t err d = Inr d' \<and>
      key_view d' = (key_view d)(r_idempotency_key r \<mapsto> (payload r, Pending, n))) \<and>
    key_view (snd (requeue_in_flight d)) k = map_option (\<lambda>(p, s, n).
      (p, if s = In_Flight then Pending else s, n)) (key_view d k)"
proof (intro conjI)
  show "key_view (snd (enqueue now m d)) = (if key_view d (m_idempotency_key m) \<noteq> None then key_view d
      else (key_view d)(m_idempotency_key m \<mapsto> (m, Pending, 0)))"
    by (rule key_view_enqueue)
  show "key_view (mark_delivered now i mid d) =
      (key_view d)(r_idempotency_key r \<mapsto> (payload r, Delivered, r_attempt_count r))"
    unfolding mark_delivered_def by (subst key_view_update_id [OF assms(1,2)]) (simp_all add: payload_def)
  show "key_view (mark_dead_letter i reason d) =
      (key_view d)(r_idempotency_key r \<mapsto> (payload r, Dead_Letter, r_attempt_count r))"
    unfolding mark_dead_letter_def by (subst key_view_update_id [OF assms(1,2)]) (simp_all add: payload_def)
  show "\<exists>d'. mark_retry i n t err d = Inr d' \<and>
      key_view d' = (key_view d)(r_idempotency_key r \<mapsto> (payload r, Pending, n))"
    unfolding mark_retry_clock [OF assms(3)]
    by (simp, subst key_view_update_id [OF assms(1,2)]) (simp_all add: payload_def)
  show "key_view (snd (requeue_in_flight d)) k = map_option (\<lambda>(p, s, n).
      (p, if s = In_Flight then Pending else s, n)) (key_view d k)"
    unfolding requeue_in_flight_def snd_conv key_view_def
    by (subst find_key_update, simp) (cases "find_key k d", simp_all add: payload_def)
qed

theorem queue_refines_key_store_witness:
  "key_view (mark_dead_letter 1 ''bad'' sample_db) ''k'' = Some (sample_mail, Dead_Letter, 0) \<and>
   key_view sample_db ''k'' = Some (sample_mail, Pending, 0)"
proof -
  have f: "find_id 1 sample_db = Some (new_row (utc 5) 1 sample_mail)"
    by (simp add: find_id_def sample_db_eq)
  have c: "clock_ok (utc 7)" by simp
  have k: "m_idempotency_key sample_mail = ''k''" by (simp add: sample_mail_def)
  show ?thesis
    using queue_refines_key_store [OF sample_db_inv f c, of "utc 7" sample_mail None "''bad''" 1 "''e''" "''k''"]
    by (simp add: k) (simp add: key_view_def find_key_def sample_db_eq k)
qed

section \<open>No mail is lost\<close>

text \<open>Of all transactions only a prune removes a row.\<close>

lemma removed_by_prune:
  assumes "find_id i d = Some r" and "find_id i (apply_event d e) = None"
  shows "\<exists>now days. e = Prune now days"
proof (cases e)
  case (Enqueue now m)
  then show ?thesis
    using assms by (auto simp: enqueue_def Let_def find_id_def find_append split: option.splits)
next
  case (Dequeue tie now limit f)
  then show ?thesis using assms find_id_dequeue [of i tie now limit f d] by (simp split: sum.splits)
next
  case (Mark_Retry j n t err)
  then show ?thesis using assms by (auto simp: mark_retry_def bind_result_def find_id_update split: sum.splits)
qed (use assms in \<open>auto simp: mark_delivered_def mark_dead_letter_def requeue_in_flight_def find_id_update\<close>)

text \<open>C1 - safety: whatever the receiver, the worker and the admin tool interleave, a mail
  that is in the queue leaves it only through a prune, at a time when it is delivered, and until then
  its sender, recipient, mailbox, key and raw message are what was enqueued.\<close>

theorem mail_leaves_only_delivered:
  assumes "db_inv d" and "list_all event_ok es" and "find_id i d = Some r"
    and "find_id i (foldl apply_event d es) = None"
  shows "\<exists>es1 now days es2 r1. es = es1 @ Prune now days # es2 \<and> find_id i (foldl apply_event d es1) = Some r1 \<and>
    r_state r1 = Delivered \<and> payload r1 = payload r \<and>
    find_id i (apply_event (foldl apply_event d es1) (Prune now days)) = None"
  using store.lost_only_delivered [OF assms] removed_by_prune by blast

theorem mail_leaves_only_delivered_witness:
  "\<exists>es1 now days es2 r1. [Mark_Delivered (utc 7) 1 None, Prune (utc 3000000) 0] = es1 @ Prune now days # es2 \<and>
    find_id 1 (foldl apply_event sample_db es1) = Some r1 \<and> r_state r1 = Delivered \<and>
    payload r1 = sample_mail \<and> find_id 1 (apply_event (foldl apply_event sample_db es1) (Prune now days)) = None"
proof -
  let ?es = "[Mark_Delivered (utc 7) 1 None, Prune (utc 3000000) 0]"
  have f: "find_id 1 sample_db = Some (new_row (utc 5) 1 sample_mail)"
    by (simp add: find_id_def sample_db_eq)
  have "iso_text (utcnow (utc 7)) < iso_text (utcnow (utc 3000000))"
    by (subst aware_less_aware) (simp_all add: clock_ok_utcnow, simp_all add: utcnow_def drop_micros_def utc_def)
  then have g: "find_id 1 (foldl apply_event sample_db ?es) = None"
    by (simp add: find_id_def sample_db_eq mark_delivered_def update_where_def prune_delivered_def
        dt_add_def utcnow_def drop_micros_def utc_def max_us_def Let_def prunable_def)
  show ?thesis using mail_leaves_only_delivered [OF sample_db_inv _ f g] by simp
qed

section \<open>One worker at a time owns a row\<close>

text \<open>An event that does not hand the row back: neither the recovery nor an outcome for it.\<close>

fun leaves_alone :: "int \<Rightarrow> qevent \<Rightarrow> bool" where
  "leaves_alone i (Mark_Delivered now j mid) = (j \<noteq> i)"
| "leaves_alone i (Mark_Retry j n t e) = (j \<noteq> i)"
| "leaves_alone i (Mark_Dead_Letter j reason) = (j \<noteq> i)"
| "leaves_alone i Requeue = False"
| "leaves_alone i _ = True"

definition in_flight :: "int \<Rightarrow> db \<Rightarrow> bool" where
  "in_flight i d \<longleftrightarrow> (\<exists>r. find_id i d = Some r \<and> r_state r = In_Flight)"

lemma in_flight_step:
  assumes "db_inv d" and "in_flight i d" and "leaves_alone i e"
  shows "in_flight i (apply_event d e)"
proof -
  obtain r where r: "find_id i d = Some r" "r_state r = In_Flight" using assms(2) by (auto simp: in_flight_def)
  have id: "r_id r = i" using find_id_Some [OF r(1)] by simp
  show ?thesis
  proof (cases e)
    case (Enqueue now m)
    have "i \<noteq> sequence d + 1" using find_id_Some [OF r(1)] assms(1) by (auto simp: db_inv_def)
    then show ?thesis using Enqueue r assms(1) by (simp add: in_flight_def find_id_enqueue)
  next
    case (Dequeue tie now limit f)
    then show ?thesis using r by (auto simp: in_flight_def find_id_dequeue set_state_def split: sum.split)
  next
    case (Mark_Retry j n t err)
    then show ?thesis
      using r id assms(3)
      by (auto simp: in_flight_def mark_retry_def bind_result_def find_id_update split: sum.split)
  next
    case (Prune now days)
    show ?thesis
    proof (cases "prune_delivered now days d")
      case (Inr p)
      obtain n d' where p: "p = (n, d')" by force
      from find_id_prune [OF assms(1), of now days n d' i] Inr p Prune r show ?thesis
        by (auto simp: in_flight_def or_same_map split: if_splits)
    qed (use Prune assms in simp)
  qed (use r id assms(3) in \<open>auto simp: in_flight_def mark_delivered_def mark_dead_letter_def find_id_update\<close>)
qed

lemma in_flight_run:
  "db_inv d \<Longrightarrow> in_flight i d \<Longrightarrow> list_all event_ok es \<Longrightarrow> list_all (leaves_alone i) es \<Longrightarrow>
     in_flight i (foldl apply_event d es)"
  by (induction es arbitrary: d) (auto intro: in_flight_step db_inv_apply_event)

lemma dequeue_takes:
  assumes "dequeue_batch tie now limit f d = (Inr items, d')" and "x \<in> set items" and "db_inv d"
  shows "in_flight (qi_id x) d'" and "\<not> in_flight (qi_id x) d"
proof -
  obtain r where r: "r \<in> set (select_due tie (iso_text (utcnow now)) limit d)" "x = row_to_item now r"
    using dequeue_result [of tie now limit f d] assms(1,2) by auto
  then have f: "find_id (qi_id x) d = Some r" "due (iso_text (utcnow now)) r"
    using select_due_sub [OF r(1)] find_id_in [of d r] assms(3) by (auto simp: db_inv_def)
  then show "\<not> in_flight (qi_id x) d" by (auto simp: in_flight_def due_def)
  show "in_flight (qi_id x) d'"
    using f assms(1,2) find_id_dequeue [of "qi_id x" tie now limit f d] by (simp add: in_flight_def set_state_def)
qed

text \<open>C6 - safety: no double fetch. A row that one batch took is in no later batch, whatever
  other transactions (of this or another worker) run in between, until an outcome is recorded
  for it or a starting worker requeues what is in flight.\<close>

theorem no_double_fetch:
  assumes "db_inv d" and "dequeue_batch tie now limit f d = (Inr items, d1)" and "x \<in> set items"
    and "list_all event_ok es" and "list_all (leaves_alone (qi_id x)) es"
    and "dequeue_batch tie' now' limit' f' (foldl apply_event d1 es) = (Inr items', d2)"
  shows "qi_id x \<notin> qi_id ` set items'"
proof -
  have d1: "db_inv d1" using db_inv_dequeue [OF assms(1), of tie now limit f] assms(2) by simp
  have "in_flight (qi_id x) (foldl apply_event d1 es)"
    by (rule in_flight_run [OF d1 dequeue_takes(1) [OF assms(2,3,1)] assms(4,5)])
  moreover have "db_inv (foldl apply_event d1 es)" by (rule store.inv_run [OF d1 assms(4)])
  ultimately show ?thesis using dequeue_takes(2) [OF assms(6)] by auto
qed

theorem no_double_fetch_witness:
  "1 \<notin> qi_id ` set ([] :: queue_item list) \<and>
   dequeue_batch r_id (utc 8) 10 No_Fault (foldl apply_event (snd (dequeue_batch r_id (utc 7) 10 No_Fault sample_db)) [])
     = (Inr [], snd (dequeue_batch r_id (utc 7) 10 No_Fault sample_db))"
proof -
  let ?d1 = "\<lparr>db_rows = [set_state In_Flight (new_row (utc 5) 1 sample_mail)], sequence = 1\<rparr>"
  have e: "dequeue_batch r_id (utc 8) 10 No_Fault (foldl apply_event ?d1 []) = (Inr [], ?d1)"
    by (simp add: dequeue_batch_def Let_def select_due_def sql_limit_def due_def set_state_def)
  have "qi_id (row_to_item (utc 7) (new_row (utc 5) 1 sample_mail)) \<notin> qi_id ` set ([] :: queue_item list)"
    by (rule no_double_fetch [OF sample_db_inv sample_dequeue _ _ _ e]) simp_all
  then show ?thesis using e by (simp add: sample_dequeue)
qed

end
