(* ===== verification/Mail_Parser.thy ===== *)
theory Mail_Parser
  imports Models Json
begin

text \<open>
  \<open>mail_router/parser.py\<close>: from a raw message to the \<open>ParsedEmail\<close> that is posted. The
  standard library's \<open>email\<close> package turns bytes into a tree of parts; that parser, and the
  readers of address lists and dates, are arguments of the definitions. What the code does
  with the tree (walking it, looking for a body, telling attachments) is written out here,
  with the \<open>EmailMessage\<close> methods it calls. The package parses a header when it is read and
  may raise on a malformed one, so every accessor of a part is a result.
\<close>

section \<open>Message parts\<close>

record mime =
  mi_headers :: "(string \<times> string result) list"
  mi_ctype :: string
  mi_disp :: "string option result"
  mi_is_att :: "bool result"
  mi_filename :: "string option result"
  mi_start :: "string option result"
  mi_payload :: "string result"
  mi_content :: "string result"

datatype part = Single mime string | Multi mime "part list"

fun info :: "part \<Rightarrow> mime" where
  "info (Single m s) = m"
| "info (Multi m ps) = m"

fun is_multipart :: "part \<Rightarrow> bool" where
  "is_multipart (Single m s) = False"
| "is_multipart (Multi m ps) = True"

text \<open>\<open>msg.get(name)\<close>: the first header of that name, whatever its case.\<close>

fun find_header :: "string \<Rightarrow> (string \<times> string result) list \<Rightarrow> string option result" where
  "find_header name [] = Ok None"
| "find_header name ((k, v) # hs) =
     (if py_lower k = py_lower name then bind_result v (\<lambda>x. Ok (Some x)) else find_header name hs)"

definition get_header :: "part \<Rightarrow> string \<Rightarrow> string option result" where
  "get_header p name = find_header name (mi_headers (info p))"

text \<open>\<open>msg.walk()\<close>: depth first, the message itself first.\<close>

fun walk :: "part \<Rightarrow> part list" where
  "walk (Single m s) = [Single m s]"
| "walk (Multi m ps) = Multi m ps # concat (map walk ps)"

lemma walk_Cons: "walk p = p # tl (walk p)"
  by (cases p) simp_all

lemma walk_self [simp]: "p \<in> set (walk p)"
  by (cases p) simp_all

section \<open>Finding the body\<close>

text \<open>
  \<open>msg.get_body\<close> with a preference for one subtype. The search is lazy: the first match has
  the best priority and ends it. \<open>multi\<close> is \<open>is_multipart()\<close> of the message that
  \<open>get_body\<close> was called on (the library asks the root, not the part). A \<open>multipart/related\<close>
  part is represented by its root: the part its \<open>start\<close> parameter names, or else
  \<open>get_payload()[0]\<close>, which is a character when the payload is text, and then the method call
  on it raises \<open>AttributeError\<close>.
\<close>

fun with_content_id :: "string \<Rightarrow> part list \<Rightarrow> part option result" where
  "with_content_id start [] = Ok None"
| "with_content_id start (p # ps) = bind_result (get_header p ''content-id'') (\<lambda>cid.
     if cid = Some start then Ok (Some p) else with_content_id start ps)"

fun related_root :: "part \<Rightarrow> part option result" where
  "related_root (Single m s) = bind_result (mi_start m) (\<lambda>_.
     if s = '''' then Ok None else Raise AttributeError)"
| "related_root (Multi m ps) = bind_result (mi_start m) (\<lambda>st.
     bind_result (case st of None \<Rightarrow> Ok None
         | Some start \<Rightarrow> if start = '''' then Ok None else with_content_id start ps) (\<lambda>cand.
       case cand of Some p \<Rightarrow> Ok (Some p) | None \<Rightarrow> Ok (case ps of [] \<Rightarrow> None | p # _ \<Rightarrow> Some p)))"

fun subparts :: "part \<Rightarrow> part list" where
  "subparts (Single m s) = []"
| "subparts (Multi m ps) = ps"

lemma with_content_id_in: "with_content_id start ps = Inr (Some p) \<Longrightarrow> p \<in> set ps"
  by (induction ps) (auto split: if_splits)

lemma related_root_in: "related_root q = Inr (Some p) \<Longrightarrow> p \<in> set (subparts q)"
  by (cases q) (auto split: if_splits option.splits list.splits dest: with_content_id_in)

lemma size_subparts: "p \<in> set (subparts q) \<Longrightarrow> size p < size q"
  by (cases q) (auto dest: size_list_estimation' [where f = size, OF _ order_refl])

function (sequential) find_body :: "bool \<Rightarrow> string \<Rightarrow> part \<Rightarrow> part option result"
  and first_body :: "bool \<Rightarrow> string \<Rightarrow> part list \<Rightarrow> part option result" where
  "find_body multi pref p = (case mi_is_att (info p) of
     Inl e \<Rightarrow> Inl e
   | Inr True \<Rightarrow> Ok None
   | Inr False \<Rightarrow>
     let main = before_first (CHR ''/'') (mi_ctype (info p)); sub = after_first (CHR ''/'') (mi_ctype (info p)) in
     if main = ''text'' then Ok (if sub = pref then Some p else None)
     else if main \<noteq> ''multipart'' \<or> \<not> multi then Ok None
     else if sub \<noteq> ''related'' then first_body multi pref (subparts p)
     else (case related_root p of
         Inl e \<Rightarrow> Inl e
       | Inr None \<Rightarrow> Ok None
       | Inr (Some q) \<Rightarrow> find_body multi pref q))"
| "first_body multi pref [] = Ok None"
| "first_body multi pref (p # ps) = (case find_body multi pref p of
     Inl e \<Rightarrow> Inl e
   | Inr (Some q) \<Rightarrow> Ok (Some q)
   | Inr None \<Rightarrow> first_body multi pref ps)"
  by pat_completeness auto

termination
proof (relation "measure (\<lambda>x. case x of Inl (_, _, p) \<Rightarrow> 2 * size p + 1 | Inr (_, _, ps) \<Rightarrow> 2 * size_list size ps)", goal_cases)
  case 1
  show ?case by simp
next
  case (2 multi pref p)
  then show ?case by (cases p) simp_all
next
  case (3 multi pref p)
  then show ?case using size_subparts [OF related_root_in] by simp
qed simp_all

definition get_body :: "string \<Rightarrow> part \<Rightarrow> part option result" where
  "get_body pref msg = find_body (is_multipart msg) pref msg"

definition text_of :: "part option \<Rightarrow> string option" where
  "text_of q = (case q of None \<Rightarrow> None
     | Some p \<Rightarrow> (case mi_content (info p) of Inl e \<Rightarrow> None | Inr s \<Rightarrow> Some s))"

definition extract_body :: "part \<Rightarrow> (string option \<times> string option) result" where
  "extract_body msg =
     bind_result (get_body ''plain'' msg) (\<lambda>plain_part.
     bind_result (get_body ''html'' msg) (\<lambda>html_part.
       Ok (text_of plain_part, text_of html_part)))"

lemma text_of_Some: "text_of q = Some s \<longleftrightarrow> (\<exists>p. q = Some p \<and> mi_content (info p) = Inr s)"
  by (auto simp: text_of_def split: option.splits sum.splits)

section \<open>Attachments\<close>

definition opt_str :: "string option \<Rightarrow> string" where
  "opt_str s = (case s of None \<Rightarrow> '''' | Some x \<Rightarrow> x)"

definition non_empty :: "string option \<Rightarrow> bool" where
  "non_empty s \<longleftrightarrow> opt_str s \<noteq> ''''"

definition extension :: "string \<Rightarrow> string" where
  "extension ctype = (if ctype = ''text/plain'' then ''.txt''
     else if ctype = ''text/html'' then ''.html''
     else if contains ctype ''/'' then ''.'' @ before_first (CHR '';'') (after_first (CHR ''/'') ctype)
     else '''')"

definition safe_filename :: "nat \<Rightarrow> part \<Rightarrow> string result" where
  "safe_filename idx p = bind_result (mi_filename (info p)) (\<lambda>name.
     Ok (if non_empty name then opt_str name
         else ''attachment-'' @ nat_str idx @ extension (mi_ctype (info p))))"

definition is_attachment :: "part \<Rightarrow> bool result" where
  "is_attachment p = (if is_multipart p then Ok False
     else bind_result (mi_disp (info p)) (\<lambda>disp.
       if py_lower (opt_str disp) = ''attachment'' then Ok True
       else if startswith (mi_ctype (info p)) ''text/'' then Ok False
       else bind_result (get_header p ''Content-ID'') (\<lambda>cid. Ok (\<not> non_empty cid))))"

text \<open>\<open>get_payload(decode=True) or b""\<close>, with an exception read as no bytes.\<close>

definition attachment_bytes :: "part \<Rightarrow> string" where
  "attachment_bytes p = (case mi_payload (info p) of Inl e \<Rightarrow> '''' | Inr s \<Rightarrow> s)"

fun collect :: "nat \<Rightarrow> part list \<Rightarrow> attachment list result" where
  "collect idx [] = Ok []"
| "collect idx (p # ps) = (if is_multipart p then collect idx ps
     else bind_result (is_attachment p) (\<lambda>b. if \<not> b then collect idx ps
       else bind_result (safe_filename (Suc idx) p) (\<lambda>name.
            bind_result (collect (Suc idx) ps) (\<lambda>rest.
              Ok (\<lparr>att_filename = name, att_content_type = mi_ctype (info p),
                   att_content = attachment_bytes p\<rparr> # rest)))))"

section \<open>The whole message\<close>

definition decode_header :: "string option \<Rightarrow> string" where
  "decode_header v = (case v of None \<Rightarrow> '''' | Some s \<Rightarrow> strip s)"

definition or_None :: "string \<Rightarrow> string option" where
  "or_None s = (if s = '''' then None else Some s)"

record email_lib =
  message_from_bytes :: "string \<Rightarrow> part result"
  getaddresses :: "string \<Rightarrow> (string \<times> string) list result"
  parsedate_to_datetime :: "string \<Rightarrow> datetime result"
  str_exn :: "exn \<Rightarrow> string"

definition extract_address :: "email_lib \<Rightarrow> string option \<Rightarrow> (string \<times> string option) result" where
  "extract_address el v = (if \<not> non_empty v then Ok ('''', None)
     else bind_result (getaddresses el (opt_str v)) (\<lambda>addrs. case addrs of
         [] \<Rightarrow> Ok ('''', None)
       | (name, addr) # _ \<Rightarrow> Ok (strip addr, or_None (strip name))))"

definition header_date :: "email_lib \<Rightarrow> string option \<Rightarrow> datetime option result" where
  "header_date el v = (if \<not> non_empty v then Ok None
     else case parsedate_to_datetime el (opt_str v) of
         Inr dt \<Rightarrow> Ok (Some dt)
       | Inl e \<Rightarrow> if e = TypeError \<or> e = ValueError then Ok None else Raise e)"

definition parse_eml :: "email_lib \<Rightarrow> string \<Rightarrow> parsed_email result" where
  "parse_eml el raw = (case message_from_bytes el raw of
     Inl e \<Rightarrow> Raise (ParseError (''cannot parse MIME: '' @ str_exn el e))
   | Inr msg \<Rightarrow>
       bind_result (get_header msg ''From'') (\<lambda>from_hdr.
       bind_result (extract_address el from_hdr) (\<lambda>(sender_email, sender_name).
       bind_result (get_header msg ''Subject'') (\<lambda>subject.
       bind_result (get_header msg ''Message-ID'') (\<lambda>message_id.
       bind_result (get_header msg ''In-Reply-To'') (\<lambda>in_reply_to.
       bind_result (get_header msg ''References'') (\<lambda>refs.
       bind_result (get_header msg ''Date'') (\<lambda>date_hdr.
       bind_result (header_date el date_hdr) (\<lambda>date_dt.
       bind_result (extract_body msg) (\<lambda>(plain, html).
       bind_result (collect 0 (tl (walk msg))) (\<lambda>atts.
         Ok \<lparr>pe_subject = decode_header subject, pe_sender_email = sender_email, pe_sender_name = sender_name,
             pe_message_id = or_None (decode_header message_id),
             pe_in_reply_to = or_None (decode_header in_reply_to),
             pe_references = or_None (decode_header refs), pe_date = date_dt,
             pe_body_plain = plain, pe_body_html = html, pe_attachments = atts\<rparr>)))))))))))"

section \<open>What a body is\<close>

text \<open>A found part is one of the message, is text of the asked subtype, and is no attachment.\<close>

lemma after_first_contains: "after_first c s \<noteq> [] \<Longrightarrow> s = before_first c s @ c # after_first c s"
  by (induction s) (auto simp: after_first_def before_first_def split: if_splits)

lemma walk_subparts: "q \<in> set (subparts p) \<Longrightarrow> set (walk q) \<subseteq> set (walk p)"
  by (cases p) auto

lemma find_body_sound:
  "find_body multi pref p = Inr (Some q) \<Longrightarrow> pref \<noteq> '''' \<Longrightarrow>
     q \<in> set (walk p) \<and> mi_ctype (info q) = ''text/'' @ pref \<and> mi_is_att (info q) = Inr False"
  "first_body multi pref ps = Inr (Some q) \<Longrightarrow> pref \<noteq> '''' \<Longrightarrow>
     (\<exists>p \<in> set ps. q \<in> set (walk p)) \<and> mi_ctype (info q) = ''text/'' @ pref \<and> mi_is_att (info q) = Inr False"
proof (induction multi pref p and multi pref ps rule: find_body_first_body.induct)
  case (1 multi pref p)
  have att: "mi_is_att (info p) = Inr False"
    using "1.prems"(1) by (simp only: find_body.simps) (auto split: sum.splits bool.splits)
  show ?case
  proof (cases "before_first (CHR ''/'') (mi_ctype (info p)) = ''text''")
    case True
    then have "q = p" "after_first (CHR ''/'') (mi_ctype (info p)) = pref"
      using "1.prems"(1) att by (auto split: if_splits)
    then show ?thesis
      using att True "1.prems"(2) after_first_contains [of "CHR ''/''" "mi_ctype (info p)"] by simp
  next
    case nt: False
    then have m: "before_first (CHR ''/'') (mi_ctype (info p)) = ''multipart'' \<and> multi"
      using "1.prems"(1) att by (auto split: if_splits)
    show ?thesis
    proof (cases "after_first (CHR ''/'') (mi_ctype (info p)) = ''related''")
      case False
      then have "first_body multi pref (subparts p) = Inr (Some q)" using "1.prems"(1) att nt m by simp
      then show ?thesis
        using "1.IH"(1) [OF att refl refl refl nt] m False "1.prems"(2) walk_subparts by fastforce
    next
      case True
      then obtain r where "related_root p = Inr (Some r)" "find_body multi pref r = Inr (Some q)"
        using "1.prems"(1) att nt m by (auto split: sum.splits option.splits)
      then show ?thesis
        using "1.IH"(2) [OF att refl refl refl nt] m True "1.prems"(2) walk_subparts [OF related_root_in]
        by fastforce
    qed
  qed
next
  case (3 multi pref p ps)
  then show ?case by (fastforce split: sum.splits option.splits)
qed simp_all

text \<open>
  On a tame tree (every accessor answers, no \<open>start\<close> parameter, no \<open>multipart/related\<close>
  label on text) the search is the first match among the text parts in document order, with
  attachments and attached messages pruned and a related part represented by its first part.
\<close>

abbreviation main_type :: "mime \<Rightarrow> string" where
  "main_type m \<equiv> before_first (CHR ''/'') (mi_ctype m)"

abbreviation sub_type :: "mime \<Rightarrow> string" where
  "sub_type m \<equiv> after_first (CHR ''/'') (mi_ctype m)"

fun body_parts :: "part \<Rightarrow> part list" where
  "body_parts (Single m s) = (if mi_is_att m = Ok False \<and> main_type m = ''text'' then [Single m s] else [])"
| "body_parts (Multi m ps) = (if mi_is_att m \<noteq> Ok False then []
     else if main_type m = ''text'' then [Multi m ps]
     else if main_type m \<noteq> ''multipart'' then []
     else if sub_type m = ''related'' then concat (take 1 (map body_parts ps))
     else concat (map body_parts ps))"

fun tame :: "part \<Rightarrow> bool" where
  "tame (Single m s) = (mi_is_att m \<in> {Ok True, Ok False} \<and> mi_start m = Ok None \<and>
     (main_type m = ''multipart'' \<and> sub_type m = ''related'' \<longrightarrow> s = ''''))"
| "tame (Multi m ps) = (mi_is_att m \<in> {Ok True, Ok False} \<and> mi_start m = Ok None \<and> list_all tame ps)"

lemmas find_body_at = find_body.simps [of _ _ "Single m s" for m s] find_body.simps [of _ _ "Multi m ps" for m ps]

declare find_body.simps [simp del]

lemma find_body_tame:
  "tame p \<Longrightarrow> multi \<Longrightarrow> find_body multi pref p = Ok (find (\<lambda>q. sub_type (info q) = pref) (body_parts p))"
  "list_all tame ps \<Longrightarrow> multi \<Longrightarrow>
    first_body multi pref ps = Ok (find (\<lambda>q. sub_type (info q) = pref) (concat (map body_parts ps)))"
proof (induction multi pref p and multi pref ps rule: find_body_first_body.induct)
  case (1 multi pref p)
  show ?case
  proof (cases "mi_is_att (info p) = Inr False")
    case False
    then show ?thesis using "1.prems" by (cases p) (auto simp: find_body_at)
  next
    case att: True
    show ?thesis
    proof (cases "main_type (info p) = ''multipart''")
      case False
      then show ?thesis using att by (cases p) (simp_all add: find_body_at)
    next
      case mp: True
      then have nt: "main_type (info p) \<noteq> ''text''" by simp
      note IH = "1.IH" [OF att refl refl refl nt]
      show ?thesis
      proof (cases "sub_type (info p) = ''related''")
        case False
        then have "first_body multi pref (subparts p) =
            Ok (find (\<lambda>q. sub_type (info q) = pref) (concat (map body_parts (subparts p))))"
          using IH(1) mp "1.prems" by (cases p) simp_all
        then show ?thesis using att mp False "1.prems" by (cases p) (simp_all add: find_body_at)
      next
        case rel: True
        show ?thesis
        proof (cases "related_root p = Ok None")
          case True
          then show ?thesis
            using att mp rel "1.prems" by (cases p) (auto simp: find_body_at split: list.splits)
        next
          case False
          then obtain m q qs where p: "p = Multi m (q # qs)"
            using "1.prems" mp rel by (cases p) (auto split: list.splits)
          then have r: "related_root p = Ok (Some q)" "tame q" and s: "mi_start m = Ok None"
            using "1.prems" by simp_all
          then show ?thesis
            using IH(2) [OF _ _ r(1) refl r(2)] mp rel att p "1.prems"(2) by (simp add: find_body_at)
        qed
      qed
    qed
  qed
next
  case (3 multi pref p ps)
  then show ?case by (simp add: find_append split: option.splits)
qed simp

lemma get_body_tame: "tame msg \<Longrightarrow> get_body pref msg = Ok (find (\<lambda>q. sub_type (info q) = pref) (body_parts msg))"
proof (cases msg)
  case (Single m s)
  assume "tame msg"
  then show ?thesis using Single by (auto simp: get_body_def find_body_at)
next
  case (Multi m ps)
  assume "tame msg"
  then show ?thesis using Multi find_body_tame(1) by (simp add: get_body_def)
qed

text \<open>equivalence: \<open>get_body\<close> on a tame message is the first match of the subtype among
  its text parts in document order, attachments left out.\<close>

theorem get_body_first_match:
  assumes "tame msg"
  shows "get_body pref msg = Ok (find (\<lambda>q. sub_type (info q) = pref) (body_parts msg))"
  by (rule get_body_tame [OF assms])

definition plain_mime :: "string \<Rightarrow> mime" where
  "plain_mime ctype = \<lparr>mi_headers = [], mi_ctype = ctype, mi_disp = Ok None, mi_is_att = Ok False,
     mi_filename = Ok None, mi_start = Ok None, mi_payload = Ok ''x'', mi_content = Ok ''x''\<rparr>"

definition two_bodies :: part where
  "two_bodies = Multi (plain_mime ''multipart/mixed'')
     [Single (plain_mime ''text/html'') ''h'', Single (plain_mime ''text/plain'') ''p'', Single (plain_mime ''image/png'') ''i'']"

theorem get_body_first_match_witness:
  "get_body ''plain'' two_bodies = Ok (Some (Single (plain_mime ''text/plain'') ''p''))"
proof -
  have "tame two_bodies" "find (\<lambda>q. sub_type (info q) = ''plain'') (body_parts two_bodies) =
      Some (Single (plain_mime ''text/plain'') ''p'')"
    by (simp_all add: two_bodies_def plain_mime_def before_first_def after_first_def)
  then show ?thesis using get_body_first_match [of two_bodies "''plain''"] by simp
qed

section \<open>What a parsed message is\<close>

lemma collect_spec:
  "collect idx ps = Ok atts \<Longrightarrow>
   list_all2 (\<lambda>(n, p) a. safe_filename n p = Ok (att_filename a) \<and> att_content_type a = mi_ctype (info p) \<and>
       att_content a = attachment_bytes p)
     (enumerate (Suc idx) (filter (\<lambda>p. is_attachment p = Ok True) ps)) atts"
proof (induction ps arbitrary: idx atts)
  case (Cons p ps)
  show ?case
  proof (cases "is_attachment p = Ok True")
    case True
    moreover have "\<not> is_multipart p" using True by (auto simp: is_attachment_def)
    ultimately show ?thesis using Cons by auto
  next
    case False
    then have "collect idx ps = Ok atts" using Cons.prems by (auto split: if_splits)
    then show ?thesis using Cons.IH False by simp
  qed
qed simp

text \<open>
  Which parts are attachments, as a rule on the part: a leaf whose disposition says
  attachment in any case of letters, or else one that is no text and has no Content-ID.
\<close>

definition attachment_part :: "part \<Rightarrow> bool" where
  "attachment_part p \<longleftrightarrow> (\<exists>m s d. p = Single m s \<and> mi_disp m = Ok d \<and>
     (map_option py_lower d = Some ''attachment'' \<or>
      \<not> (\<exists>sub. mi_ctype m = ''text/'' @ sub) \<and> get_header p ''Content-ID'' \<in> {Ok None, Ok (Some '''')}))"

lemma is_attachment_iff: "is_attachment p = Ok True \<longleftrightarrow> attachment_part p"
proof (cases p)
  case (Single m s)
  have low: "py_lower (opt_str d) = ''attachment'' \<longleftrightarrow> map_option py_lower d = Some ''attachment''" for d
    by (cases d) (simp_all add: opt_str_def py_lower_def)
  have cid: "\<not> non_empty c \<longleftrightarrow> c = None \<or> c = Some ''''" for c
    by (cases c) (simp_all add: non_empty_def opt_str_def)
  have tx: "startswith (mi_ctype m) ''text/'' \<longleftrightarrow> (\<exists>sub. mi_ctype m = ''text/'' @ sub)"
    using startswith_iff by blast
  show ?thesis
  proof (cases "mi_disp m")
    case (Inr d)
    then show ?thesis
      using Single by (cases "get_header p ''Content-ID''")
        (auto simp: is_attachment_def attachment_part_def low cid tx)
  qed (simp add: Single is_attachment_def attachment_part_def)
qed (simp add: is_attachment_def attachment_part_def)

lemma body_parts_text: "q \<in> set (body_parts p) \<Longrightarrow> main_type (info q) = ''text''"
  by (induction p rule: body_parts.induct) (auto simp: take_map split: if_splits dest: in_set_takeD)

text \<open>The first body of a kind, and its text if it can be decoded.\<close>

definition first_text :: "string \<Rightarrow> part \<Rightarrow> string option" where
  "first_text ctype msg = (case find (\<lambda>q. mi_ctype (info q) = ctype) (body_parts msg) of
     None \<Rightarrow> None
   | Some q \<Rightarrow> (case mi_content (info q) of Inl e \<Rightarrow> None | Inr s \<Rightarrow> Some s))"

lemma tame_body:
  assumes "tame msg" and "get_body pref msg = Ok q" and "pref \<noteq> ''''"
  shows "text_of q = first_text (''text/'' @ pref) msg"
proof -
  have "main_type m = ''text'' \<Longrightarrow> sub_type m = pref \<longleftrightarrow> mi_ctype m = ''text/'' @ pref" for m
    using after_first_contains [of "CHR ''/''" "mi_ctype m"] assms(3)
    by (auto simp: before_first_def after_first_def)
  then have "find (\<lambda>q. sub_type (info q) = pref) (body_parts msg) = find (\<lambda>q. mi_ctype (info q) = ''text/'' @ pref) (body_parts msg)"
    by (intro find_cong refl) (simp add: body_parts_text)
  then show ?thesis using get_body_tame [OF assms(1), of pref] assms(2) by (simp add: first_text_def text_of_def)
qed

text \<open>C30 - functional: the parts of a parsed message. The attachments are exactly the leaves below
  the root that say so in their disposition (in any case of letters), or that are no text and have no
  Content-ID, in document order and numbered from one. A plain (or HTML) body is the decoded text
  of a \<open>text/plain\<close> (\<open>text/html\<close>) part that is not marked as an attachment; and on a tree whose accessors
  answer and whose \<open>multipart/related\<close> parts name no start, it is that of the first such part in
  document order (in a \<open>multipart/related\<close> only the first child counts, and nothing below a part
  marked as an attachment), and there is none only if no such part exists or the first one does not decode.\<close>

theorem parse_eml_parts:
  assumes "parse_eml el raw = Ok pe" and "message_from_bytes el raw = Ok msg"
  shows "list_all2 (\<lambda>(n, p) a. safe_filename n p = Ok (att_filename a) \<and> att_content_type a = mi_ctype (info p) \<and>
        att_content a = attachment_bytes p)
      (enumerate 1 (filter attachment_part (tl (walk msg)))) (pe_attachments pe) \<and>
    (\<forall>s. pe_body_plain pe = Some s \<longrightarrow> (\<exists>q \<in> set (walk msg). mi_ctype (info q) = ''text/plain'' \<and>
        mi_is_att (info q) = Ok False \<and> mi_content (info q) = Ok s)) \<and>
    (\<forall>s. pe_body_html pe = Some s \<longrightarrow> (\<exists>q \<in> set (walk msg). mi_ctype (info q) = ''text/html'' \<and>
        mi_is_att (info q) = Ok False \<and> mi_content (info q) = Ok s)) \<and>
    (tame msg \<longrightarrow> pe_body_plain pe = first_text ''text/plain'' msg \<and> pe_body_html pe = first_text ''text/html'' msg)"
proof -
  from assms obtain atts pl ht where body: "extract_body msg = Ok (pl, ht)"
    and atts: "collect 0 (tl (walk msg)) = Ok atts"
    and pe: "pe_attachments pe = atts" "pe_body_plain pe = pl" "pe_body_html pe = ht"
    by (auto simp: parse_eml_def)
  from body obtain p h where g: "get_body ''plain'' msg = Ok p" "get_body ''html'' msg = Ok h"
    "pl = text_of p" "ht = text_of h"
    by (auto simp: extract_body_def)
  then have "\<forall>s. pl = Some s \<longrightarrow> (\<exists>q \<in> set (walk msg). mi_ctype (info q) = ''text/plain'' \<and>
        mi_is_att (info q) = Ok False \<and> mi_content (info q) = Ok s)"
    and "\<forall>s. ht = Some s \<longrightarrow> (\<exists>q \<in> set (walk msg). mi_ctype (info q) = ''text/html'' \<and>
        mi_is_att (info q) = Ok False \<and> mi_content (info q) = Ok s)"
    using find_body_sound(1) [of _ _ msg] by (fastforce simp: get_body_def text_of_Some)+
  moreover have "pl = first_text ''text/plain'' msg \<and> ht = first_text ''text/html'' msg" if "tame msg"
    using tame_body [OF that g(1)] tame_body [OF that g(2)] g(3,4) by simp
  ultimately show ?thesis using collect_spec [OF atts] by (simp add: pe is_attachment_iff)
qed

text \<open>error: a message whose parse fails with an exception that is no \<open>ParseError\<close>. A
  \<open>multipart/related\<close> part without a boundary is text to the package, and the search for a body
  calls a method on its first character: \<open>parse_eml\<close> raises \<open>AttributeError\<close>, which the
  callers' \<open>except ParseError\<close> does not catch.\<close>

theorem related_text_escapes:
  assumes "message_from_bytes el raw = Ok (Multi m (Single r s # ps))"
    and "mi_ctype m = ''multipart/mixed''" and "mi_is_att m = Ok False" and "\<forall>(k, v) \<in> set (mi_headers m). v \<in> range Inr"
    and "mi_ctype r = ''multipart/related''" and "mi_is_att r = Ok False" and "mi_start r = Ok None" and "s \<noteq> ''''"
    and "\<forall>h. getaddresses el h \<in> range Inr" and "\<forall>h. parsedate_to_datetime el h \<in> range Inr"
  shows "parse_eml el raw = Raise AttributeError"
proof -
  have find_hdr: "list_all (\<lambda>h. \<exists>x. snd h = Ok x) hs \<Longrightarrow> \<exists>x. find_header name hs = Ok x" for name hs
    by (induction name hs rule: find_header.induct) auto
  have "\<exists>x. get_header (Multi m qs) name = Ok x" for name qs
    unfolding get_header_def info.simps
    by (rule find_hdr) (use assms(4) in \<open>fastforce simp: list_all_iff\<close>)
  then have hdr: "get_header (Multi m qs) name \<noteq> Inl e" for name qs e
    by (metis sum.distinct(1))
  have addr: "extract_address el v \<noteq> Inl e" for v e
    using spec [OF assms(9), of "opt_str v"] by (auto simp: extract_address_def split: list.splits)
  have date: "header_date el v \<noteq> Inl e" for v e
    using spec [OF assms(10), of "opt_str v"] by (auto simp: header_date_def)
  have "get_body ''plain'' (Multi m (Single r s # ps)) = Raise AttributeError"
    using assms(2,3,5-8) by (simp add: get_body_def find_body_at before_first_def after_first_def)
  then have "extract_body (Multi m (Single r s # ps)) = Raise AttributeError"
    by (simp add: extract_body_def)
  then show ?thesis
    using assms(1) hdr addr date by (auto simp: parse_eml_def bind_result_def split: sum.splits prod.splits)
qed

text \<open>A library that reads every message as the given part, and knows no address and no date.\<close>

definition toy_lib :: "part result \<Rightarrow> email_lib" where
  "toy_lib r = \<lparr>message_from_bytes = (\<lambda>_. r), getaddresses = (\<lambda>_. Ok []),
     parsedate_to_datetime = (\<lambda>_. Ok (utc 0)), str_exn = (\<lambda>_. ''bad'')\<rparr>"

definition related_text :: part where
  "related_text = Multi (plain_mime ''multipart/mixed'') [Single (plain_mime ''multipart/related'') ''hello'']"

theorem parse_eml_parts_witness:
  "\<exists>pe. parse_eml (toy_lib (Ok two_bodies)) ''raw'' = Ok pe \<and> pe_body_plain pe = Some ''x'' \<and> length (pe_attachments pe) = 1 \<and>
     att_filename (pe_attachments pe ! 0) = ''attachment-1.png''"
proof -
  obtain pe where pe: "parse_eml (toy_lib (Ok two_bodies)) ''raw'' = Ok pe"
    by (simp add: parse_eml_def toy_lib_def two_bodies_def plain_mime_def get_header_def extract_address_def
        non_empty_def opt_str_def header_date_def extract_body_def get_body_def find_body_at before_first_def
        after_first_def is_attachment_def safe_filename_def startswith_def)
  have sel: "filter attachment_part (tl (walk two_bodies)) = [Single (plain_mime ''image/png'') ''i'']"
    by (simp add: two_bodies_def plain_mime_def is_attachment_def opt_str_def startswith_def get_header_def non_empty_def
        flip: is_attachment_iff)
  have ext: "extension ''image/png'' = ''.png''" "nat_str 1 = ''1''" by code_simp+
  have name: "safe_filename 1 (Single (plain_mime ''image/png'') ''i'') = Ok ''attachment-1.png''"
    using ext by (simp add: safe_filename_def plain_mime_def non_empty_def opt_str_def)
  have "list_all2 (\<lambda>(n, p) a. safe_filename n p = Ok (att_filename a) \<and> att_content_type a = mi_ctype (info p) \<and>
        att_content a = attachment_bytes p) [(1, Single (plain_mime ''image/png'') ''i'')] (pe_attachments pe)"
    using parse_eml_parts [OF pe, of two_bodies] sel by (simp add: toy_lib_def)
  moreover have "tame two_bodies" "first_text ''text/plain'' two_bodies = Some ''x''"
    by (simp_all add: two_bodies_def plain_mime_def first_text_def before_first_def after_first_def)
  then have "pe_body_plain pe = Some ''x''"
    using parse_eml_parts [OF pe, of two_bodies] by (simp add: toy_lib_def)
  ultimately show ?thesis using pe name by (auto simp: list_all2_Cons1)
qed

theorem related_text_escapes_witness:
  "parse_eml (toy_lib (Ok related_text)) ''raw'' = Raise AttributeError"
  using related_text_escapes [of "toy_lib (Ok related_text)" "''raw''" "plain_mime ''multipart/mixed''"
      "plain_mime ''multipart/related''" "''hello''" "[]"]
  by (simp add: toy_lib_def related_text_def plain_mime_def)

end
