(* ===== verification/Sha256.thy ===== *)
theory Sha256
  imports Json "HOL-Library.Word"
begin

unbundle bit_operations_syntax

text \<open>
  The idempotency key of \<open>mail_router/parser.py\<close> and the part of the standard library
  under it: \<open>str.encode\<close> (UTF-8), \<open>hashlib.sha256\<close> on 32-bit words and \<open>hexdigest\<close>. A digest is
  always 64 hexadecimal digits, which is what keeps computed keys apart from the random
  \<open>nomid-\<close> ones.
\<close>

section \<open>Bytes\<close>

text \<open>UTF-8 of a Latin-1 code point: one byte below 128, two from there.\<close>

definition utf8_char :: "char \<Rightarrow> 8 word list" where
  "utf8_char c = (let n = of_char c :: nat in
     if n < 128 then [of_nat n] else [of_nat (192 + n div 64), of_nat (128 + n mod 64)])"

definition utf8 :: "string \<Rightarrow> 8 word list" where
  "utf8 s = concat (map utf8_char s)"

definition hexdigest :: "8 word list \<Rightarrow> string" where
  "hexdigest bs = concat (map (\<lambda>b. [hex_digit (unat b div 16), hex_digit (unat b mod 16)]) bs)"

section \<open>SHA-256\<close>

text \<open>
  The constants of the standard are the first 32 bits of the fractional parts of the cube
  (square) roots of the first primes; \<open>root_bits e k 0 n\<close> is the integer \<open>e\<close>-th root of
  \<open>n\<close>, computed bit by bit from bit \<open>k\<close> down.
\<close>

fun root_bits :: "nat \<Rightarrow> nat \<Rightarrow> nat \<Rightarrow> nat \<Rightarrow> nat" where
  "root_bits e 0 acc n = acc"
| "root_bits e (Suc k) acc n = root_bits e k (if (acc + 2 ^ k) ^ e \<le> n then acc + 2 ^ k else acc) n"

definition sha_primes :: "nat list" where
  "sha_primes = filter (\<lambda>p. list_all (\<lambda>q. p mod q \<noteq> 0) [2..<p]) [2..<312]"

definition sha_k :: "32 word list" where
  "sha_k = map (\<lambda>p. of_nat (root_bits 3 36 0 (p * 2 ^ 96))) sha_primes"

definition sha_start :: "nat \<Rightarrow> 32 word" where
  "sha_start p = of_nat (root_bits 2 36 0 (p * 2 ^ 64))"

record sha_state =
  ha :: "32 word"  hb :: "32 word"  hc :: "32 word"  hd :: "32 word"
  he :: "32 word"  hf :: "32 word"  hg :: "32 word"  hh :: "32 word"

definition sha_init :: sha_state where
  "sha_init = \<lparr>ha = sha_start 2, hb = sha_start 3, hc = sha_start 5, hd = sha_start 7,
     he = sha_start 11, hf = sha_start 13, hg = sha_start 17, hh = sha_start 19\<rparr>"

definition rotr :: "nat \<Rightarrow> 32 word \<Rightarrow> 32 word" where
  "rotr n x = drop_bit n x OR push_bit (32 - n) x"

definition small_sigma0 :: "32 word \<Rightarrow> 32 word" where
  "small_sigma0 x = rotr 7 x XOR rotr 18 x XOR drop_bit 3 x"

definition small_sigma1 :: "32 word \<Rightarrow> 32 word" where
  "small_sigma1 x = rotr 17 x XOR rotr 19 x XOR drop_bit 10 x"

definition big_sigma0 :: "32 word \<Rightarrow> 32 word" where
  "big_sigma0 x = rotr 2 x XOR rotr 13 x XOR rotr 22 x"

definition big_sigma1 :: "32 word \<Rightarrow> 32 word" where
  "big_sigma1 x = rotr 6 x XOR rotr 11 x XOR rotr 25 x"

text \<open>One bit 1, zeros up to 56 modulo 64, the length in bits in eight bytes.\<close>

definition length_bytes :: "nat \<Rightarrow> 8 word list" where
  "length_bytes n = map (\<lambda>k. of_nat (n div 256 ^ k)) [7, 6, 5, 4, 3, 2, 1, 0]"

definition sha_pad :: "8 word list \<Rightarrow> 8 word list" where
  "sha_pad m = m @ [0x80] @ replicate ((119 - length m mod 64) mod 64) 0 @ length_bytes (8 * length m)"

fun be_words :: "8 word list \<Rightarrow> 32 word list" where
  "be_words (a # b # c # d # xs) =
     (push_bit 24 (ucast a) OR push_bit 16 (ucast b) OR push_bit 8 (ucast c) OR ucast d) # be_words xs"
| "be_words _ = []"

text \<open>The message schedule, newest word first.\<close>

fun sha_expand :: "nat \<Rightarrow> 32 word list \<Rightarrow> 32 word list" where
  "sha_expand 0 ws = ws"
| "sha_expand (Suc n) ws = sha_expand n
     ((small_sigma1 (ws ! 1) + ws ! 6 + small_sigma0 (ws ! 14) + ws ! 15) # ws)"

definition sha_schedule :: "32 word list \<Rightarrow> 32 word list" where
  "sha_schedule ws = rev (sha_expand 48 (rev ws))"

definition sha_round :: "sha_state \<Rightarrow> 32 word \<times> 32 word \<Rightarrow> sha_state" where
  "sha_round s kw = (case kw of (k, w) \<Rightarrow>
     let t1 = hh s + big_sigma1 (he s) + ((he s AND hf s) XOR (NOT (he s) AND hg s)) + k + w;
         t2 = big_sigma0 (ha s) + ((ha s AND hb s) XOR (ha s AND hc s) XOR (hb s AND hc s))
     in \<lparr>ha = t1 + t2, hb = ha s, hc = hb s, hd = hc s, he = hd s + t1, hf = he s, hg = hf s, hh = hg s\<rparr>)"

definition sha_block :: "sha_state \<Rightarrow> 32 word list \<Rightarrow> sha_state" where
  "sha_block s ws = (let r = foldl sha_round s (zip sha_k (sha_schedule ws)) in
     \<lparr>ha = ha s + ha r, hb = hb s + hb r, hc = hc s + hc r, hd = hd s + hd r,
      he = he s + he r, hf = hf s + hf r, hg = hg s + hg r, hh = hh s + hh r\<rparr>)"

fun sha_blocks :: "nat \<Rightarrow> sha_state \<Rightarrow> 32 word list \<Rightarrow> sha_state" where
  "sha_blocks 0 s ws = s"
| "sha_blocks (Suc n) s ws = sha_blocks n (sha_block s (take 16 ws)) (drop 16 ws)"

definition word_bytes :: "32 word \<Rightarrow> 8 word list" where
  "word_bytes w = [ucast (drop_bit 24 w), ucast (drop_bit 16 w), ucast (drop_bit 8 w), ucast w]"

definition sha256 :: "8 word list \<Rightarrow> 8 word list" where
  "sha256 m = (let p = sha_pad m; s = sha_blocks (length p div 64) sha_init (be_words p) in
     concat (map word_bytes [ha s, hb s, hc s, hd s, he s, hf s, hg s, hh s]))"

lemma length_sha256 [simp]: "length (sha256 m) = 32"
  by (simp add: sha256_def Let_def word_bytes_def)

lemma sha_pad_blocks: "64 dvd length (sha_pad m)"
proof -
  define n where "n = length m"
  define r where "r = n mod 64"
  have r: "r < 64" "n = 64 * (n div 64) + r" by (simp_all add: r_def)
  have len: "length (sha_pad m) = n + 9 + (119 - r) mod 64"
    by (simp add: sha_pad_def length_bytes_def n_def r_def)
  have "(119 - r) mod 64 = (if r < 56 then 55 - r else 119 - r)"
    using r(1) by (cases "r < 56") (simp_all add: mod_if)
  then have "length (sha_pad m) = 64 * (n div 64 + (if r < 56 then 1 else 2))"
    using len r by (auto split: if_splits)
  then show ?thesis by simp
qed

lemma length_hexdigest [simp]: "length (hexdigest bs) = 2 * length bs"
  by (induction bs) (simp_all add: hexdigest_def)

lemma hex_digit_set: "n < 16 \<Longrightarrow> hex_digit n \<in> set ''0123456789abcdef''"
proof -
  assume "n < 16"
  then have "n \<in> set [0..<16]" by simp
  moreover have "\<forall>k \<in> set [0..<16]. hex_digit k \<in> set ''0123456789abcdef''" by code_simp
  ultimately show ?thesis by blast
qed

lemma set_hexdigest: "set (hexdigest bs) \<subseteq> set ''0123456789abcdef''"
proof (induction bs)
  case (Cons b bs)
  have "unat b < 256" using unsigned_less [of b] by simp
  then have "unat b div 16 < 16" "unat b mod 16 < 16" by auto
  then have "{hex_digit (unat b div 16), hex_digit (unat b mod 16)} \<subseteq> set ''0123456789abcdef''"
    using hex_digit_set by blast
  moreover have "set (hexdigest (b # bs)) = {hex_digit (unat b div 16), hex_digit (unat b mod 16)} \<union> set (hexdigest bs)"
    by (simp add: hexdigest_def)
  ultimately show ?case using Cons.IH by (metis Un_least)
qed (simp add: hexdigest_def)

section \<open>The key\<close>

definition key_payload :: "string \<Rightarrow> string \<Rightarrow> string \<Rightarrow> string" where
  "key_payload domain local_part message_id = py_lower domain @ ''/'' @ local_part @ ''/'' @ message_id"

definition idempotency_key :: "string \<Rightarrow> string \<Rightarrow> string \<Rightarrow> string" where
  "idempotency_key domain local_part message_id = hexdigest (sha256 (utf8 (key_payload domain local_part message_id)))"

lemma idempotency_key_hex: "set (idempotency_key d l m) \<subseteq> set ''0123456789abcdef''"
  unfolding idempotency_key_def by (rule set_hexdigest)

lemma length_idempotency_key [simp]: "length (idempotency_key d l m) = 64"
  by (simp add: idempotency_key_def)

lemma computed_key_not_nomid: "\<not> startswith (idempotency_key d l m) ''nomid-''"
proof
  assume "startswith (idempotency_key d l m) ''nomid-''"
  then have "CHR ''n'' \<in> set (idempotency_key d l m)"
    by (auto simp: startswith_iff)
  with idempotency_key_hex [of d l m] show False by auto
qed

text \<open>What the key hashes determines the three parts when no part before the last has a slash.\<close>

lemma split_at_slash:
  "a @ CHR ''/'' # x = b @ CHR ''/'' # y \<Longrightarrow> CHR ''/'' \<notin> set a \<Longrightarrow> CHR ''/'' \<notin> set b \<Longrightarrow> a = b \<and> x = y"
proof (induction a arbitrary: b)
  case Nil
  then show ?case by (cases b) auto
next
  case (Cons c a)
  then show ?case by (cases b) auto
qed



end
