(* ===== verification/Receiver.thy ===== *)
theory Receiver
  imports Policy Queue_Db Mail_Parser Sha256
begin

text \<open>
  \<open>mail_router/receiver.py\<close>: the LMTP handler. \<open>handle_RCPT\<close> validates a recipient,
  \<open>handle_DATA\<close> writes one queue row per recipient before it answers 250. The envelope and
  the session belong to \<open>aiosmtpd\<close>; the handler only uses the three fields below. The
  environment of each recipient gives what its lookup observes, the clock, the random
  identifier and the exception of the insert, if SQLite raises one.
\<close>

section \<open>State and environment\<close>

record envelope =
  env_content :: "string option"
  env_mail_from :: "string option"
  env_rcpt_tos :: "string list"

record rcpt_env =
  re_obs :: obs
  re_now :: datetime
  re_uuid :: string
  re_fault :: "exn option"

record receiver =
  rc_lookup :: lookup_table
  rc_queue :: db

section \<open>Operations\<close>

text \<open>\<open>msg.get(a) or msg.get(b) or msg.get(c)\<close>, then \<open>str(mid).strip()\<close>.\<close>

definition get_or :: "part \<Rightarrow> string \<Rightarrow> string option result \<Rightarrow> string option result" where
  "get_or msg name otherwise = bind_result (get_header msg name) (\<lambda>v.
     if non_empty v then Ok v else otherwise)"

definition extract_message_id :: "email_lib \<Rightarrow> string \<Rightarrow> string option result" where
  "extract_message_id el raw = (case message_from_bytes el raw of
     Inl e \<Rightarrow> Ok None
   | Inr msg \<Rightarrow> bind_result
       (get_or msg ''Message-ID'' (get_or msg ''Message-Id'' (get_header msg ''message-id''))) (\<lambda>mid.
       Ok (if non_empty mid then Some (strip (opt_str mid)) else None)))"

definition handle_RCPT ::
    "obs \<Rightarrow> obs \<Rightarrow> string \<Rightarrow> envelope \<Rightarrow> lookup_table \<Rightarrow> string result \<times> envelope \<times> lookup_table" where
  "handle_RCPT ob1 ob2 address envelope t = (case allowed_domains ob1 t of
     Inl e \<Rightarrow> (Raise e, envelope, t)
   | Inr (domains, t1) \<Rightarrow> (case parse_recipient address domains of
       None \<Rightarrow> (Ok ''550 5.1.1 Unknown recipient (malformed address or domain)'', envelope, t1)
     | Some p \<Rightarrow> (case resolve ob2 (pa_ds_id p) t1 of
         Inl e \<Rightarrow> (Raise e, envelope, t1)
       | Inr (None, t2) \<Rightarrow> (Ok ''550 5.1.1 Unknown recipient'', envelope, t2)
       | Inr (Some c, t2) \<Rightarrow>
           (Ok ''250 OK'', envelope\<lparr>env_rcpt_tos := env_rcpt_tos envelope @ [address]\<rparr>, t2))))"

definition rcpt_key :: "string option \<Rightarrow> parsed_address \<Rightarrow> string \<Rightarrow> string \<Rightarrow> string" where
  "rcpt_key message_id p rcpt uuid =
     (if non_empty message_id
      then idempotency_key (pa_domain p) (before_first (CHR ''@'') rcpt) (opt_str message_id)
      else ''nomid-'' @ uuid)"

definition rcpt_mail :: "string option \<Rightarrow> string \<Rightarrow> string \<Rightarrow> string \<Rightarrow> parsed_address \<Rightarrow> string \<Rightarrow> mail" where
  "rcpt_mail message_id raw sender uuid p rcpt = \<lparr>m_sender_email = sender, m_recipient_email = rcpt,
     m_ds_id = pa_ds_id p, m_mailbox = pa_mailbox p,
     m_idempotency_key = rcpt_key message_id p rcpt uuid, m_raw_eml = raw\<rparr>"

fun enqueue_all ::
    "string option \<Rightarrow> string \<Rightarrow> string \<Rightarrow> (string \<times> rcpt_env) list \<Rightarrow> receiver \<Rightarrow> unit result \<times> receiver" where
  "enqueue_all mid raw sender [] r = (Ok (), r)"
| "enqueue_all mid raw sender ((rcpt, e) # rest) r = (case allowed_domains (re_obs e) (rc_lookup r) of
     Inl x \<Rightarrow> (Raise x, r)
   | Inr (domains, t) \<Rightarrow> (let r1 = r\<lparr>rc_lookup := t\<rparr> in
       case parse_recipient rcpt domains of
         None \<Rightarrow> enqueue_all mid raw sender rest r1
       | Some p \<Rightarrow> (case re_fault e of
           Some x \<Rightarrow> (Raise x, r1)
         | None \<Rightarrow> enqueue_all mid raw sender rest
             (r1\<lparr>rc_queue := snd (enqueue (re_now e) (rcpt_mail mid raw sender (re_uuid e) p rcpt) (rc_queue r1))\<rparr>))))"

text \<open>The environment of the recipient with index \<open>i\<close> is \<open>envs i\<close>.\<close>

definition with_envs :: "(nat \<Rightarrow> rcpt_env) \<Rightarrow> string list \<Rightarrow> (string \<times> rcpt_env) list" where
  "with_envs envs tos = zip tos (map envs [0..<length tos])"

definition handle_DATA :: "email_lib \<Rightarrow> (nat \<Rightarrow> rcpt_env) \<Rightarrow> envelope \<Rightarrow> receiver \<Rightarrow> string result \<times> receiver" where
  "handle_DATA el envs envelope r =
     (let raw = opt_str (env_content envelope); sender = opt_str (env_mail_from envelope)
      in case extract_message_id el raw of
           Inl x \<Rightarrow> (Raise x, r)
         | Inr mid \<Rightarrow> (case enqueue_all mid raw sender (with_envs envs (env_rcpt_tos envelope)) r of
             (Inl x, r') \<Rightarrow> (Ok ''451 4.3.0 Temporary failure, try again later'', r')
           | (Inr _, r') \<Rightarrow> (Ok ''250 OK'', r')))"

lemma with_envs_simps [simp]:
  "map fst (with_envs envs tos) = tos" "length (with_envs envs tos) = length tos"
  "i < length tos \<Longrightarrow> with_envs envs tos ! i = (tos ! i, envs i)"
  by (simp_all add: with_envs_def)

lemma with_envs_few: "with_envs envs [] = []" "with_envs envs [a] = [(a, envs 0)]"
  "with_envs envs [a, b] = [(a, envs 0), (b, envs 1)]"
  by (simp_all add: with_envs_def)

lemma list_all_with_envs: "(\<And>i. P (envs i)) \<Longrightarrow> list_all (\<lambda>(rcpt, e). P e) (with_envs envs tos)"
  by (auto simp: list_all_length with_envs_def)

section \<open>Agreement with the policy server\<close>

lemma handle_RCPT_settled:
  assumes "settled ob1 t" and "settled ob2 t"
  shows "\<exists>reply1. handle_RCPT ob1 ob2 address envelope t = (reply1,
      if serves t address then envelope\<lparr>env_rcpt_tos := env_rcpt_tos envelope @ [address]\<rparr> else envelope, t) \<and>
    (reply1 = Ok ''250 OK'' \<longleftrightarrow> serves t address)"
  using assms by (auto simp: handle_RCPT_def settled_def allowed_domains_def resolve_def serves_def split: option.splits)

text \<open>C31 - equivalence: over one table the receiver accepts exactly the recipients that the
  policy server accepts, and only those reach the envelope.\<close>

theorem rcpt_agrees_with_policy:
  assumes "settled ob1 t" and "settled ob2 t" and "recipient_of attrs = address" and "address \<noteq> ''''"
  shows "(fst (handle_RCPT ob1 ob2 address envelope t) = Ok ''250 OK'' \<longleftrightarrow> evaluate ob1 ob2 attrs t = (Ok ''OK'', t)) \<and>
    env_rcpt_tos (fst (snd (handle_RCPT ob1 ob2 address envelope t))) =
      (if evaluate ob1 ob2 attrs t = (Ok ''OK'', t) then env_rcpt_tos envelope @ [address] else env_rcpt_tos envelope)"
proof -
  have "evaluate ob1 ob2 attrs t = (Ok ''OK'', t) \<longleftrightarrow> serves t address"
    using assms by (simp add: evaluate_settled verdict_def reject_unknown_def)
  with handle_RCPT_settled [OF assms(1,2), of address envelope] show ?thesis by auto
qed

theorem rcpt_agrees_with_policy_witness:
  "fst (handle_RCPT (quiet None) (quiet None) ''Firma+a@h.cz''
     \<lparr>env_content = None, env_mail_from = None, env_rcpt_tos = []\<rparr> known_table) = Ok ''250 OK''"
proof -
  have "strip ''Firma+a@h.cz'' = ''Firma+a@h.cz''" by code_simp
  then have r: "recipient_of [(''recipient'', ''Firma+a@h.cz'')] = ''Firma+a@h.cz''" by (simp add: recipient_of_def)
  have "evaluate (quiet None) (quiet None) [(''recipient'', ''Firma+a@h.cz'')] known_table = (Ok ''OK'', known_table)"
    by (simp add: evaluate_settled known_settled verdict_def r known_serves)
  then show ?thesis using rcpt_agrees_with_policy [OF known_settled known_settled r] by simp
qed

section \<open>What an acknowledged message leaves in the queue\<close>

text \<open>
  Seen by key, an insert is \<open>put\<close>: the first mail under a key stays. The mails of a message
  for its accepted recipients, over a settled table, are a list of such inserts.
\<close>

type_synonym view = "string \<Rightarrow> (mail \<times> qstate \<times> int) option"

definition put :: "view \<Rightarrow> mail \<Rightarrow> view" where
  "put V m = (if V (m_idempotency_key m) \<noteq> None then V else V(m_idempotency_key m \<mapsto> (m, Pending, 0)))"

lemma key_view_put: "key_view (snd (enqueue now m d)) = put (key_view d) m"
  by (simp add: key_view_enqueue put_def)

lemma put_dom: "dom (put V m) = insert (m_idempotency_key m) (dom V)"
  by (auto simp: put_def dom_def split: if_splits)

lemma puts_dom: "dom (foldl put V ms) = m_idempotency_key ` set ms \<union> dom V"
  by (induction ms arbitrary: V) (auto simp: put_dom)

lemma puts_keep: "V k \<noteq> None \<Longrightarrow> foldl put V ms k = V k"
proof (induction ms arbitrary: V)
  case (Cons m ms)
  have "put V m k = V k" using Cons.prems by (auto simp: put_def)
  then show ?case using Cons by simp
qed simp

lemma puts_known: "m_idempotency_key ` set ms \<subseteq> dom V \<Longrightarrow> foldl put V ms = V"
proof (induction ms)
  case (Cons m ms)
  then have "put V m = V" by (auto simp: put_def)
  with Cons show ?case by simp
qed simp

lemma puts_again: "foldl put (foldl put V ms) (ms @ ms') = foldl put V (ms @ ms')"
proof -
  have "foldl put (foldl put V ms) ms = foldl put V ms"
    by (rule puts_known) (simp add: puts_dom)
  then show ?thesis by simp
qed

fun mails_of :: "string option \<Rightarrow> string \<Rightarrow> string \<Rightarrow> string set \<Rightarrow> (string \<times> rcpt_env) list \<Rightarrow> mail list" where
  "mails_of mid raw sender D [] = []"
| "mails_of mid raw sender D ((rcpt, e) # rest) = (case parse_recipient rcpt D of
     None \<Rightarrow> mails_of mid raw sender D rest
   | Some p \<Rightarrow> rcpt_mail mid raw sender (re_uuid e) p rcpt # mails_of mid raw sender D rest)"

definition all_settled :: "(string \<times> rcpt_env) list \<Rightarrow> lookup_table \<Rightarrow> bool" where
  "all_settled xs t \<longleftrightarrow> list_all (\<lambda>(rcpt, e). settled (re_obs e) t) xs"

text \<open>A run over the recipients inserts a prefix of their mails: all of them, unless it raises.\<close>

lemma enqueue_all_view:
  assumes "all_settled xs (rc_lookup r)"
  shows "\<exists>ms ms'. mails_of mid raw sender (lt_hosts (rc_lookup r)) xs = ms @ ms' \<and>
    key_view (rc_queue (snd (enqueue_all mid raw sender xs r))) = foldl put (key_view (rc_queue r)) ms \<and>
    rc_lookup (snd (enqueue_all mid raw sender xs r)) = rc_lookup r \<and>
    (fst (enqueue_all mid raw sender xs r) = Ok () \<longrightarrow> ms' = [])"
  using assms
proof (induction mid raw sender xs r rule: enqueue_all.induct)
  case (1 mid raw sender r)
  show ?case by simp
next
  case (2 mid raw sender rcpt e rest r)
  have a: "allowed_domains (re_obs e) (rc_lookup r) = Ok (lt_hosts (rc_lookup r), rc_lookup r)"
    "all_settled rest (rc_lookup r)"
    using "2.prems" by (simp_all add: all_settled_def settled_def allowed_domains_def)
  have same: "r\<lparr>rc_lookup := rc_lookup r\<rparr> = r" by simp
  show ?case
  proof (cases "parse_recipient rcpt (lt_hosts (rc_lookup r))")
    case None
    then show ?thesis using "2.IH"(1) [OF a(1) refl same [symmetric] None] a by simp
  next
    case (Some p)
    let ?m = "rcpt_mail mid raw sender (re_uuid e) p rcpt"
    show ?thesis
    proof (cases "re_fault e")
      case fault: (Some x)
      have "enqueue_all mid raw sender ((rcpt, e) # rest) r = (Raise x, r)"
        using a Some fault by simp
      then show ?thesis using fault
        by (intro exI [of _ "[]"] exI [of _ "mails_of mid raw sender (lt_hosts (rc_lookup r)) ((rcpt, e) # rest)"]) (simp del: enqueue_all.simps mails_of.simps)
    next
      case None
      let ?r = "r\<lparr>rc_queue := snd (enqueue (re_now e) ?m (rc_queue r))\<rparr>"
      obtain ms ms' where "mails_of mid raw sender (lt_hosts (rc_lookup r)) rest = ms @ ms'"
        "key_view (rc_queue (snd (enqueue_all mid raw sender rest ?r))) = foldl put (key_view (rc_queue ?r)) ms"
        "rc_lookup (snd (enqueue_all mid raw sender rest ?r)) = rc_lookup r"
        "fst (enqueue_all mid raw sender rest ?r) = Ok () \<longrightarrow> ms' = []"
        using "2.IH"(2) [OF a(1) refl same [symmetric] Some None] a(2) by simp blast
      then show ?thesis
        using a Some None by (intro exI [of _ "?m # ms"] exI [of _ ms']) (simp add: key_view_put)
    qed
  qed
qed

lemma mails_of_env: "non_empty mid \<Longrightarrow> map fst xs = map fst ys \<Longrightarrow>
  mails_of mid raw sender D xs = mails_of mid raw sender D ys"
proof (induction xs arbitrary: ys)
  case (Cons x xs)
  obtain rcpt e f ys' where "x = (rcpt, e)" "ys = (rcpt, f) # ys'" "map fst xs = map fst ys'"
    using Cons.prems(2) by (cases x; cases ys) auto
  then show ?case using Cons.IH [of ys'] Cons.prems(1) by (simp add: rcpt_mail_def rcpt_key_def split: option.split)
qed simp

lemma enqueue_all_inv [inv_intros]:
  "db_inv (rc_queue r) \<Longrightarrow> list_all (\<lambda>(rcpt, e). clock_ok (re_now e)) xs \<Longrightarrow>
   db_inv (rc_queue (snd (enqueue_all mid raw sender xs r)))"
proof (induction xs arbitrary: r)
  case (Cons x xs)
  obtain rcpt e where x: "x = (rcpt, e)" by (cases x)
  show ?case
  proof (cases "allowed_domains (re_obs e) (rc_lookup r)")
    case (Inr dt)
    obtain D t where dt: "dt = (D, t)" by (cases dt)
    have "db_inv (rc_queue (snd (enqueue_all mid raw sender xs (r\<lparr>rc_lookup := t'\<rparr>))))" for t'
      using Cons by simp
    moreover have "db_inv (rc_queue (snd (enqueue_all mid raw sender xs
        (r\<lparr>rc_lookup := t', rc_queue := snd (enqueue (re_now e) m (rc_queue r))\<rparr>))))" for t' m
      using Cons x db_inv_enqueue [of "rc_queue r" "re_now e" m] by simp
    ultimately show ?thesis using Inr dt x Cons.prems by (simp add: Let_def split: option.split)
  qed (use Cons.prems x in simp)
qed simp

lemma mails_of_member:
  "i < length xs \<Longrightarrow> parse_recipient (fst (xs ! i)) D = Some p \<Longrightarrow>
    rcpt_mail mid raw sender (re_uuid (snd (xs ! i))) p (fst (xs ! i)) \<in> set (mails_of mid raw sender D xs)"
  by (induction mid raw sender D xs arbitrary: i rule: mails_of.induct) (auto simp: nth_Cons' split: option.split)

lemma rcpt_mail_key [simp]: "m_idempotency_key (rcpt_mail mid raw sender uuid p rcpt) = rcpt_key mid p rcpt uuid"
  by (simp add: rcpt_mail_def)

lemma handle_DATA_cases:
  assumes "handle_DATA el envs envelope r = (Ok answer, r')" and "extract_message_id el (opt_str (env_content envelope)) = Ok mid"
    and "run = enqueue_all mid (opt_str (env_content envelope)) (opt_str (env_mail_from envelope)) (with_envs envs (env_rcpt_tos envelope)) r"
  shows "r' = snd run" and "answer = ''250 OK'' \<longleftrightarrow> fst run = Ok ()"
    and "answer \<noteq> ''250 OK'' \<Longrightarrow> answer = ''451 4.3.0 Temporary failure, try again later''"
  using assms by (auto simp: handle_DATA_def Let_def split: sum.splits prod.splits)

text \<open>
  The domains that the recipients are parsed over: each is read from the table as it is at that
  moment, until a read raises; and the mails that are made over a list of such domains.
\<close>

fun domains_read :: "(string \<times> rcpt_env) list \<Rightarrow> lookup_table \<Rightarrow> string set list" where
  "domains_read [] t = []"
| "domains_read ((rcpt, e) # rest) t = (case allowed_domains (re_obs e) t of
     Inl x \<Rightarrow> []
   | Inr (D, t') \<Rightarrow> D # domains_read rest t')"

fun mails_made :: "string option \<Rightarrow> string \<Rightarrow> string \<Rightarrow> (string \<times> rcpt_env) list \<Rightarrow> string set list \<Rightarrow> mail list" where
  "mails_made mid raw sender ((rcpt, e) # rest) (D # Ds) = (case parse_recipient rcpt D of
     None \<Rightarrow> mails_made mid raw sender rest Ds
   | Some p \<Rightarrow> rcpt_mail mid raw sender (re_uuid e) p rcpt # mails_made mid raw sender rest Ds)"
| "mails_made mid raw sender _ _ = []"

lemma enqueue_all_made:
  "\<exists>n. key_view (rc_queue (snd (enqueue_all mid raw sender xs r))) =
      foldl put (key_view (rc_queue r)) (take n (mails_made mid raw sender xs (domains_read xs (rc_lookup r)))) \<and>
    (fst (enqueue_all mid raw sender xs r) = Ok () \<longrightarrow> length (domains_read xs (rc_lookup r)) = length xs \<and>
      n = length (mails_made mid raw sender xs (domains_read xs (rc_lookup r))))"
proof (induction mid raw sender xs r rule: enqueue_all.induct)
  case (2 mid raw sender rcpt e rest r)
  show ?case
  proof (cases "allowed_domains (re_obs e) (rc_lookup r)")
    case (Inr dt)
    obtain D t where dt: "dt = (D, t)" by (cases dt)
    show ?thesis
    proof (cases "parse_recipient rcpt D")
      case None
      then show ?thesis using "2.IH"(1) [OF Inr dt [symmetric] refl None] Inr dt by simp
    next
      case (Some p)
      show ?thesis
      proof (cases "re_fault e")
        case fault: (Some x)
        then show ?thesis using Inr dt Some by (auto intro: exI [of _ 0])
      next
        case None
        from "2.IH"(2) [OF Inr dt [symmetric] refl Some None] obtain n where n:
          "key_view (rc_queue (snd (enqueue_all mid raw sender rest (r\<lparr>rc_lookup := t,
              rc_queue := snd (enqueue (re_now e) (rcpt_mail mid raw sender (re_uuid e) p rcpt) (rc_queue r))\<rparr>)))) =
            foldl put (put (key_view (rc_queue r)) (rcpt_mail mid raw sender (re_uuid e) p rcpt))
              (take n (mails_made mid raw sender rest (domains_read rest t)))"
          "fst (enqueue_all mid raw sender rest (r\<lparr>rc_lookup := t,
              rc_queue := snd (enqueue (re_now e) (rcpt_mail mid raw sender (re_uuid e) p rcpt) (rc_queue r))\<rparr>)) = Ok () \<longrightarrow>
            length (domains_read rest t) = length rest \<and> n = length (mails_made mid raw sender rest (domains_read rest t))"
          by (auto simp: key_view_put)
        then show ?thesis using Inr dt Some None by (intro exI [of _ "Suc n"]) simp
      qed
    qed
  qed simp
qed simp

lemma mails_made_settled:
  "all_settled xs t \<Longrightarrow> domains_read xs t = replicate (length xs) (lt_hosts t) \<and>
    mails_of mid raw sender (lt_hosts t) xs = mails_made mid raw sender xs (replicate (length xs) (lt_hosts t))"
  by (induction xs) (auto simp: all_settled_def settled_def allowed_domains_def split: option.split)

text \<open>The mail of one recipient is between those of the recipients before and after it.\<close>

lemma mails_made_at:
  "i < length xs \<Longrightarrow> length Ds = length xs \<Longrightarrow> parse_recipient (fst (xs ! i)) (Ds ! i) = Some p \<Longrightarrow>
    \<exists>ms1 ms2. mails_made mid raw sender xs Ds =
      ms1 @ rcpt_mail mid raw sender (re_uuid (snd (xs ! i))) p (fst (xs ! i)) # ms2 \<and>
    (\<forall>m \<in> set ms1. \<exists>j q. j < i \<and> parse_recipient (fst (xs ! j)) (Ds ! j) = Some q \<and>
      m = rcpt_mail mid raw sender (re_uuid (snd (xs ! j))) q (fst (xs ! j)))"
proof (induction mid raw sender xs Ds arbitrary: i rule: mails_made.induct)
  case (1 mid raw sender rcpt e rest D Ds)
  show ?case
  proof (cases i)
    case 0
    with 1 show ?thesis by (intro exI [of _ "[]"] exI [of _ "mails_made mid raw sender rest Ds"]) simp
  next
    case (Suc k)
    have "\<exists>ms1 ms2. mails_made mid raw sender rest Ds =
      ms1 @ rcpt_mail mid raw sender (re_uuid (snd (rest ! k))) p (fst (rest ! k)) # ms2 \<and>
      (\<forall>m \<in> set ms1. \<exists>j q. j < k \<and> parse_recipient (fst (rest ! j)) (Ds ! j) = Some q \<and>
        m = rcpt_mail mid raw sender (re_uuid (snd (rest ! j))) q (fst (rest ! j)))"
      using 1 Suc by (cases "parse_recipient rcpt D") auto
    then obtain ms1 ms2 where ms: "mails_made mid raw sender rest Ds =
        ms1 @ rcpt_mail mid raw sender (re_uuid (snd (rest ! k))) p (fst (rest ! k)) # ms2"
      and before: "\<forall>m \<in> set ms1. \<exists>j q. j < k \<and> parse_recipient (fst (rest ! j)) (Ds ! j) = Some q \<and>
        m = rcpt_mail mid raw sender (re_uuid (snd (rest ! j))) q (fst (rest ! j))"
      by blast
    have later: "\<exists>j q. j < i \<and> parse_recipient (fst (((rcpt, e) # rest) ! j)) ((D # Ds) ! j) = Some q \<and>
        m = rcpt_mail mid raw sender (re_uuid (snd (((rcpt, e) # rest) ! j))) q (fst (((rcpt, e) # rest) ! j))"
      if "m \<in> set ms1" for m
      using before that Suc by fastforce
    show ?thesis
    proof (cases "parse_recipient rcpt D")
      case None
      with ms later Suc show ?thesis by auto
    next
      case (Some q)
      have "\<exists>j q. j < i \<and> parse_recipient (fst (((rcpt, e) # rest) ! j)) ((D # Ds) ! j) = Some q \<and>
          rcpt_mail mid raw sender (re_uuid e) q' rcpt =
            rcpt_mail mid raw sender (re_uuid (snd (((rcpt, e) # rest) ! j))) q (fst (((rcpt, e) # rest) ! j))"
        if "parse_recipient rcpt D = Some q'" for q'
        using that Suc by (intro exI [of _ 0] exI [of _ q']) simp
      with Some ms later Suc show ?thesis
        by (intro exI [of _ "rcpt_mail mid raw sender (re_uuid e) q rcpt # ms1"] exI [of _ ms2]) auto
    qed
  qed
qed simp_all

lemma mails_made_member:
  "m \<in> set (mails_made mid raw sender xs Ds) \<Longrightarrow> \<exists>i p. i < length xs \<and> i < length Ds \<and>
    parse_recipient (fst (xs ! i)) (Ds ! i) = Some p \<and> m = rcpt_mail mid raw sender (re_uuid (snd (xs ! i))) p (fst (xs ! i))"
proof (induction mid raw sender xs Ds rule: mails_made.induct)
  case (1 mid raw sender rcpt e rest D Ds)
  show ?case
  proof (cases "m \<in> set (mails_made mid raw sender rest Ds)")
    case True
    with "1.IH" have "\<exists>i p. i < length rest \<and> i < length Ds \<and> parse_recipient (fst (rest ! i)) (Ds ! i) = Some p \<and>
        m = rcpt_mail mid raw sender (re_uuid (snd (rest ! i))) p (fst (rest ! i))"
      by (cases "parse_recipient rcpt D") auto
    then obtain i p where "i < length rest" "i < length Ds" "parse_recipient (fst (rest ! i)) (Ds ! i) = Some p"
      "m = rcpt_mail mid raw sender (re_uuid (snd (rest ! i))) p (fst (rest ! i))"
      by blast
    then show ?thesis by (intro exI [of _ "Suc i"] exI [of _ p]) simp
  next
    case False
    then show ?thesis using "1.prems" by (intro exI [of _ 0]) (auto split: option.splits)
  qed
qed simp_all

lemma puts_first: "V (m_idempotency_key m) = None \<Longrightarrow> m_idempotency_key m \<notin> m_idempotency_key ` set ms1 \<Longrightarrow>
    foldl put V (ms1 @ m # ms2) (m_idempotency_key m) = Some (m, Pending, 0)"
proof -
  assume "V (m_idempotency_key m) = None" "m_idempotency_key m \<notin> m_idempotency_key ` set ms1"
  then have "foldl put V ms1 (m_idempotency_key m) = None" using puts_dom [of V ms1] by blast
  then have "foldl put V (ms1 @ [m]) (m_idempotency_key m) = Some (m, Pending, 0)" by (simp add: put_def)
  then show ?thesis using puts_keep [of "foldl put V (ms1 @ [m])" "m_idempotency_key m" ms2] by simp
qed

text \<open>
  What an acknowledgement leaves under the keys: \<open>accepted i p\<close> is that recipient \<open>i\<close> parses
  to \<open>p\<close> at its step, \<open>key i p\<close> its key.
\<close>

lemma ack_stores:
  assumes "handle_DATA el envs envelope r = (Ok ''250 OK'', r')" and "extract_message_id el (opt_str (env_content envelope)) = Ok mid"
    and "tos = env_rcpt_tos envelope" and "Ds = domains_read (with_envs envs tos) (rc_lookup r)"
    and "accepted = (\<lambda>i p. i < length tos \<and> parse_recipient (tos ! i) (Ds ! i) = Some p)"
    and "key = (\<lambda>i p. rcpt_key mid p (tos ! i) (re_uuid (envs i)))"
  shows "length Ds = length tos"
    and "accepted i p \<Longrightarrow> key_view (rc_queue r') (key i p) \<noteq> None"
    and "accepted i p \<Longrightarrow> key_view (rc_queue r) (key i p) = None \<Longrightarrow>
      (\<And>j q. j < i \<Longrightarrow> accepted j q \<Longrightarrow> key j q \<noteq> key i p) \<Longrightarrow>
      key_view (rc_queue r') (key i p) = Some (rcpt_mail mid (opt_str (env_content envelope)) (opt_str (env_mail_from envelope))
        (re_uuid (envs i)) p (tos ! i), Pending, 0)"
    and "key_view (rc_queue r') k \<noteq> None \<Longrightarrow> key_view (rc_queue r) k \<noteq> None \<or> (\<exists>i p. accepted i p \<and> k = key i p)"
proof -
  let ?raw = "opt_str (env_content envelope)" and ?from = "opt_str (env_mail_from envelope)"
  let ?xs = "with_envs envs tos" and ?V = "key_view (rc_queue r)"
  define ms where "ms = mails_made mid ?raw ?from ?xs Ds"
  have run: "r' = snd (enqueue_all mid ?raw ?from ?xs r)" "fst (enqueue_all mid ?raw ?from ?xs r) = Ok ()"
    using handle_DATA_cases(1,2) [OF assms(1,2) refl] by (simp_all add: assms(3))
  then show len: "length Ds = length tos" using enqueue_all_made [of mid ?raw ?from ?xs r] by (simp add: assms(4))
  have view: "key_view (rc_queue r') = foldl put ?V ms"
    using enqueue_all_made [of mid ?raw ?from ?xs r] run by (auto simp: ms_def assms(4))
  have at: "\<exists>ms1 ms2. ms = ms1 @ rcpt_mail mid ?raw ?from (re_uuid (envs i)) p (tos ! i) # ms2 \<and>
      (\<forall>m \<in> set ms1. \<exists>j q. j < i \<and> accepted j q \<and> m_idempotency_key m = key j q)" if acc: "accepted i p" for i p
  proof -
    from acc have i: "i < length ?xs" "parse_recipient (fst (?xs ! i)) (Ds ! i) = Some p" by (simp_all add: assms(5))
    obtain ms1 ms2 where m: "ms = ms1 @ rcpt_mail mid ?raw ?from (re_uuid (snd (?xs ! i))) p (fst (?xs ! i)) # ms2"
      "\<forall>m \<in> set ms1. \<exists>j q. j < i \<and> parse_recipient (fst (?xs ! j)) (Ds ! j) = Some q \<and>
        m = rcpt_mail mid ?raw ?from (re_uuid (snd (?xs ! j))) q (fst (?xs ! j))"
      using mails_made_at [OF i(1) _ i(2), of mid ?raw ?from] len by (auto simp: ms_def)
    have "\<exists>j q. j < i \<and> accepted j q \<and> m_idempotency_key m = key j q" if "m \<in> set ms1" for m
    proof -
      from m(2) that obtain j q where j: "j < i" "parse_recipient (fst (?xs ! j)) (Ds ! j) = Some q"
        "m = rcpt_mail mid ?raw ?from (re_uuid (snd (?xs ! j))) q (fst (?xs ! j))" by blast
      then have "accepted j q \<and> m_idempotency_key m = key j q" using i(1) by (simp add: assms(5,6))
      with j(1) show ?thesis by blast
    qed
    with m(1) i(1) show ?thesis by auto
  qed
  show "key_view (rc_queue r') (key i p) \<noteq> None" if acc: "accepted i p"
  proof -
    obtain ms1 ms2 where "ms = ms1 @ rcpt_mail mid ?raw ?from (re_uuid (envs i)) p (tos ! i) # ms2" using at [OF acc] by blast
    then have "key i p \<in> m_idempotency_key ` set ms" by (simp add: assms(6))
    with puts_dom [of ?V ms] show ?thesis unfolding view by blast
  qed
  show "key_view (rc_queue r') (key i p) = Some (rcpt_mail mid ?raw ?from (re_uuid (envs i)) p (tos ! i), Pending, 0)"
    if acc: "accepted i p" and new: "?V (key i p) = None" "\<And>j q. j < i \<Longrightarrow> accepted j q \<Longrightarrow> key j q \<noteq> key i p"
  proof -
    let ?m = "rcpt_mail mid ?raw ?from (re_uuid (envs i)) p (tos ! i)"
    obtain ms1 ms2 where m: "ms = ms1 @ ?m # ms2" "\<forall>m \<in> set ms1. \<exists>j q. j < i \<and> accepted j q \<and> m_idempotency_key m = key j q"
      using at [OF acc] by blast
    have k: "m_idempotency_key ?m = key i p" by (simp add: assms(6))
    have "m_idempotency_key ?m \<notin> m_idempotency_key ` set ms1" unfolding k using m(2) new(2) by fastforce
    from puts_first [OF _ this, of ?V ms2] show ?thesis using new(1) unfolding view m(1) k by simp
  qed
  show "?V k \<noteq> None \<or> (\<exists>i p. accepted i p \<and> k = key i p)" if k: "key_view (rc_queue r') k \<noteq> None"
  proof (cases "k \<in> m_idempotency_key ` set ms")
    case True
    then obtain m where m: "m \<in> set ms" "k = m_idempotency_key m" by blast
    from mails_made_member [OF m(1) [unfolded ms_def]] obtain i p where "i < length ?xs"
      "parse_recipient (fst (?xs ! i)) (Ds ! i) = Some p" "m = rcpt_mail mid ?raw ?from (re_uuid (snd (?xs ! i))) p (fst (?xs ! i))"
      by blast
    then have "accepted i p \<and> k = key i p" using m(2) by (simp add: assms(5,6))
    then show ?thesis by blast
  next
    case False
    then show ?thesis using k puts_dom [of ?V ms] unfolding view by blast
  qed
qed

lemma data_stores:
  assumes "handle_DATA el envs envelope r = (Ok answer, r')" and "extract_message_id el (opt_str (env_content envelope)) = Ok mid"
    and "\<And>i. clock_ok (re_now (envs i))" and "db_inv (rc_queue r)" and "tos = env_rcpt_tos envelope"
  shows "\<exists>n. key_view (rc_queue r') = foldl put (key_view (rc_queue r)) (take n
      (mails_made mid (opt_str (env_content envelope)) (opt_str (env_mail_from envelope)) (with_envs envs tos)
        (domains_read (with_envs envs tos) (rc_lookup r))))"
    and "key_view (rc_queue r) k = Some v \<Longrightarrow> key_view (rc_queue r') k = Some v" and "db_inv (rc_queue r')"
proof -
  let ?raw = "opt_str (env_content envelope)" and ?from = "opt_str (env_mail_from envelope)"
  have run: "r' = snd (enqueue_all mid ?raw ?from (with_envs envs tos) r)"
    using handle_DATA_cases(1) [OF assms(1,2) refl] by (simp add: assms(5))
  then show n: "\<exists>n. key_view (rc_queue r') = foldl put (key_view (rc_queue r)) (take n
      (mails_made mid ?raw ?from (with_envs envs tos) (domains_read (with_envs envs tos) (rc_lookup r))))"
    using enqueue_all_made [of mid ?raw ?from "with_envs envs tos" r] by blast
  then show "key_view (rc_queue r) k = Some v \<Longrightarrow> key_view (rc_queue r') k = Some v"
    using puts_keep [of "key_view (rc_queue r)" k] by auto
  show "db_inv (rc_queue r')" unfolding run using assms(3,4) by (intro enqueue_all_inv list_all_with_envs)
qed

text \<open>C2 - safety: what an acknowledgement means. \<open>Ds\<close> are the domains that the recipients are parsed
  over, each as the lookup table gives them at its step: the table may be reloaded in
  between, and a recipient that no longer parses then is skipped. After 250, every recipient that
  parses has a row under its key, and the row is its own mail, pending, unless a mail with that key had been
  stored before: by an earlier message or for an earlier recipient of this one. No other key is new. The
  only other reply is 451, and then a prefix of the mails has been stored. In both cases no
  stored mail has changed, and the table invariant holds.\<close>

theorem ack_means_stored:
  assumes "handle_DATA el envs envelope r = (Ok answer, r')" and "extract_message_id el (opt_str (env_content envelope)) = Ok mid"
    and "\<And>i. clock_ok (re_now (envs i))" and "db_inv (rc_queue r)"
    and "tos = env_rcpt_tos envelope" and "Ds = domains_read (with_envs envs tos) (rc_lookup r)"
    and "accepted = (\<lambda>i p. i < length tos \<and> parse_recipient (tos ! i) (Ds ! i) = Some p)"
    and "key = (\<lambda>i p. rcpt_key mid p (tos ! i) (re_uuid (envs i)))"
    and "mail_for = (\<lambda>i p. rcpt_mail mid (opt_str (env_content envelope)) (opt_str (env_mail_from envelope)) (re_uuid (envs i)) p (tos ! i))"
  shows "(answer = ''250 OK'' \<longrightarrow> length Ds = length tos \<and>
      (\<forall>i p. accepted i p \<longrightarrow> key_view (rc_queue r') (key i p) \<noteq> None \<and>
        (key_view (rc_queue r) (key i p) = None \<and> (\<forall>j < i. \<forall>q. accepted j q \<longrightarrow> key j q \<noteq> key i p) \<longrightarrow>
          key_view (rc_queue r') (key i p) = Some (mail_for i p, Pending, 0))) \<and>
      (\<forall>k. key_view (rc_queue r') k \<noteq> None \<longrightarrow> key_view (rc_queue r) k \<noteq> None \<or> (\<exists>i p. accepted i p \<and> k = key i p))) \<and>
    (answer \<noteq> ''250 OK'' \<longrightarrow> answer = ''451 4.3.0 Temporary failure, try again later'' \<and>
      (\<exists>n. key_view (rc_queue r') = foldl put (key_view (rc_queue r)) (take n
        (mails_made mid (opt_str (env_content envelope)) (opt_str (env_mail_from envelope)) (with_envs envs tos) Ds)))) \<and>
    (\<forall>k v. key_view (rc_queue r) k = Some v \<longrightarrow> key_view (rc_queue r') k = Some v) \<and> db_inv (rc_queue r')"
proof (intro conjI impI allI)
  show "length Ds = length tos" if "answer = ''250 OK''"
    using ack_stores(1) [OF assms(1) [unfolded that] assms(2,5,6,7,8)] .
  show "key_view (rc_queue r') (key i p) \<noteq> None" if "answer = ''250 OK''" "accepted i p" for i p
    using ack_stores(2) [OF assms(1) [unfolded that(1)] assms(2,5,6,7,8) that(2)] .
  show "key_view (rc_queue r') (key i p) = Some (mail_for i p, Pending, 0)" if "answer = ''250 OK''" "accepted i p"
    "key_view (rc_queue r) (key i p) = None \<and> (\<forall>j < i. \<forall>q. accepted j q \<longrightarrow> key j q \<noteq> key i p)" for i p
    unfolding assms(9) using that(3)
    by (intro ack_stores(3) [OF assms(1) [unfolded that(1)] assms(2,5,6,7,8) that(2)]) blast+
  show "key_view (rc_queue r) k \<noteq> None \<or> (\<exists>i p. accepted i p \<and> k = key i p)" if "answer = ''250 OK''"
    "key_view (rc_queue r') k \<noteq> None" for k
    using ack_stores(4) [OF assms(1) [unfolded that(1)] assms(2,5,6,7,8) that(2)] .
  show "answer = ''451 4.3.0 Temporary failure, try again later''" if "answer \<noteq> ''250 OK''"
    using handle_DATA_cases(3) [OF assms(1,2) refl that] .
qed (use data_stores [OF assms(1-5)] assms(6) in simp_all)

text \<open>C3 - safety: redelivery. When a message with a Message-ID is sent again after a failure
  (or after an acknowledgement that was lost), the queue ends as if it had been sent once.\<close>

theorem redelivery_stores_once:
  assumes "handle_DATA el envs envelope r = (Ok answer, r1)" and "handle_DATA el envs' envelope r1 = (Ok ''250 OK'', r2)"
    and "extract_message_id el (opt_str (env_content envelope)) = Ok mid" and "non_empty mid"
    and "\<And>i. settled (re_obs (envs i)) (rc_lookup r)" and "\<And>i. settled (re_obs (envs' i)) (rc_lookup r)"
  shows "key_view (rc_queue r2) = foldl put (key_view (rc_queue r))
      (mails_of mid (opt_str (env_content envelope)) (opt_str (env_mail_from envelope)) (lt_hosts (rc_lookup r))
        (with_envs envs' (env_rcpt_tos envelope)))"
proof -
  let ?raw = "opt_str (env_content envelope)" and ?from = "opt_str (env_mail_from envelope)"
  let ?xs = "\<lambda>envs. with_envs envs (env_rcpt_tos envelope)"
  let ?ms = "\<lambda>envs. mails_of mid ?raw ?from (lt_hosts (rc_lookup r)) (?xs envs)"
  have s: "all_settled (?xs envs) (rc_lookup r)" "all_settled (?xs envs') (rc_lookup r)"
    unfolding all_settled_def using assms(5,6) by (intro list_all_with_envs; simp)+
  have same: "?ms envs = ?ms envs'" by (rule mails_of_env [OF assms(4)]) simp
  note r1 = handle_DATA_cases(1) [OF assms(1,3) refl]
  obtain ms1 ms2 where one: "?ms envs = ms1 @ ms2" "key_view (rc_queue r1) = foldl put (key_view (rc_queue r)) ms1"
    "rc_lookup r1 = rc_lookup r"
    using enqueue_all_view [OF s(1), of mid ?raw ?from] unfolding r1 by blast
  have r2: "r2 = snd (enqueue_all mid ?raw ?from (?xs envs') r1)" "fst (enqueue_all mid ?raw ?from (?xs envs') r1) = Ok ()"
    using handle_DATA_cases(1,2) [OF assms(2,3) refl] by simp_all
  have s1: "all_settled (?xs envs') (rc_lookup r1)" using s(2) one(3) by simp
  have "key_view (rc_queue r2) = foldl put (key_view (rc_queue r1)) (?ms envs')"
    using enqueue_all_view [OF s1, of mid ?raw ?from] r2 one(3) by auto
  then show ?thesis using one puts_again [of "key_view (rc_queue r)" ms1 ms2] same by simp
qed

definition toy_message :: part where
  "toy_message = Single ((plain_mime ''text/plain'')\<lparr>mi_headers := [(''Message-ID'', Ok ''<m1>'')]\<rparr>) ''x''"

definition toy_envelope :: "string list \<Rightarrow> envelope" where
  "toy_envelope tos = \<lparr>env_content = Some ''raw'', env_mail_from = Some ''s@x'', env_rcpt_tos = tos\<rparr>"

definition calm :: "exn option \<Rightarrow> rcpt_env" where
  "calm f = \<lparr>re_obs = quiet None, re_now = utc 5, re_uuid = ''0'', re_fault = f\<rparr>"

definition toy_receiver :: receiver where
  "toy_receiver = \<lparr>rc_lookup = known_table, rc_queue = Queue_init None\<rparr>"

lemma toy_message_id: "extract_message_id (toy_lib (Ok toy_message)) raw = Ok (Some ''<m1>'')"
proof -
  have "py_lower ''Message-ID'' = ''message-id''" "strip ''<m1>'' = ''<m1>''" by code_simp+
  then show ?thesis
    by (simp add: extract_message_id_def toy_lib_def toy_message_def get_or_def get_header_def non_empty_def opt_str_def)
qed

lemma toy_parse:
  "parse_recipient ''firma@h.cz'' {''h.cz''} = Some \<lparr>pa_ds_id = ''firma'', pa_mailbox = None, pa_domain = ''h.cz''\<rparr>"
  "parse_recipient ''firma+a@x@h.cz'' {''h.cz''} = Some \<lparr>pa_ds_id = ''firma'', pa_mailbox = Some ''a@x'', pa_domain = ''h.cz''\<rparr>"
  "parse_recipient ''firma+a@y@h.cz'' {''h.cz''} = Some \<lparr>pa_ds_id = ''firma'', pa_mailbox = Some ''a@y'', pa_domain = ''h.cz''\<rparr>"
  by code_simp+

lemma toy_simps: "settled (re_obs (calm f)) (rc_lookup toy_receiver)" "lt_hosts (rc_lookup toy_receiver) = {''h.cz''}"
  "allowed_domains ob known_table = Ok ({''h.cz''}, known_table)" "db_inv (rc_queue toy_receiver)"
  "rc_lookup toy_receiver = known_table" "lt_hosts known_table = {''h.cz''}" "settled ob known_table"
  using known_settled db_inv_init by (simp_all add: toy_receiver_def known_table_def allowed_domains_def refresh_def)

lemma toy_data:
  "\<exists>r'. handle_DATA (toy_lib (Ok toy_message)) (\<lambda>_. calm None) (toy_envelope [''firma@h.cz'']) toy_receiver = (Ok ''250 OK'', r')"
  "handle_DATA (toy_lib (Ok toy_message)) (\<lambda>_. calm (Some OSError)) (toy_envelope [''firma@h.cz'']) toy_receiver =
     (Ok ''451 4.3.0 Temporary failure, try again later'', toy_receiver)"
  by (simp_all add: handle_DATA_def toy_message_id toy_envelope_def toy_simps toy_parse calm_def with_envs_few Let_def)

theorem ack_means_stored_witness:
  "\<exists>r'. handle_DATA (toy_lib (Ok toy_message)) (\<lambda>_. calm None) (toy_envelope [''firma@h.cz'']) toy_receiver = (Ok ''250 OK'', r') \<and>
     key_view (rc_queue r') (idempotency_key ''h.cz'' ''firma'' ''<m1>'') =
       Some (rcpt_mail (Some ''<m1>'') ''raw'' ''s@x'' ''0'' \<lparr>pa_ds_id = ''firma'', pa_mailbox = None, pa_domain = ''h.cz''\<rparr> ''firma@h.cz'', Pending, 0)"
proof -
  obtain r' where r': "handle_DATA (toy_lib (Ok toy_message)) (\<lambda>_. calm None) (toy_envelope [''firma@h.cz'']) toy_receiver = (Ok ''250 OK'', r')"
    using toy_data(1) by blast
  have key: "rcpt_key (Some ''<m1>'') \<lparr>pa_ds_id = ''firma'', pa_mailbox = None, pa_domain = ''h.cz''\<rparr> ''firma@h.cz'' ''0'' =
      idempotency_key ''h.cz'' ''firma'' ''<m1>''"
    by (simp add: rcpt_key_def non_empty_def opt_str_def before_first_def)
  have clock: "clock_ok (re_now (calm None))" and uuid: "re_uuid (calm None) = ''0''" by (simp_all add: calm_def)
  have ds: "domains_read (with_envs (\<lambda>_. calm None) [''firma@h.cz'']) (rc_lookup toy_receiver) = [{''h.cz''}]"
    by (simp add: with_envs_few toy_simps)
  have "key_view (rc_queue r') (idempotency_key ''h.cz'' ''firma'' ''<m1>'') =
      Some (rcpt_mail (Some ''<m1>'') ''raw'' ''s@x'' ''0'' \<lparr>pa_ds_id = ''firma'', pa_mailbox = None, pa_domain = ''h.cz''\<rparr> ''firma@h.cz'', Pending, 0)"
    using ack_means_stored [OF r' toy_message_id clock toy_simps(4) refl refl refl refl refl] uuid
    by (simp add: toy_envelope_def ds toy_parse key opt_str_def)
      (simp add: toy_receiver_def key_view_def find_key_def Queue_init_def)
  with r' show ?thesis by blast
qed

theorem redelivery_stores_once_witness:
  "\<exists>r2. handle_DATA (toy_lib (Ok toy_message)) (\<lambda>_. calm None) (toy_envelope [''firma@h.cz'']) toy_receiver = (Ok ''250 OK'', r2) \<and>
     key_view (rc_queue r2) = foldl put (key_view (rc_queue toy_receiver))
       (mails_of (Some ''<m1>'') ''raw'' ''s@x'' {''h.cz''} [(''firma@h.cz'', calm None)])"
proof -
  obtain r2 where r2: "handle_DATA (toy_lib (Ok toy_message)) (\<lambda>_. calm None) (toy_envelope [''firma@h.cz'']) toy_receiver = (Ok ''250 OK'', r2)"
    using toy_data(1) by blast
  have "non_empty (Some ''<m1>'')" by (simp add: non_empty_def opt_str_def)
  then have "key_view (rc_queue r2) = foldl put (key_view (rc_queue toy_receiver))
      (mails_of (Some ''<m1>'') ''raw'' ''s@x'' {''h.cz''} [(''firma@h.cz'', calm None)])"
    using redelivery_stores_once [OF toy_data(2) r2 toy_message_id _ toy_simps(1) toy_simps(1)] unfolding toy_simps
    by (simp add: toy_envelope_def opt_str_def with_envs_few del: mails_of.simps)
  with r2 show ?thesis by blast
qed

text \<open>C24 - safety: two accepted recipients of one message whose local parts agree up to the
  first \<open>@\<close> share a key. The message is acknowledged and the second recipient has no row: its
  copy is dropped as a duplicate although the mailboxes differ.\<close>

theorem shared_key_drops_recipient:
  assumes "handle_DATA el envs envelope r = (Ok ''250 OK'', r')" and "env_rcpt_tos envelope = [a, b]"
    and "extract_message_id el (opt_str (env_content envelope)) = Ok mid" and "non_empty mid"
    and "\<And>i. settled (re_obs (envs i)) (rc_lookup r)"
    and "parse_recipient a (lt_hosts (rc_lookup r)) = Some p" and "parse_recipient b (lt_hosts (rc_lookup r)) = Some q"
    and "pa_domain p = pa_domain q" and "before_first (CHR ''@'') a = before_first (CHR ''@'') b"
    and "rc_queue r = Queue_init None"
  shows "key_view (rc_queue r') = [rcpt_key mid p a ''''  \<mapsto>
      (rcpt_mail mid (opt_str (env_content envelope)) (opt_str (env_mail_from envelope)) '''' p a, Pending, 0)]"
proof -
  let ?raw = "opt_str (env_content envelope)" and ?from = "opt_str (env_mail_from envelope)"
  let ?xs = "with_envs envs [a, b]"
  have s: "all_settled ?xs (rc_lookup r)" unfolding all_settled_def using assms(5) by (rule list_all_with_envs)
  have run: "r' = snd (enqueue_all mid ?raw ?from ?xs r)" "fst (enqueue_all mid ?raw ?from ?xs r) = Ok ()"
    using handle_DATA_cases(1,2) [OF assms(1,3) refl] by (simp_all add: assms(2))
  define K where "K = rcpt_key mid p a ''''"
  have key: "rcpt_key mid p a u = K" "rcpt_key mid q b u = K" for u
    using assms(4,8,9) by (simp_all add: K_def rcpt_key_def)
  have mails: "mails_of mid ?raw ?from (lt_hosts (rc_lookup r)) ?xs =
      [rcpt_mail mid ?raw ?from (re_uuid (envs 0)) p a, rcpt_mail mid ?raw ?from (re_uuid (envs 1)) q b]"
    by (simp add: with_envs_few assms(6,7))
  have "key_view (rc_queue r) = Map.empty"
    by (simp add: assms(10) key_view_def find_key_def Queue_init_def fun_eq_iff)
  then have "key_view (rc_queue r') = foldl put Map.empty (mails_of mid ?raw ?from (lt_hosts (rc_lookup r)) ?xs)"
    using enqueue_all_view [OF s, of mid ?raw ?from] run by auto
  then show ?thesis unfolding mails by (simp add: put_def rcpt_mail_def key)
qed

theorem shared_key_drops_recipient_witness:
  "\<exists>r' k v. handle_DATA (toy_lib (Ok toy_message)) (\<lambda>_. calm None) (toy_envelope [''firma+a@x@h.cz'', ''firma+a@y@h.cz'']) toy_receiver = (Ok ''250 OK'', r') \<and>
     key_view (rc_queue r') = [k \<mapsto> v] \<and> m_mailbox (fst v) = Some ''a@x''"
proof -
  let ?env = "toy_envelope [''firma+a@x@h.cz'', ''firma+a@y@h.cz'']"
  obtain r' where r': "handle_DATA (toy_lib (Ok toy_message)) (\<lambda>_. calm None) ?env toy_receiver = (Ok ''250 OK'', r')"
    by (simp add: handle_DATA_def toy_message_id toy_envelope_def toy_simps toy_parse calm_def with_envs_few Let_def)
  have "before_first (CHR ''@'') ''firma+a@x@h.cz'' = before_first (CHR ''@'') ''firma+a@y@h.cz''" by code_simp
  then have "key_view (rc_queue r') = [rcpt_key (Some ''<m1>'') \<lparr>pa_ds_id = ''firma'', pa_mailbox = Some ''a@x'', pa_domain = ''h.cz''\<rparr> ''firma+a@x@h.cz'' '''' \<mapsto>
      (rcpt_mail (Some ''<m1>'') ''raw'' ''s@x'' '''' \<lparr>pa_ds_id = ''firma'', pa_mailbox = Some ''a@x'', pa_domain = ''h.cz''\<rparr> ''firma+a@x@h.cz'', Pending, 0)]"
    using shared_key_drops_recipient [OF r' _ toy_message_id, of "''firma+a@x@h.cz''" "''firma+a@y@h.cz''", OF _ _ toy_simps(1)]
    unfolding toy_simps toy_parse
    by (auto simp add: toy_envelope_def non_empty_def opt_str_def toy_receiver_def)
  with r' show ?thesis by (intro exI conjI) (assumption, assumption, simp add: rcpt_mail_def)
qed

section \<open>A reload between RCPT and DATA\<close>

text \<open>C35 - error: \<open>handle_DATA\<close> parses the recipients again over the table of that moment. When the
  lookup document has lost the domain since the recipient was accepted, the recipient is
  skipped, and the message is acknowledged with nothing stored for it.\<close>

theorem reload_drops_recipient:
  assumes "handle_RCPT ob1 ob2 a env (rc_lookup r) = (Ok ''250 OK'', env', t)" and "env_rcpt_tos env = []"
    and "extract_message_id el (opt_str (env_content env')) = Ok mid"
    and "allowed_domains (re_obs (envs 0)) t = Ok (D, t')" and "py_lower (after_last (CHR ''@'') a) \<notin> D"
  shows "handle_DATA el envs env' (r\<lparr>rc_lookup := t\<rparr>) = (Ok ''250 OK'', r\<lparr>rc_lookup := t'\<rparr>)"
proof -
  have tos: "env_rcpt_tos env' = [a]"
    using assms(1,2) by (auto simp: handle_RCPT_def split: sum.splits option.splits)
  have "parse_recipient a D = None" using assms(5) by (simp add: parse_recipient_def Let_def)
  with assms(3,4) tos show ?thesis by (simp add: handle_DATA_def with_envs_few Let_def)
qed

theorem reload_drops_recipient_witness:
  "\<exists>t t'. handle_RCPT (quiet None) (quiet None) ''firma@h.cz'' (toy_envelope []) (known_table\<lparr>lt_auto_reload := True\<rparr>) =
      (Ok ''250 OK'', toy_envelope [''firma@h.cz''], t) \<and>
    handle_DATA (toy_lib (Ok toy_message)) (\<lambda>_. (calm None)\<lparr>re_obs := quiet (Some \<lparr>f_text = ''{}'', f_mtime = 8\<rparr>)\<rparr>)
      (toy_envelope [''firma@h.cz'']) \<lparr>rc_lookup = t, rc_queue = Queue_init None\<rparr> =
      (Ok ''250 OK'', \<lparr>rc_lookup = t', rc_queue = Queue_init None\<rparr>)"
proof -
  let ?t = "known_table\<lparr>lt_auto_reload := True\<rparr>"
  let ?f = "\<lparr>f_text = ''{}'', f_mtime = 8\<rparr>"
  let ?envs = "\<lambda>_::nat. (calm None)\<lparr>re_obs := quiet (Some ?f)\<rparr>"
  let ?r = "\<lparr>rc_lookup = ?t, rc_queue = Queue_init None\<rparr>"
  have settled: "settled (quiet None) ?t" by (simp add: settled_def refresh_def maybe_reload_def quiet_def)
  have rcpt: "handle_RCPT (quiet None) (quiet None) ''firma@h.cz'' (toy_envelope []) (rc_lookup ?r) =
      (Ok ''250 OK'', toy_envelope [''firma@h.cz''], ?t)"
  proof -
    have "find_ds ?t ''firma'' = Some sample_cfg" by code_simp
    with settled show ?thesis
      by (simp add: handle_RCPT_def allowed_domains_def resolve_def settled_def toy_simps toy_parse toy_envelope_def)
  qed
  have "json_loads ''{}'' = Ok (JObj [])" by code_simp
  then have "parse_lookup ''{}'' = Ok ({}, Map.empty)"
    by (simp add: parse_lookup_def get_default_def dict_get_def py_iter_def py_get_def)
  then obtain t' where t': "allowed_domains (re_obs (?envs 0)) ?t = Ok ({}, t')"
    by (simp add: allowed_domains_def refresh_def maybe_reload_def quiet_def load_table_def known_table_def)
  have "handle_DATA (toy_lib (Ok toy_message)) ?envs (toy_envelope [''firma@h.cz'']) (?r\<lparr>rc_lookup := ?t\<rparr>) =
      (Ok ''250 OK'', ?r\<lparr>rc_lookup := t'\<rparr>)"
    by (rule reload_drops_recipient [OF rcpt _ toy_message_id t']) (simp_all add: toy_envelope_def)
  with rcpt show ?thesis by (intro exI [of _ ?t] exI [of _ t']) simp
qed

end
