(* ===== verification/Client.thy ===== *)
theory Client
  imports Models Json
begin

text \<open>
  \<open>mail_router/client.py\<close>: the request that carries one mail to its data source, and the
  reading of the answer. \<open>httpx\<close> is the environment: \<open>post\<close> maps a request to a response
  or to one of the exceptions the code tells apart.
\<close>

section \<open>Data\<close>

record http_response =
  hr_status :: int
  hr_text :: string
  hr_json :: "json result"

datatype post_outcome =
    Response http_response
  | Timeout string
  | Http_Error string
  | Post_Raises exn

record delivery_result =
  dr_status_code :: int
  dr_retry :: bool
  dr_message_id :: json
  dr_error :: "string option"
  dr_idempotent_replay :: bool

definition success :: "delivery_result \<Rightarrow> bool" where
  "success r \<longleftrightarrow> dr_status_code r = 201 \<and> dr_error r = None"

record request =
  rq_url :: string
  rq_data :: "(string \<times> string) list"
  rq_files :: "(string \<times> string \<times> string \<times> string) list"
  rq_headers :: "(string \<times> string) list"

definition ENDPOINT_PATH :: string where
  "ENDPOINT_PATH = ''/api/v1/_mail/incoming''"

definition DEAD_LETTER_STATUSES :: "int list" where
  "DEAD_LETTER_STATUSES = [400, 401, 403, 404, 409, 413, 415, 422]"

section \<open>The request\<close>

definition iso8601_with_tz :: "datetime option \<Rightarrow> datetime \<Rightarrow> string" where
  "iso8601_with_tz dt fallback = (let target = (case dt of None \<Rightarrow> fallback | Some d \<Rightarrow> d)
     in isoformat_seconds (if dt_tz target = None then replace_tz (Some 0) target else target))"

text \<open>\<open>if v: d[k] = v\<close> for an optional text.\<close>

definition put_if :: "string \<Rightarrow> string option \<Rightarrow> (string \<times> string) list \<Rightarrow> (string \<times> string) list" where
  "put_if k v d = (case v of None \<Rightarrow> d | Some s \<Rightarrow> if s = '''' then d else dict_set d k s)"

definition form_data :: "string option \<Rightarrow> datetime \<Rightarrow> parsed_email \<Rightarrow> (string \<times> string) list" where
  "form_data mailbox received_at_fallback parsed =
     put_if ''reply_references'' (pe_references parsed)
    (put_if ''in_reply_to'' (pe_in_reply_to parsed)
    (put_if ''body_html'' (pe_body_html parsed)
    (put_if ''body_plain'' (pe_body_plain parsed)
    (put_if ''sender_name'' (pe_sender_name parsed)
    (put_if ''external_message_id'' (pe_message_id parsed)
    (put_if ''mailbox'' mailbox
      [(''received_at'', iso8601_with_tz (pe_date parsed) received_at_fallback),
       (''sender_email'', pe_sender_email parsed),
       (''subject'', pe_subject parsed)]))))))"

definition form_files :: "string \<Rightarrow> attachment list \<Rightarrow> (string \<times> string \<times> string \<times> string) list" where
  "form_files raw_eml atts = (''raw_source'', ''message.eml'', raw_eml, ''message/rfc822'') #
     map (\<lambda>a. (''attachments[]'', att_filename a, att_content a, att_content_type a)) atts"

definition build_request ::
    "ds_config \<Rightarrow> string option \<Rightarrow> datetime \<Rightarrow> parsed_email \<Rightarrow> string \<Rightarrow> string option \<Rightarrow> request" where
  "build_request ds mailbox received_at_fallback parsed raw_eml key = \<lparr>
     rq_url = api_url ds @ ENDPOINT_PATH,
     rq_data = form_data mailbox received_at_fallback parsed,
     rq_files = form_files raw_eml (pe_attachments parsed),
     rq_headers = put_if ''X-Idempotency-Key'' key
       [(''Authorization'', ''Bearer '' @ api_token ds), (''Accept'', ''application/json'')]\<rparr>"

section \<open>The answer\<close>

text \<open>\<open>response.json()\<close> with \<open>except ValueError\<close>; \<open>JNull\<close> is \<open>None\<close>.\<close>

definition body_json :: "http_response \<Rightarrow> json result" where
  "body_json resp = (case hr_json resp of
     Inr v \<Rightarrow> Ok v
   | Inl e \<Rightarrow> if e = ValueError \<or> e = JSONDecodeError then Ok JNull else Raise e)"

definition error_text :: "http_response \<Rightarrow> json \<Rightarrow> string result" where
  "error_text resp body = bind_result (if truthy body then py_get body ''error'' else Ok JNull) (\<lambda>err.
     case err of
       JObj d \<Rightarrow> Ok (strip_chars '': '' (py_str (dict_get d ''code'' (JStr ''?'')) @ '': '' @
          py_str (dict_get d ''message'' (JStr ''''))))
     | _ \<Rightarrow> Ok (''HTTP '' @ int_str (hr_status resp) @ '': '' @ take 2000 (hr_text resp)))"

definition should_retry :: "int \<Rightarrow> bool" where
  "should_retry status = (let retry = (status \<notin> set DEAD_LETTER_STATUSES \<and> status \<ge> 500)
     in if 200 \<le> status \<and> status < 500 \<and> status \<noteq> 201 then False else retry)"

definition interpret_response :: "http_response \<Rightarrow> delivery_result result" where
  "interpret_response resp = bind_result (body_json resp) (\<lambda>body.
     let status = hr_status resp in
     bind_result (if status = 201 \<and> truthy body then py_get body ''success'' else Ok JNull) (\<lambda>ok.
       if truthy ok then
         bind_result (py_get body ''data'') (\<lambda>data.
         let data = (if truthy data then data else JObj []) in
         bind_result (py_get data ''message_id'') (\<lambda>mid.
         bind_result (py_get data ''idempotent_replay'') (\<lambda>replay.
           Ok \<lparr>dr_status_code = 201, dr_retry = False, dr_message_id = mid, dr_error = None,
               dr_idempotent_replay = truthy replay\<rparr>)))
       else
         bind_result (error_text resp body) (\<lambda>msg.
           Ok \<lparr>dr_status_code = status, dr_retry = should_retry status, dr_message_id = JNull,
               dr_error = Some msg, dr_idempotent_replay = False\<rparr>)))"

definition no_answer :: "string \<Rightarrow> delivery_result" where
  "no_answer err = \<lparr>dr_status_code = 0, dr_retry = True, dr_message_id = JNull, dr_error = Some err,
     dr_idempotent_replay = False\<rparr>"

definition send :: "(request \<Rightarrow> post_outcome) \<Rightarrow> ds_config \<Rightarrow> string option \<Rightarrow> datetime \<Rightarrow> parsed_email \<Rightarrow>
    string \<Rightarrow> string option \<Rightarrow> delivery_result result" where
  "send post ds mailbox received_at_fallback parsed raw_eml key =
     (case post (build_request ds mailbox received_at_fallback parsed raw_eml key) of
        Timeout exc \<Rightarrow> Ok (no_answer (''timeout: '' @ exc))
      | Http_Error exc \<Rightarrow> Ok (no_answer (''network: '' @ exc))
      | Post_Raises e \<Rightarrow> Raise e
      | Response resp \<Rightarrow> interpret_response resp)"

section \<open>How answers are classified\<close>

text \<open>A body that the code can read: nothing, or an object whose \<open>data\<close>, if used, is one too.\<close>

definition confirms :: "http_response \<Rightarrow> json \<Rightarrow> bool" where
  "confirms resp body \<longleftrightarrow> hr_status resp = 201 \<and>
     (case body of JObj d \<Rightarrow> truthy (dict_get d ''success'' JNull) | _ \<Rightarrow> False)"

definition readable :: "http_response \<Rightarrow> json \<Rightarrow> bool" where
  "readable resp body \<longleftrightarrow> (truthy body \<longrightarrow> is_dict body) \<and>
     (confirms resp body \<longrightarrow> (case body of JObj d \<Rightarrow>
        (truthy (dict_get d ''data'' JNull) \<longrightarrow> is_dict (dict_get d ''data'' JNull)) | _ \<Rightarrow> True))"

lemma py_get_obj [simp]: "py_get (JObj d) k = Ok (dict_get d k JNull)"
  by (simp add: py_get_def dict_get_def)

lemma dict_get_Nil: "truthy (dict_get d k JNull) \<Longrightarrow> d \<noteq> []"
  by (auto simp: dict_get_def)

lemma py_get_raises: "\<not> is_dict v \<Longrightarrow> py_get v k = Raise AttributeError"
  by (cases v) (simp_all add: is_dict_def py_get_def)

lemma is_dict_iff: "is_dict v \<longleftrightarrow> (\<exists>d. v = JObj d)"
  by (cases v) (simp_all add: is_dict_def)

lemma should_retry_iff: "should_retry status \<longleftrightarrow> status \<ge> 500"
  by (auto simp: should_retry_def DEAD_LETTER_STATUSES_def Let_def)

lemma error_text_ok: "(truthy body \<longrightarrow> is_dict body) \<Longrightarrow> \<exists>msg. error_text resp body = Ok msg"
proof (cases "truthy body")
  case True
  assume "truthy body \<longrightarrow> is_dict body"
  with True obtain d where "body = JObj d" by (auto simp: is_dict_iff)
  then show ?thesis by (cases "dict_get d ''error'' JNull") (simp_all add: error_text_def del: truthy.simps)
qed (simp add: error_text_def)

text \<open>C28 - functional: how an answer is classified. The mail counts as delivered exactly on
  status 201 with a true \<open>success\<close>; otherwise the delivery is retried exactly when the status
  is 500 or above. So 408 and 429 are final, and so is any other 2xx.\<close>

theorem answer_classification:
  assumes "interpret_response resp = Ok r" and "body_json resp = Ok body"
  shows "(success r \<longleftrightarrow> confirms resp body) \<and>
    (\<not> success r \<longrightarrow> (dr_retry r \<longleftrightarrow> hr_status resp \<ge> 500) \<and> dr_error r \<noteq> None) \<and>
    dr_status_code r = hr_status resp \<and> \<not> (success r \<and> dr_retry r)"
proof (cases "confirms resp body")
  case True
  then obtain d where "body = JObj d" "hr_status resp = 201" "truthy (dict_get d ''success'' JNull)" "d \<noteq> []"
    by (cases body) (auto simp: confirms_def dict_get_Nil)
  then show ?thesis using assms True by (auto simp: interpret_response_def Let_def success_def)
next
  case False
  then have "\<exists>msg. r = \<lparr>dr_status_code = hr_status resp, dr_retry = should_retry (hr_status resp),
      dr_message_id = JNull, dr_error = Some msg, dr_idempotent_replay = False\<rparr>"
    using assms by (cases body) (auto simp: interpret_response_def confirms_def py_get_def dict_get_def Let_def split: if_splits)
  then show ?thesis using False by (auto simp: success_def should_retry_iff)
qed

definition answer :: "int \<Rightarrow> json result \<Rightarrow> http_response" where
  "answer status j = \<lparr>hr_status = status, hr_text = ''t'', hr_json = j\<rparr>"

theorem answer_classification_witness:
  "\<exists>r. interpret_response (answer 429 (Raise JSONDecodeError)) = Ok r \<and> \<not> success r \<and> \<not> dr_retry r"
proof -
  obtain r where r: "interpret_response (answer 429 (Raise JSONDecodeError)) = Ok r"
    by (simp add: interpret_response_def answer_def body_json_def error_text_def)
  have b: "body_json (answer 429 (Raise JSONDecodeError)) = Ok JNull" by (simp add: body_json_def answer_def)
  show ?thesis using answer_classification [OF r b] r by (auto simp: confirms_def answer_def)
qed

text \<open>error: when the reading of an answer raises. A JSON body that is no object (a list, a
  string, a number) raises \<open>AttributeError\<close> for any status, as does a confirmed delivery whose
  \<open>data\<close> is no object; every other answer is classified. Nothing in the worker catches it.\<close>

theorem unreadable_answer_raises:
  "body_json resp = Ok body \<Longrightarrow>
   (if readable resp body then \<exists>r. interpret_response resp = Ok r else interpret_response resp = Raise AttributeError)"
proof -
  assume b: "body_json resp = Ok body"
  consider "\<not> truthy body" | "truthy body" "\<not> is_dict body" | d where "body = JObj d" "d \<noteq> []"
    by (cases body) (auto simp: is_dict_def)
  then show ?thesis
  proof cases
    case 1
    then have "\<not> confirms resp body"
      by (cases body) (auto simp: confirms_def dict_get_def)
    then show ?thesis using 1 b error_text_ok [of body resp] by (auto simp: readable_def interpret_response_def Let_def)
  next
    case 2
    then show ?thesis using b
      by (auto simp: readable_def interpret_response_def Let_def py_get_raises error_text_def)
  next
    case 3
    then have "is_dict body" by (simp add: is_dict_def)
    then show ?thesis
      using 3 b error_text_ok [of body resp]
      by (auto simp: readable_def confirms_def interpret_response_def Let_def py_get_raises is_dict_iff)
  qed
qed

theorem unreadable_answer_raises_witness:
  "interpret_response (answer 502 (Ok (JStr ''bad gateway''))) = Raise AttributeError"
proof -
  have "body_json (answer 502 (Ok (JStr ''bad gateway''))) = Ok (JStr ''bad gateway'')"
    by (simp add: body_json_def answer_def)
  from unreadable_answer_raises [OF this] show ?thesis by (simp add: readable_def is_dict_def)
qed

section \<open>What the request carries\<close>

definition given :: "string option \<Rightarrow> string option" where
  "given v = (if v = Some '''' then None else v)"

lemma put_if_map: "map_of (put_if k v d) k' = (if k' = k \<and> given v \<noteq> None then given v else map_of d k')"
  by (cases v) (auto simp: put_if_def given_def)

lemma put_if_distinct: "distinct (map fst d) \<Longrightarrow> distinct (map fst (put_if k v d))"
  by (simp add: put_if_def split: option.split)

text \<open>What a request says: the form field and the header under each name, and the files.\<close>

lemma request_fields:
  "map_of (rq_data (build_request ds mailbox fallback parsed raw_eml key)) k =
    (if k = ''received_at'' then Some (iso8601_with_tz (pe_date parsed) fallback)
     else if k = ''sender_email'' then Some (pe_sender_email parsed)
     else if k = ''subject'' then Some (pe_subject parsed)
     else if k = ''mailbox'' then given mailbox
     else if k = ''external_message_id'' then given (pe_message_id parsed)
     else if k = ''sender_name'' then given (pe_sender_name parsed)
     else if k = ''body_plain'' then given (pe_body_plain parsed)
     else if k = ''body_html'' then given (pe_body_html parsed)
     else if k = ''in_reply_to'' then given (pe_in_reply_to parsed)
     else if k = ''reply_references'' then given (pe_references parsed) else None)"
  (is "?field k = ?part k")
proof (cases "k \<in> set [''received_at'', ''sender_email'', ''subject'', ''mailbox'', ''external_message_id'', ''sender_name'',
    ''body_plain'', ''body_html'', ''in_reply_to'', ''reply_references'']")
  case True
  have "\<forall>k \<in> set [''received_at'', ''sender_email'', ''subject'', ''mailbox'', ''external_message_id'', ''sender_name'',
    ''body_plain'', ''body_html'', ''in_reply_to'', ''reply_references'']. ?field k = ?part k"
    by (simp add: build_request_def form_data_def put_if_map)
  from this [THEN bspec, OF True] show ?thesis .
next
  case False
  then show ?thesis by (simp add: build_request_def form_data_def put_if_map)
qed

lemma request_headers_at:
  "map_of (rq_headers (build_request ds mailbox fallback parsed raw_eml key)) k =
    (if k = ''Authorization'' then Some (''Bearer '' @ api_token ds) else if k = ''Accept'' then Some ''application/json''
     else if k = ''X-Idempotency-Key'' then given key else None)"
  by (auto simp: build_request_def put_if_map)

lemma form_files_inj: "form_files raw atts = form_files raw' atts' \<Longrightarrow> raw = raw' \<and> atts = atts'"
proof -
  assume eq: "form_files raw atts = form_files raw' atts'"
  have "inj (\<lambda>a :: attachment. (''attachments[]'', att_filename a, att_content a, att_content_type a))"
    by (rule injI) simp
  then have "map (\<lambda>a :: attachment. (''attachments[]'', att_filename a, att_content a, att_content_type a)) atts =
      map (\<lambda>a. (''attachments[]'', att_filename a, att_content a, att_content_type a)) atts' \<longleftrightarrow> atts = atts'"
    by (rule inj_map_eq_map)
  with eq show ?thesis by (simp add: form_files_def)
qed


definition bare_mail :: parsed_email where
  "bare_mail = \<lparr>pe_subject = ''s'', pe_sender_email = ''a@b'', pe_sender_name = None, pe_message_id = Some ''<m1>'',
     pe_in_reply_to = None, pe_references = None, pe_date = None, pe_body_plain = Some ''x'', pe_body_html = None,
     pe_attachments = []\<rparr>"


end
