(* ===== verification/Alerts.thy ===== *)
theory Alerts
  imports Models
begin

text \<open>
  \<open>mail_router/alerts.py\<close>: alert mails with one throttle per event type. The clock is
  \<open>time.monotonic\<close>, in whole microseconds since some start. What becomes of an alert is an
  argument: SMTP takes it or fails, or already the construction of the \<open>EmailMessage\<close> raises (a
  header value with a line end, a body that cannot be encoded), which no handler catches.
\<close>

section \<open>State\<close>

record alerter =
  at_config :: alerts_config
  at_throttle :: "string \<Rightarrow> nat option"

record alert =
  ar_from :: string
  ar_to :: "string list"
  ar_subject :: string
  ar_body :: string

datatype mail_fate = Smtp_Ok | Smtp_Fails | Build_Raises exn

definition Alerter_init :: "alerts_config \<Rightarrow> alerter" where
  "Alerter_init config = \<lparr>at_config = config, at_throttle = Map.empty\<rparr>"

section \<open>Operations\<close>

text \<open>
  \<open>notify\<close>: the answer, the message handed to SMTP (if any) and the new state. The table keeps
  a slot for every event seen; a slot of value 0 counts as never sent.
\<close>

definition notify :: "nat \<Rightarrow> mail_fate \<Rightarrow> string \<Rightarrow> string \<Rightarrow> string \<Rightarrow> alerter \<Rightarrow> bool result \<times> alert option \<times> alerter" where
  "notify now fate event subject body a =
     (if \<not> al_enabled (at_config a) then (Ok False, None, a)
      else if to_addresses (at_config a) = [] then (Ok False, None, a)
      else
        let last_sent = (case at_throttle a event of None \<Rightarrow> 0 | Some t \<Rightarrow> t) in
        if last_sent \<noteq> 0 \<and> int now - int last_sent < throttle (at_config a) * 1000000
        then (Ok False, None, a\<lparr>at_throttle := (at_throttle a)(event \<mapsto> last_sent)\<rparr>)
        else
          let a1 = a\<lparr>at_throttle := (at_throttle a)(event \<mapsto> now)\<rparr>;
              msg = \<lparr>ar_from = from_address (at_config a), ar_to = to_addresses (at_config a),
                ar_subject = ''[mail-router] '' @ subject, ar_body = body\<rparr> in
          (case fate of
             Build_Raises e \<Rightarrow> (Raise e, None, a1)
           | Smtp_Fails \<Rightarrow> (Ok False, Some msg, a1)
           | Smtp_Ok \<Rightarrow> (Ok True, Some msg, a1)))"

text \<open>It raises only what the construction of the message raises.\<close>

lemma notify_raises: "notify now fate event subject body a = (Raise e, m, a') \<Longrightarrow> fate = Build_Raises e"
  by (auto simp: notify_def Let_def split: if_splits mail_fate.splits)

lemma notify_returns: "(\<And>e. fate \<noteq> Build_Raises e) \<Longrightarrow> \<exists>b. fst (notify now fate event subject body a) = Ok b"
  by (cases fate) (auto simp: notify_def Let_def)

section \<open>The throttle\<close>

text \<open>A sequence of notifications: the time, what becomes of the mail, the event, subject and body.\<close>

type_synonym notice = "nat \<times> mail_fate \<times> string \<times> string \<times> string"

text \<open>The mails handed to SMTP, each with its time.\<close>

fun notices :: "notice list \<Rightarrow> alerter \<Rightarrow> (nat \<times> string) list" where
  "notices [] a = []"
| "notices ((now, ok, event, subject, body) # ns) a =
     (case notify now ok event subject body a of
        (b, None, a') \<Rightarrow> notices ns a'
      | (b, Some m, a') \<Rightarrow> (now, event) # notices ns a')"

definition last_sent_at :: "alerter \<Rightarrow> string \<Rightarrow> nat" where
  "last_sent_at a event = (case at_throttle a event of None \<Rightarrow> 0 | Some t \<Rightarrow> t)"

lemma notify_last:
  "notify now ok event subject body a = (b, m, a') \<Longrightarrow>
   at_config a' = at_config a \<and> (\<forall>e. e \<noteq> event \<longrightarrow> last_sent_at a' e = last_sent_at a e) \<and>
   (last_sent_at a' event = last_sent_at a event \<or> last_sent_at a' event = now) \<and>
   (m \<noteq> None \<longrightarrow> last_sent_at a' event = now \<and>
     (last_sent_at a event = 0 \<or> throttle (at_config a) * 1000000 \<le> int now - int (last_sent_at a event)))"
  by (auto simp: notify_def last_sent_at_def Let_def split: if_splits option.splits mail_fate.splits)

text \<open>Every alert of an event is later than the last one by the throttle.\<close>

lemma notices_after:
  "(u, event) \<in> set (notices ns a) \<Longrightarrow> sorted (map fst ns) \<Longrightarrow> \<forall>n \<in> set ns. last_sent_at a event \<le> fst n \<and> 0 < fst n \<Longrightarrow>
   0 < last_sent_at a event \<Longrightarrow> throttle (at_config a) * 1000000 \<le> int u - int (last_sent_at a event)"
proof (induction ns arbitrary: a)
  case (Cons n ns)
  obtain now ok ev subject body where n: "n = (now, ok, ev, subject, body)" by (metis prod_cases5)
  obtain b m a' where nt: "notify now ok ev subject body a = (b, m, a')" by (metis prod_cases3)
  note last = notify_last [OF nt]
  have rest: "sorted (map fst ns)" "\<forall>x \<in> set ns. now \<le> fst x \<and> 0 < fst x" using Cons.prems n by auto
  have now: "0 < now" "last_sent_at a event \<le> now" using Cons.prems(3) by (auto simp: n)
  have later: "last_sent_at a event \<le> last_sent_at a' event" "last_sent_at a' event \<le> now"
    using last now(2) by (cases "ev = event"; auto)+
  have ih: "throttle (at_config a) * 1000000 \<le> int u - int (last_sent_at a event)" if "(u, event) \<in> set (notices ns a')"
  proof -
    have "throttle (at_config a') * 1000000 \<le> int u - int (last_sent_at a' event)"
      using that rest later Cons.prems(4) by (intro Cons.IH) (auto intro: order_trans)
    then show ?thesis using last later(1) by simp
  qed
  show ?case
  proof (cases m)
    case None
    then show ?thesis using ih Cons.prems(1) n nt by simp
  next
    case (Some x)
    then have "(u, event) = (now, ev) \<or> (u, event) \<in> set (notices ns a')" using Cons.prems(1) n nt by auto
    then show ?thesis using ih last Some Cons.prems(4) by auto
  qed
qed simp

text \<open>C39 - safety: rate limit. Over any run of notifications with a clock that does not go
  back (and is past its zero), two mails of one event are at least the throttle apart,
  whatever other events are notified in between.\<close>

theorem alerts_rate_limited:
  assumes "sorted (map fst ns)" and "\<forall>n \<in> set ns. 0 < fst n" and "i < j" and "j < length (notices ns a)"
    and "snd (notices ns a ! i) = snd (notices ns a ! j)"
  shows "throttle (at_config a) * 1000000 \<le> int (fst (notices ns a ! j)) - int (fst (notices ns a ! i))"
  using assms
proof (induction ns arbitrary: a i j)
  case (Cons n ns)
  obtain now ok ev subject body where n: "n = (now, ok, ev, subject, body)" by (metis prod_cases5)
  obtain b m a' where nt: "notify now ok ev subject body a = (b, m, a')" by (metis prod_cases3)
  note last = notify_last [OF nt]
  have rest: "sorted (map fst ns)" "\<forall>x \<in> set ns. now \<le> fst x \<and> 0 < fst x" "0 < now" using Cons.prems n by auto
  show ?case
  proof (cases m)
    case None
    then show ?thesis using Cons.IH [of i j a'] Cons.prems rest n nt last by auto
  next
    case (Some x)
    then have out: "notices (n # ns) a = (now, ev) # notices ns a'" using n nt by simp
    show ?thesis
    proof (cases i)
      case 0
      obtain k where j: "j = Suc k" using Cons.prems(3) 0 by (cases j) auto
      have "notices ns a' ! k \<in> set (notices ns a')" using Cons.prems(4) out j by simp
      moreover have "snd (notices ns a' ! k) = ev" using Cons.prems(5) out 0 j by simp
      ultimately have "(fst (notices ns a' ! k), ev) \<in> set (notices ns a')" by (metis prod.collapse)
      moreover have at: "last_sent_at a' ev = now" using last Some by simp
      ultimately have "throttle (at_config a') * 1000000 \<le> int (fst (notices ns a' ! k)) - int (last_sent_at a' ev)"
        using rest by (intro notices_after) (simp_all add: at)
      with at have "throttle (at_config a') * 1000000 \<le> int (fst (notices ns a' ! k)) - int now" by simp
      then show ?thesis using last out 0 j by simp
    next
      case (Suc i')
      obtain j' where j: "j = Suc j'" using Cons.prems(3) Suc by (cases j) auto
      show ?thesis using Cons.IH [of i' j' a'] Cons.prems rest out Suc j last by auto
    qed
  qed
qed simp

definition alert_config :: alerts_config where
  "alert_config = default_alerts_config\<lparr>to_addresses := [''admin@h'']\<rparr>"

theorem alerts_rate_limited_witness:
  "notices [(1000000, Smtp_Ok, ''e'', ''s'', ''b''), (5000000, Smtp_Ok, ''e'', ''s'', ''b''), (1801000000, Smtp_Ok, ''e'', ''s'', ''b'')]
     (Alerter_init alert_config) = [(1000000, ''e''), (1801000000, ''e'')] \<and>
   throttle alert_config * 1000000 \<le> 1801000000 - 1000000"
proof -
  let ?ns = "[(1000000, Smtp_Ok, ''e'', ''s'', ''b''), (5000000, Smtp_Ok, ''e'', ''s'', ''b''), (1801000000, Smtp_Ok, ''e'', ''s'', ''b'')]"
  have out: "notices ?ns (Alerter_init alert_config) = [(1000000, ''e''), (1801000000, ''e'')]"
    by (simp add: notify_def Alerter_init_def alert_config_def default_alerts_config_def)
  have "at_config (Alerter_init alert_config) = alert_config" by (simp add: Alerter_init_def)
  then show ?thesis
    using alerts_rate_limited [of ?ns 0 1 "Alerter_init alert_config"] unfolding out by simp
qed

text \<open>error: the throttle starts before the mail is sent. When SMTP fails, the alert is lost
  and the next ones of that event are suppressed as well, until the throttle has passed.\<close>

theorem failed_alert_still_throttles:
  assumes "notify now Smtp_Fails event subject body a = (b, Some m, a')" and "0 < now" and "now \<le> now'"
    and "int now' < int now + throttle (at_config a) * 1000000"
  shows "b = Ok False \<and> fst (notify now' ok event subject' body' a') = Ok False \<and>
    fst (snd (notify now' ok event subject' body' a')) = None"
proof -
  have "al_enabled (at_config a')" "at_throttle a' event = Some now" "at_config a' = at_config a" "b = Ok False"
    using assms(1) by (auto simp: notify_def Let_def split: if_splits option.splits)
  then show ?thesis using assms by (simp add: notify_def Let_def)
qed

theorem failed_alert_still_throttles_witness:
  "fst (snd (notify 9 Smtp_Ok ''e'' ''s'' ''b'' (snd (snd (notify 5 Smtp_Fails ''e'' ''s'' ''b'' (Alerter_init alert_config)))))) = None"
proof -
  obtain a' m where a': "notify 5 Smtp_Fails ''e'' ''s'' ''b'' (Alerter_init alert_config) = (Ok False, Some m, a')"
    by (simp add: notify_def Alerter_init_def alert_config_def default_alerts_config_def)
  show ?thesis
    using failed_alert_still_throttles [OF a', of 9] a'
    by (simp add: Alerter_init_def alert_config_def default_alerts_config_def)
qed

end
