(* ===== verification/Worker.thy ===== *)
theory Worker
  imports Receiver Client Alerts
begin

text \<open>
  \<open>mail_router/worker.py\<close>: the delivery worker. It fetches a batch, delivers every item of it
  and records one of three outcomes; what raises ends the process, and the next start
  requeues what is in flight. The environment of one delivery gives what the lookup
  observes, the data source's answer, the clocks, what becomes of an alert and the exception
  of the recording SQL statement, if it raises one; that of a poll adds the same for the
  fetch and for the count of the queue.
\<close>

section \<open>State and environment\<close>

record worker =
  wk_queue :: db
  wk_lookup :: lookup_table
  wk_alerter :: alerter

record delivery_env =
  en_obs :: obs
  en_post :: "request \<Rightarrow> post_outcome"
  en_now :: datetime
  en_mono :: nat
  en_smtp :: mail_fate
  en_fault :: "exn option"

record tick_env =
  tk_tie :: "row \<Rightarrow> int"
  tk_now :: datetime
  tk_fault :: fault
  tk_items :: "nat \<Rightarrow> delivery_env"
  tk_mono :: nat
  tk_smtp :: mail_fate
  tk_stats :: "exn option"

section \<open>One delivery\<close>

text \<open>\<open>xs[i]\<close> for a Python list: a negative index counts from the end.\<close>

definition py_index :: "'a list \<Rightarrow> int \<Rightarrow> 'a result" where
  "py_index xs i = (let n = int (length xs); j = (if i < 0 then i + n else i) in
     if 0 \<le> j \<and> j < n then Ok (xs ! nat j) else Raise IndexError)"

definition backoff_seconds :: "worker_config \<Rightarrow> int \<Rightarrow> int result" where
  "backoff_seconds cfg attempt = (let idx = min attempt (int (length (backoff cfg)) - 1) in
     py_index (backoff cfg) idx)"

text \<open>What SQLite stores in a \<open>TEXT\<close> column for a bound value; it refuses lists and objects.\<close>

definition bind_text :: "json \<Rightarrow> string option result" where
  "bind_text v = (case v of
     JNull \<Rightarrow> Ok None
   | JStr s \<Rightarrow> Ok (Some s)
   | JBool b \<Rightarrow> Ok (Some (if b then ''1'' else ''0''))
   | JInt i \<Rightarrow> if - (2 ^ 63) \<le> i \<and> i < 2 ^ 63 then Ok (Some (int_str i)) else Raise OverflowError
   | JFloat t \<Rightarrow> Ok (Some t)
   | _ \<Rightarrow> Raise (OtherError ''InterfaceError''))"

definition error_str :: "string option \<Rightarrow> string" where
  "error_str e = (case e of None \<Rightarrow> ''None'' | Some s \<Rightarrow> s)"

text \<open>A recording statement: it raises, or changes the queue.\<close>

definition record_in :: "delivery_env \<Rightarrow> db result \<Rightarrow> worker \<Rightarrow> unit result \<times> worker" where
  "record_in env d w = (case d of
     Inl e \<Rightarrow> (Raise e, w)
   | Inr q \<Rightarrow> (case en_fault env of Some e \<Rightarrow> (Raise e, w) | None \<Rightarrow> (Ok (), w\<lparr>wk_queue := q\<rparr>)))"

definition dead_letter_body :: "queue_item \<Rightarrow> string \<Rightarrow> string" where
  "dead_letter_body item reason = ''Item #'' @ int_str (qi_id item) @ [newline] @
     ''From: '' @ qi_sender_email item @ [newline] @ ''To:   '' @ qi_recipient_email item @ [newline] @
     ''DS:   '' @ qi_ds_id item @ [newline] @ ''Reason: '' @ reason @ [newline]"

text \<open>A notification, and the answer \<open>notify\<close> gives dropped: its exception passes.\<close>

definition notify_of :: "nat \<Rightarrow> mail_fate \<Rightarrow> string \<Rightarrow> string \<Rightarrow> string \<Rightarrow> worker \<Rightarrow> unit result \<times> worker" where
  "notify_of now fate event subject body w =
     (case notify now fate event subject body (wk_alerter w) of
        (Inl e, _, a) \<Rightarrow> (Raise e, w\<lparr>wk_alerter := a\<rparr>)
      | (Inr _, _, a) \<Rightarrow> (Ok (), w\<lparr>wk_alerter := a\<rparr>))"

definition dead_letter :: "delivery_env \<Rightarrow> queue_item \<Rightarrow> string \<Rightarrow> worker \<Rightarrow> unit result \<times> worker" where
  "dead_letter env item reason w =
     (case record_in env (Ok (mark_dead_letter (qi_id item) reason (wk_queue w))) w of
        (Inl e, w1) \<Rightarrow> (Raise e, w1)
      | (Inr _, w1) \<Rightarrow> notify_of (en_mono env) (en_smtp env) ''dead_letter''
            (''mail dead-lettered (#'' @ int_str (qi_id item) @ '')'') (dead_letter_body item reason) w1)"

lemma notify_of_cases:
  "notify_of now fate event subject body w = (res, w') \<Longrightarrow>
     wk_queue w' = wk_queue w \<and> wk_lookup w' = wk_lookup w \<and> (res = Ok () \<or> (\<exists>e. fate = Build_Raises e \<and> res = Raise e))"
  by (auto simp: notify_of_def dest: notify_raises split: prod.splits sum.splits)

lemma notify_of_same [simp]:
  "wk_queue (snd (notify_of now fate event subject body w)) = wk_queue w"
  "wk_lookup (snd (notify_of now fate event subject body w)) = wk_lookup w"
  using notify_of_cases [of now fate event subject body w] by (metis prod.collapse)+

lemma notify_of_Ok: "(\<And>e. fate \<noteq> Build_Raises e) \<Longrightarrow> fst (notify_of now fate event subject body w) = Ok ()"
  using notify_of_cases [of now fate event subject body w] by (metis prod.collapse)

definition delivery_key :: "queue_item \<Rightarrow> string option" where
  "delivery_key item = (if startswith (qi_idempotency_key item) ''nomid-'' then None
     else Some (qi_idempotency_key item))"

definition received_fallback :: "queue_item \<Rightarrow> datetime result" where
  "received_fallback item = (if dt_tz (qi_received_at item) \<noteq> None then astimezone_utc (qi_received_at item)
     else Ok (replace_tz (Some 0) (qi_received_at item)))"

text \<open>The part of \<open>_process\<close> after the answer.\<close>

definition settle :: "worker_config \<Rightarrow> delivery_env \<Rightarrow> queue_item \<Rightarrow> delivery_result \<Rightarrow> worker \<Rightarrow> unit result \<times> worker" where
  "settle cfg env item r w =
     (let http = ''HTTP '' @ int_str (dr_status_code r) @ '': '' @ error_str (dr_error r) in
      if success r then
        record_in env (bind_result (bind_text (dr_message_id r)) (\<lambda>mid.
          Ok (mark_delivered (en_now env) (qi_id item) mid (wk_queue w)))) w
      else if \<not> dr_retry r then dead_letter env item http w
      else
        let next_attempt = qi_attempt_count item + 1 in
        if next_attempt \<ge> max_attempts cfg then dead_letter env item (''max_attempts exceeded after '' @ http) w
        else record_in env
          (bind_result (backoff_seconds cfg next_attempt) (\<lambda>delay.
           bind_result (dt_add (en_now env) (delay * 1000000)) (\<lambda>t.
             mark_retry (qi_id item) next_attempt t http (wk_queue w)))) w)"

definition process :: "email_lib \<Rightarrow> worker_config \<Rightarrow> delivery_env \<Rightarrow> queue_item \<Rightarrow> worker \<Rightarrow> unit result \<times> worker" where
  "process el cfg env item w = (case resolve (en_obs env) (qi_ds_id item) (wk_lookup w) of
     Inl e \<Rightarrow> (Raise e, w)
   | Inr (ds, t) \<Rightarrow> (let w1 = w\<lparr>wk_lookup := t\<rparr> in
       case ds of
         None \<Rightarrow> dead_letter env item (''ds_id not in lookup: '' @ qi_ds_id item) w1
       | Some ds_config \<Rightarrow> (case parse_eml el (qi_raw_eml item) of
           Inl (ParseError exc) \<Rightarrow> dead_letter env item (''parse_error: '' @ exc) w1
         | Inl e \<Rightarrow> (Raise e, w1)
         | Inr parsed \<Rightarrow>
             (case bind_result (received_fallback item) (\<lambda>fallback.
                send (en_post env) ds_config (qi_mailbox item) fallback parsed (qi_raw_eml item) (delivery_key item)) of
                Inl e \<Rightarrow> (Raise e, w1)
              | Inr r \<Rightarrow> settle cfg env item r w1))))"

section \<open>One poll\<close>

fun process_all :: "email_lib \<Rightarrow> worker_config \<Rightarrow> (nat \<Rightarrow> delivery_env) \<Rightarrow> nat \<Rightarrow> queue_item list \<Rightarrow> worker \<Rightarrow> unit result \<times> worker" where
  "process_all el cfg envs n [] w = (Ok (), w)"
| "process_all el cfg envs n (item # items) w = (case process el cfg (envs n) item w of
     (Inl e, w1) \<Rightarrow> (Raise e, w1)
   | (Inr _, w1) \<Rightarrow> process_all el cfg envs (Suc n) items w1)"

definition stats_text :: "(qstate \<times> int) list \<Rightarrow> string" where
  "stats_text st = ''{'' @ join '', '' (map (\<lambda>(s, n). repr_str (state_name s) @ '': '' @ int_str n) st) @ ''}''"

text \<open>The look at the queue's size; \<open>fault\<close> is the exception of the counting statement.\<close>

definition maybe_alert_queue_size :: "exn option \<Rightarrow> nat \<Rightarrow> mail_fate \<Rightarrow> int \<Rightarrow> worker \<Rightarrow> unit result \<times> worker" where
  "maybe_alert_queue_size fault clock fate queue_size_limit w =
     (case fault of
        Some e \<Rightarrow> (Raise e, w)
      | None \<Rightarrow> (let st = stats (wk_queue w); pending = stats_get st Pending in
          if pending > queue_size_limit
          then notify_of clock fate ''queue_backlog''
             (''queue backlog '' @ int_str pending @ '' > '' @ int_str queue_size_limit)
             (''Queue stats: '' @ stats_text st @ [newline]) w
          else (Ok (), w)))"

definition tick :: "email_lib \<Rightarrow> worker_config \<Rightarrow> int \<Rightarrow> tick_env \<Rightarrow> worker \<Rightarrow> unit result \<times> worker" where
  "tick el cfg queue_size_limit te w =
     (case dequeue_batch (tk_tie te) (tk_now te) (batch_size cfg) (tk_fault te) (wk_queue w) of
        (Inl e, q) \<Rightarrow> (Ok (), w\<lparr>wk_queue := q\<rparr>)
      | (Inr batch, q) \<Rightarrow> (case process_all el cfg (tk_items te) 0 batch (w\<lparr>wk_queue := q\<rparr>) of
          (Inl e, w1) \<Rightarrow> (Raise e, w1)
        | (Inr _, w1) \<Rightarrow> maybe_alert_queue_size (tk_stats te) (tk_mono te) (tk_smtp te) queue_size_limit w1))"

lemma maybe_alert_same [simp]:
  "wk_queue (snd (maybe_alert_queue_size fault clock fate l w)) = wk_queue w"
  "wk_lookup (snd (maybe_alert_queue_size fault clock fate l w)) = wk_lookup w"
  by (simp_all add: maybe_alert_queue_size_def Let_def split: option.split)

lemma maybe_alert_Ok: "(\<And>e. fate \<noteq> Build_Raises e) \<Longrightarrow> fst (maybe_alert_queue_size None clock fate l w) = Ok ()"
  by (simp add: maybe_alert_queue_size_def Let_def notify_of_Ok)

text \<open>
  \<open>run_forever\<close>: the recovery (\<open>fault\<close> is the exception of its statement, which is rolled
  back), then polls until \<open>stop\<close> is set (the end of the list) or a poll raises. An exception
  ends the process.
\<close>

fun ticks :: "email_lib \<Rightarrow> worker_config \<Rightarrow> int \<Rightarrow> tick_env list \<Rightarrow> worker \<Rightarrow> unit result \<times> worker" where
  "ticks el cfg lim [] w = (Ok (), w)"
| "ticks el cfg lim (te # tes) w = (case tick el cfg lim te w of
     (Inl e, w1) \<Rightarrow> (Raise e, w1)
   | (Inr _, w1) \<Rightarrow> ticks el cfg lim tes w1)"

definition run_forever :: "email_lib \<Rightarrow> worker_config \<Rightarrow> int \<Rightarrow> exn option \<Rightarrow> tick_env list \<Rightarrow> worker \<Rightarrow> unit result \<times> worker" where
  "run_forever el cfg lim fault tes w = (case fault of
     Some e \<Rightarrow> (Raise e, w)
   | None \<Rightarrow> ticks el cfg lim tes (w\<lparr>wk_queue := snd (requeue_in_flight (wk_queue w))\<rparr>))"

section \<open>The worker as a client of the store\<close>

text \<open>The transaction that records the outcome of one delivery.\<close>

fun outcome_event :: "worker_config \<Rightarrow> delivery_env \<Rightarrow> queue_item \<Rightarrow> qevent \<Rightarrow> bool" where
  "outcome_event cfg env item (Mark_Delivered now i mid) = (now = en_now env \<and> i = qi_id item)"
| "outcome_event cfg env item (Mark_Dead_Letter i reason) = (i = qi_id item)"
| "outcome_event cfg env item (Mark_Retry i n t err) = (i = qi_id item \<and> n = qi_attempt_count item + 1 \<and>
     n < max_attempts cfg \<and> (\<exists>delay. backoff_seconds cfg n = Ok delay \<and> dt_add (en_now env) (delay * 1000000) = Ok t))"
| "outcome_event cfg env item _ = False"

text \<open>What an exception leaves: nothing recorded, or a dead letter whose alert could not be built.\<close>

definition recorded :: "worker_config \<Rightarrow> delivery_env \<Rightarrow> queue_item \<Rightarrow> worker \<Rightarrow> unit result \<times> worker \<Rightarrow> bool" where
  "recorded cfg env item w out \<longleftrightarrow> (case fst out of
     Inl e \<Rightarrow> wk_queue (snd out) = wk_queue w \<or>
       (\<exists>reason. en_smtp env = Build_Raises e \<and> wk_queue (snd out) = mark_dead_letter (qi_id item) reason (wk_queue w))
   | Inr _ \<Rightarrow> (\<exists>ev. outcome_event cfg env item ev \<and> wk_queue (snd out) = apply_event (wk_queue w) ev))"

lemma recorded_raise [simp]: "recorded cfg env item w (Inl e, w') \<longleftrightarrow> wk_queue w' = wk_queue w \<or>
    (\<exists>reason. en_smtp env = Build_Raises e \<and> wk_queue w' = mark_dead_letter (qi_id item) reason (wk_queue w))"
  by (simp add: recorded_def)

lemma dead_letter_cases:
  assumes "dead_letter env item reason w = (res, w')"
  shows "wk_lookup w' = wk_lookup w \<and>
    (case en_fault env of Some e \<Rightarrow> res = Raise e \<and> w' = w
     | None \<Rightarrow> wk_queue w' = mark_dead_letter (qi_id item) reason (wk_queue w) \<and>
         (res = Ok () \<or> (\<exists>e. en_smtp env = Build_Raises e \<and> res = Raise e)))"
  using assms by (auto simp: dead_letter_def record_in_def dest: notify_of_cases split: option.splits)

lemma recorded_dead_letter: "recorded cfg env item w (dead_letter env item reason w)"
proof -
  obtain res w' where d: "dead_letter env item reason w = (res, w')" by fastforce
  show ?thesis
  proof (cases "en_fault env")
    case None
    then have "wk_queue w' = apply_event (wk_queue w) (Mark_Dead_Letter (qi_id item) reason)"
      "res = Ok () \<or> (\<exists>e. en_smtp env = Build_Raises e \<and> res = Raise e)"
      using dead_letter_cases [OF d] by simp_all
    then show ?thesis
      by (auto simp: recorded_def d simp del: apply_event.simps) (auto intro: exI [of _ "Mark_Dead_Letter (qi_id item) reason"])
  qed (use dead_letter_cases [OF d] in \<open>simp add: recorded_def d\<close>)
qed

lemma recorded_in:
  assumes "\<And>q. d = Inr q \<Longrightarrow> \<exists>ev. outcome_event cfg env item ev \<and> q = apply_event (wk_queue w) ev"
  shows "recorded cfg env item w (record_in env d w)"
  using assms by (auto simp: recorded_def record_in_def split: sum.split option.split)

lemma recorded_settle: "recorded cfg env item w (settle cfg env item r w)"
proof -
  define http where "http = ''HTTP '' @ int_str (dr_status_code r) @ '': '' @ error_str (dr_error r)"
  define n where "n = qi_attempt_count item + 1"
  have del: "recorded cfg env item w (record_in env (bind_result (bind_text (dr_message_id r)) (\<lambda>mid.
      Ok (mark_delivered (en_now env) (qi_id item) mid (wk_queue w)))) w)"
  proof (rule recorded_in)
    fix q assume "bind_result (bind_text (dr_message_id r)) (\<lambda>mid.
      Ok (mark_delivered (en_now env) (qi_id item) mid (wk_queue w))) = Inr q"
    then obtain mid where "q = mark_delivered (en_now env) (qi_id item) mid (wk_queue w)" by auto
    then show "\<exists>ev. outcome_event cfg env item ev \<and> q = apply_event (wk_queue w) ev"
      by (intro exI [of _ "Mark_Delivered (en_now env) (qi_id item) mid"]) simp
  qed
  have "recorded cfg env item w (record_in env (bind_result (backoff_seconds cfg n) (\<lambda>delay.
      bind_result (dt_add (en_now env) (delay * 1000000)) (\<lambda>t. mark_retry (qi_id item) n t http (wk_queue w)))) w)"
    if "n < max_attempts cfg"
  proof (rule recorded_in)
    fix q assume "bind_result (backoff_seconds cfg n) (\<lambda>delay.
      bind_result (dt_add (en_now env) (delay * 1000000)) (\<lambda>t. mark_retry (qi_id item) n t http (wk_queue w))) = Inr q"
    then obtain delay t where "backoff_seconds cfg n = Inr delay" "dt_add (en_now env) (delay * 1000000) = Inr t"
      "mark_retry (qi_id item) n t http (wk_queue w) = Inr q"
      by auto
    then show "\<exists>ev. outcome_event cfg env item ev \<and> q = apply_event (wk_queue w) ev"
      using that n_def by (intro exI [of _ "Mark_Retry (qi_id item) n t http"]) simp
  qed
  with del show ?thesis
    unfolding settle_def Let_def http_def [symmetric] n_def [symmetric] by (simp add: recorded_dead_letter)
qed

lemma recorded_lookup: "recorded cfg env item (w\<lparr>wk_lookup := t\<rparr>) out = recorded cfg env item w out"
  by (cases "fst out") (simp_all add: recorded_def)

lemma process_recorded: "recorded cfg env item w (process el cfg env item w)"
proof -
  have d: "recorded cfg env item w (dead_letter env item reason (w\<lparr>wk_lookup := t\<rparr>))" for reason t
    using recorded_dead_letter [of cfg env item "w\<lparr>wk_lookup := t\<rparr>"] by (simp add: recorded_lookup)
  have s: "recorded cfg env item w (settle cfg env item r (w\<lparr>wk_lookup := t\<rparr>))" for r t
    using recorded_settle [of cfg env item "w\<lparr>wk_lookup := t\<rparr>"] by (simp add: recorded_lookup)
  show ?thesis
    by (auto simp: process_def Let_def d s split: sum.split option.split exn.split)
qed

lemma dt_add_clock: "clock_ok now \<Longrightarrow> dt_add now us = Ok t \<Longrightarrow> clock_ok t"
  by (auto simp: clock_ok_def dt_add_def Let_def split: if_splits)

lemma outcome_event_ok:
  "outcome_event cfg env item ev \<Longrightarrow> clock_ok (en_now env) \<Longrightarrow> 0 \<le> qi_attempt_count item \<Longrightarrow> event_ok ev"
  by (cases ev) (auto dest: dt_add_clock)

lemma outcome_event_alone: "outcome_event cfg env item ev \<Longrightarrow> i \<noteq> qi_id item \<Longrightarrow> leaves_alone i ev"
  by (cases ev) auto

text \<open>
  A sequence of deliveries records an outcome for the items of a prefix, in order. An
  exception leaves the item at which it came without an outcome, or with a dead letter.
\<close>

lemma process_all_events:
  assumes "process_all el cfg envs n items w = (res, w')"
  shows "\<exists>k evs. k \<le> length items \<and> length evs = k \<and> wk_queue w' = foldl apply_event (wk_queue w) evs \<and>
    (\<forall>j < k. outcome_event cfg (envs (n + j)) (items ! j) (evs ! j)) \<and>
    (res = Ok () \<longrightarrow> k = length items) \<and>
    (res \<noteq> Ok () \<longrightarrow> k < length items \<or> 0 < k \<and> (\<exists>e. en_smtp (envs (n + (k - 1))) = Build_Raises e \<and> res = Raise e))"
  using assms
proof (induction items arbitrary: n w)
  case (Cons item items)
  obtain r w1 where p: "process el cfg (envs n) item w = (r, w1)" by fastforce
  show ?case
  proof (cases r)
    case (Inl e)
    then have res: "res = Raise e" "w' = w1" using Cons.prems p by simp_all
    have "recorded cfg (envs n) item w (Inl e, w1)" using process_recorded [of cfg "envs n" item w el] p Inl by simp
    then consider "wk_queue w1 = wk_queue w"
      | reason where "en_smtp (envs n) = Build_Raises e" "wk_queue w1 = mark_dead_letter (qi_id item) reason (wk_queue w)"
      by auto
    then show ?thesis
    proof cases
      case 1
      then show ?thesis using res by (intro exI [of _ 0] exI [of _ "[]"]) simp
    next
      case 2
      then show ?thesis
        using res by (intro exI [of _ 1] exI [of _ "[Mark_Dead_Letter (qi_id item) reason]"]) simp
    qed
  next
    case (Inr u)
    then obtain ev where ev: "outcome_event cfg (envs n) item ev" "wk_queue w1 = apply_event (wk_queue w) ev"
      using p process_recorded [of cfg "envs n" item w el] by (auto simp: recorded_def)
    have "process_all el cfg envs (Suc n) items w1 = (res, w')" using Cons.prems p Inr by simp
    from Cons.IH [OF this] obtain k evs where k: "k \<le> length items" "length evs = k"
      "wk_queue w' = foldl apply_event (wk_queue w1) evs"
      "\<forall>j < k. outcome_event cfg (envs (Suc n + j)) (items ! j) (evs ! j)"
      "res = Ok () \<longrightarrow> k = length items"
      "res \<noteq> Ok () \<longrightarrow> k < length items \<or> 0 < k \<and> (\<exists>e. en_smtp (envs (Suc n + (k - 1))) = Build_Raises e \<and> res = Raise e)"
      by blast
    have "\<forall>j < Suc k. outcome_event cfg (envs (n + j)) ((item # items) ! j) ((ev # evs) ! j)"
      using k(4) ev(1) by (auto simp: less_Suc_eq_0_disj)
    moreover have "res \<noteq> Ok () \<longrightarrow> Suc k < length (item # items) \<or>
        0 < Suc k \<and> (\<exists>e. en_smtp (envs (n + (Suc k - 1))) = Build_Raises e \<and> res = Raise e)"
    proof (cases "0 < k")
      case True
      then have "Suc n + (k - 1) = n + (Suc k - 1)" by simp
      with k(6) show ?thesis by auto
    qed (use k(6) in simp)
    ultimately show ?thesis
      using k(1-3,5) ev(2) by (intro exI [of _ "Suc k"] exI [of _ "ev # evs"]) simp
  qed
qed simp

end
