(* ===== verification/Delivery.thy ===== *)
theory Delivery
  imports Worker
begin

text \<open>
  What the worker guarantees, over the transactions that \<open>Worker\<close> shows it to be: the outcome
  of a delivery, the outcome of a poll, how many attempts a mail gets and when, and the two
  ways in which a poll can fail for good.
\<close>

section \<open>Polls\<close>

lemma mark_retry_Ok: "clock_ok t \<Longrightarrow> \<exists>q. mark_retry i n t err d = Ok q"
  by (simp add: mark_retry_clock)

text \<open>An outcome takes its row out of flight and leaves every other row as it is.\<close>

lemma outcome_settles:
  assumes "outcome_event cfg env item ev" and "clock_ok (en_now env)"
  shows "\<not> in_flight (qi_id item) (apply_event d ev)"
    and "i \<noteq> qi_id item \<Longrightarrow> find_id i (apply_event d ev) = find_id i d"
proof -
  have id: "r_id r = j" if "find_id j d = Some r" for r j using find_id_Some [OF that] by simp
  have "\<not> in_flight (qi_id item) (apply_event d ev) \<and> (i \<noteq> qi_id item \<longrightarrow> find_id i (apply_event d ev) = find_id i d)"
  proof (cases ev)
    case (Mark_Retry j n t err)
    then have "clock_ok t" using assms by (auto dest: dt_add_clock)
    then show ?thesis
      using Mark_Retry assms(1) id
      by (auto simp: in_flight_def mark_retry_clock find_id_update map_option_case split: option.splits)
  qed (use assms(1) id in \<open>auto simp: in_flight_def mark_delivered_def mark_dead_letter_def find_id_update
      map_option_case split: option.splits\<close>)
  then show "\<not> in_flight (qi_id item) (apply_event d ev)"
    "i \<noteq> qi_id item \<Longrightarrow> find_id i (apply_event d ev) = find_id i d" by blast+
qed

lemma outcomes_settle:
  assumes "\<forall>j < length evs. outcome_event cfg (envs j) (items ! j) (evs ! j) \<and> clock_ok (en_now (envs j))"
    and "length evs \<le> length items" and "distinct (map qi_id items)"
  shows "in_flight i (foldl apply_event d evs) \<longleftrightarrow> in_flight i d \<and> i \<notin> qi_id ` set (take (length evs) items)"
  using assms(1,2)
proof (induction evs rule: rev_induct)
  case (snoc ev evs)
  let ?n = "length evs"
  have ih: "in_flight i (foldl apply_event d evs) \<longleftrightarrow> in_flight i d \<and> i \<notin> qi_id ` set (take ?n items)"
  proof (rule snoc.IH)
    show "\<forall>j < ?n. outcome_event cfg (envs j) (items ! j) (evs ! j) \<and> clock_ok (en_now (envs j))"
    proof (intro allI impI)
      fix j assume "j < ?n"
      then show "outcome_event cfg (envs j) (items ! j) (evs ! j) \<and> clock_ok (en_now (envs j))"
        using snoc.prems(1) [rule_format, of j] by (simp add: nth_append)
    qed
  qed (use snoc.prems(2) in simp)
  have ev: "outcome_event cfg (envs ?n) (items ! ?n) ev" "clock_ok (en_now (envs ?n))" "?n < length items"
    using snoc.prems(1) [rule_format, of ?n] snoc.prems(2) by simp_all
  have tk: "take (Suc ?n) items = take ?n items @ [items ! ?n]" using ev(3) by (simp add: take_Suc_conv_app_nth)
  show ?case
  proof (cases "i = qi_id (items ! ?n)")
    case True
    then show ?thesis using outcome_settles(1) [OF ev(1,2)] tk by simp
  next
    case False
    then have "in_flight i (apply_event (foldl apply_event d evs) ev) = in_flight i (foldl apply_event d evs)"
      using outcome_settles(2) [OF ev(1,2)] by (simp add: in_flight_def)
    then show ?thesis using ih tk False by simp
  qed
qed simp

lemma split_take_drop:
  assumes "distinct (map f xs)"
  shows "i \<in> f ` set xs \<and> i \<notin> f ` set (take n xs) \<longleftrightarrow> i \<in> f ` set (drop n xs)"
proof -
  have "map f xs = map f (take n xs) @ map f (drop n xs)" by (simp flip: map_append)
  then have "f ` set xs = f ` set (take n xs) \<union> f ` set (drop n xs)"
    "f ` set (take n xs) \<inter> f ` set (drop n xs) = {}"
    using assms by (metis list.set_map set_append, metis list.set_map distinct_append)
  then show ?thesis by blast
qed

lemma maybe_alert_raises:
  "maybe_alert_queue_size fault clock fate l w = (Raise e, w') \<Longrightarrow> fault = Some e \<or> fate = Build_Raises e"
  by (auto simp: maybe_alert_queue_size_def Let_def dest: notify_of_cases split: option.splits if_splits)

lemma tick_cases:
  assumes "tick el cfg lim te w = (res, w')"
    and "dequeue_batch (tk_tie te) (tk_now te) (batch_size cfg) (tk_fault te) (wk_queue w) = (Inr batch, q)"
    and "process_all el cfg (tk_items te) 0 batch (w\<lparr>wk_queue := q\<rparr>) = (r, w1)"
  shows "wk_queue w' = wk_queue w1 \<and> (res = r \<or>
    r = Ok () \<and> (\<exists>e. res = Raise e \<and> (tk_stats te = Some e \<or> tk_smtp te = Build_Raises e)))"
proof (cases r)
  case (Inr u)
  then have m: "maybe_alert_queue_size (tk_stats te) (tk_mono te) (tk_smtp te) lim w1 = (res, w')"
    using assms by (simp add: tick_def)
  then have "wk_queue w' = wk_queue w1" by (metis maybe_alert_same(1) snd_conv)
  then show ?thesis using m maybe_alert_raises [of "tk_stats te" "tk_mono te" "tk_smtp te" lim w1] Inr by (cases res) auto
qed (use assms in \<open>simp add: tick_def\<close>)

text \<open>C14 - safety: the outcome of a poll. When nothing is in flight at its start, a poll that
  returns leaves nothing in flight: every mail it fetched has an outcome. A poll that raises
  has recorded outcomes for a prefix of its batch, and exactly the rest stays in flight; the prefix
  is a proper one, unless the exception came after the last outcome: from the alert on the last
  dead letter, from the count of the queue, or from the alert on its size.\<close>

theorem tick_settles_batch:
  assumes "db_inv (wk_queue w)" and "\<And>i. \<not> in_flight i (wk_queue w)" and "\<And>j. clock_ok (en_now (tk_items te j))"
    and "tick el cfg lim te w = (res, w')"
    and "dequeue_batch (tk_tie te) (tk_now te) (batch_size cfg) (tk_fault te) (wk_queue w) = (Inr batch, q)"
  shows "\<exists>k \<le> length batch. (\<forall>i. in_flight i (wk_queue w') \<longleftrightarrow> i \<in> qi_id ` set (drop k batch)) \<and>
    (res = Ok () \<longrightarrow> k = length batch) \<and>
    (res \<noteq> Ok () \<longrightarrow> k < length batch \<or> (\<exists>e. res = Raise e \<and> (tk_stats te = Some e \<or> tk_smtp te = Build_Raises e \<or>
      0 < k \<and> en_smtp (tk_items te (k - 1)) = Build_Raises e)))"
proof -
  obtain r w1 where p: "process_all el cfg (tk_items te) 0 batch (w\<lparr>wk_queue := q\<rparr>) = (r, w1)" by fastforce
  note res = tick_cases [OF assms(4,5) p]
  from process_all_events [OF p] obtain evs where e: "length evs \<le> length batch"
    "wk_queue w1 = foldl apply_event q evs"
    "\<forall>j < length evs. outcome_event cfg (tk_items te j) (batch ! j) (evs ! j)"
    "r = Ok () \<longrightarrow> length evs = length batch"
    "r \<noteq> Ok () \<longrightarrow> length evs < length batch \<or>
       0 < length evs \<and> (\<exists>e. en_smtp (tk_items te (length evs - 1)) = Build_Raises e \<and> r = Raise e)"
    by auto
  have d: "distinct (map qi_id batch)"
    using dequeue_result [of "tk_tie te" "tk_now te" "batch_size cfg" "tk_fault te" "wk_queue w"] assms(5)
      select_due_ids [OF assms(1)] by (auto simp: comp_def)
  have fl: "in_flight i q \<longleftrightarrow> i \<in> qi_id ` set batch" for i
  proof
    assume "in_flight i q"
    then show "i \<in> qi_id ` set batch"
      using assms(2,5) find_id_dequeue [of i "tk_tie te" "tk_now te" "batch_size cfg" "tk_fault te" "wk_queue w"]
      by (cases "find_id i (wk_queue w)") (auto simp: in_flight_def split: if_splits)
  qed (use dequeue_takes(1) [OF assms(5) _ assms(1)] in auto)
  have "in_flight i (wk_queue w') \<longleftrightarrow> i \<in> qi_id ` set (drop (length evs) batch)" for i
  proof -
    have "in_flight i (wk_queue w') \<longleftrightarrow> i \<in> qi_id ` set batch \<and> i \<notin> qi_id ` set (take (length evs) batch)"
      using outcomes_settle [of evs cfg "tk_items te" batch i q] e(1,3) assms(3) d res by (simp add: e(2) fl)
    also have "\<dots> \<longleftrightarrow> i \<in> qi_id ` set (drop (length evs) batch)"
      by (rule split_take_drop [OF d])
    finally show ?thesis .
  qed
  then show ?thesis using e(1,4,5) res by (intro exI [of _ "length evs"]) auto
qed

section \<open>One delivery\<close>

lemma find_id_mark:
  assumes "find_id i d = Some row" and "\<And>r. r_id (f r) = r_id r"
  shows "find_id i (update_where (\<lambda>r. r_id r = i) f d) = Some (f row)"
  using find_id_Some [OF assms(1)] by (simp add: find_id_update assms)

lemma process_answered:
  assumes "resolve (en_obs env) (qi_ds_id item) (wk_lookup w) = Ok (Some ds, t)"
    and "parse_eml el (qi_raw_eml item) = Ok parsed" and "received_fallback item = Ok fb"
    and "send (en_post env) ds (qi_mailbox item) fb parsed (qi_raw_eml item) (delivery_key item) = Ok r"
  shows "process el cfg env item w = settle cfg env item r (w\<lparr>wk_lookup := t\<rparr>)"
  using assms by (simp add: process_def Let_def)

lemma dead_letter_queue:
  assumes "en_fault env = None"
  shows "(fst (dead_letter env item reason w) = Ok () \<or>
      (\<exists>e. en_smtp env = Build_Raises e \<and> fst (dead_letter env item reason w) = Raise e)) \<and>
     wk_queue (snd (dead_letter env item reason w)) = mark_dead_letter (qi_id item) reason (wk_queue w) \<and>
     wk_lookup (snd (dead_letter env item reason w)) = wk_lookup w"
  using dead_letter_cases [of env item reason w] assms by (cases "dead_letter env item reason w") auto

text \<open>C13 - functional: the outcome of an answered delivery. A success marks the row delivered
  and keeps the server's message id; a final answer, or the last allowed attempt, makes it a
  dead letter with a reason; any other failure counts the attempt and makes the row pending
  again at now plus the backoff. Nothing raises, except for an alert on the dead letter that
  cannot be built.\<close>

theorem delivery_outcome:
  assumes "resolve (en_obs env) (qi_ds_id item) (wk_lookup w) = Ok (Some ds, t)"
    and "parse_eml el (qi_raw_eml item) = Ok parsed" and "received_fallback item = Ok fb"
    and "send (en_post env) ds (qi_mailbox item) fb parsed (qi_raw_eml item) (delivery_key item) = Ok r"
    and "en_fault env = None" and "find_id (qi_id item) (wk_queue w) = Some row" and "clock_ok (en_now env)"
    and "process el cfg env item w = (res, w')"
  shows "(success r \<and> bind_text (dr_message_id r) = Ok mid \<longrightarrow> res = Ok () \<and>
      find_id (qi_id item) (wk_queue w') = Some (row\<lparr>r_state := Delivered,
        r_delivered_at := Some (iso_text (utcnow (en_now env))), r_delivered_message_id := mid, r_last_error := None\<rparr>)) \<and>
    (\<not> success r \<and> (\<not> dr_retry r \<or> max_attempts cfg \<le> qi_attempt_count item + 1) \<longrightarrow>
      (res = Ok () \<or> (\<exists>e. en_smtp env = Build_Raises e \<and> res = Raise e)) \<and>
      (\<exists>reason. find_id (qi_id item) (wk_queue w') = Some (row\<lparr>r_state := Dead_Letter,
        r_dead_letter_reason := Some reason, r_last_error := Some reason\<rparr>))) \<and>
    (\<not> success r \<and> dr_retry r \<and> qi_attempt_count item + 1 < max_attempts cfg \<and>
      backoff_seconds cfg (qi_attempt_count item + 1) = Ok delay \<and> dt_add (en_now env) (delay * 1000000) = Ok t' \<longrightarrow>
      res = Ok () \<and> (\<exists>err. find_id (qi_id item) (wk_queue w') = Some (row\<lparr>r_state := Pending,
        r_attempt_count := qi_attempt_count item + 1, r_next_attempt_at := Some (iso_text (replace_tz None t')),
        r_last_error := Some err\<rparr>)))"
proof -
  let ?w = "w\<lparr>wk_lookup := t\<rparr>"
  have p: "settle cfg env item r ?w = (res, w')" using process_answered [OF assms(1-4)] assms(8) by metis
  note row = assms(6)
  show ?thesis
  proof (intro conjI impI; (elim conjE)?)
    assume "success r" "bind_text (dr_message_id r) = Ok mid"
    then have "res = Ok ()" "wk_queue w' = mark_delivered (en_now env) (qi_id item) mid (wk_queue w)"
      using p assms(5) by (auto simp: settle_def record_in_def Let_def)
    then show "res = Ok ()" "find_id (qi_id item) (wk_queue w') = Some (row\<lparr>r_state := Delivered,
        r_delivered_at := Some (iso_text (utcnow (en_now env))), r_delivered_message_id := mid, r_last_error := None\<rparr>)"
      by (simp_all add: mark_delivered_def find_id_mark [OF row])
  next
    assume a: "\<not> success r" "\<not> dr_retry r \<or> max_attempts cfg \<le> qi_attempt_count item + 1"
    then have "\<exists>reason. dead_letter env item reason ?w = (res, w')"
      using p by (auto simp: settle_def Let_def split: if_splits)
    then obtain reason where "dead_letter env item reason ?w = (res, w')" by blast
    then have "res = Ok () \<or> (\<exists>e. en_smtp env = Build_Raises e \<and> res = Raise e)"
      "wk_queue w' = mark_dead_letter (qi_id item) reason (wk_queue w)"
      using dead_letter_queue [OF assms(5), of item reason ?w] by simp_all
    then show "res = Ok () \<or> (\<exists>e. en_smtp env = Build_Raises e \<and> res = Raise e)" "\<exists>reason. find_id (qi_id item) (wk_queue w') = Some (row\<lparr>r_state := Dead_Letter,
        r_dead_letter_reason := Some reason, r_last_error := Some reason\<rparr>)"
      by (auto simp: mark_dead_letter_def find_id_mark [OF row])
  next
    assume a: "\<not> success r" "dr_retry r" "qi_attempt_count item + 1 < max_attempts cfg"
      "backoff_seconds cfg (qi_attempt_count item + 1) = Ok delay" "dt_add (en_now env) (delay * 1000000) = Ok t'"
    then have "clock_ok t'" using dt_add_clock assms(7) by blast
    then have "\<exists>err. res = Ok () \<and> Inr (wk_queue w') = mark_retry (qi_id item) (qi_attempt_count item + 1) t' err (wk_queue w)"
      using p a assms(5) by (auto simp: settle_def record_in_def mark_retry_clock Let_def)
    then show "res = Ok ()" "\<exists>err. find_id (qi_id item) (wk_queue w') = Some (row\<lparr>r_state := Pending,
        r_attempt_count := qi_attempt_count item + 1, r_next_attempt_at := Some (iso_text (replace_tz None t')),
        r_last_error := Some err\<rparr>)"
      using \<open>clock_ok t'\<close> by (auto simp: mark_retry_clock find_id_mark [OF row])
  qed
qed

text \<open>error: a mail that cannot be delivered at all. When the identifier is in no lookup
  entry, or the message cannot be parsed, nothing is sent: the row is a dead letter with the
  reason, whatever the attempts so far.\<close>

theorem undeliverable_is_dead_letter:
  assumes "resolve (en_obs env) (qi_ds_id item) (wk_lookup w) = Ok (ds, t)"
    and "ds = None \<or> parse_eml el (qi_raw_eml item) = Raise (ParseError exc)"
    and "en_fault env = None" and "find_id (qi_id item) (wk_queue w) = Some row"
  shows "(fst (process el cfg env item w) = Ok () \<or>
      (\<exists>e. en_smtp env = Build_Raises e \<and> fst (process el cfg env item w) = Raise e)) \<and>
    (\<exists>reason. find_id (qi_id item) (wk_queue (snd (process el cfg env item w))) = Some (row\<lparr>r_state := Dead_Letter,
        r_dead_letter_reason := Some reason, r_last_error := Some reason\<rparr>) \<and>
      reason = (if ds = None then ''ds_id not in lookup: '' @ qi_ds_id item else ''parse_error: '' @ exc))"
proof -
  let ?reason = "if ds = None then ''ds_id not in lookup: '' @ qi_ds_id item else ''parse_error: '' @ exc"
  have "process el cfg env item w = dead_letter env item ?reason (w\<lparr>wk_lookup := t\<rparr>)"
    using assms(1,2) by (cases ds) (auto simp: process_def Let_def)
  then show ?thesis
    using dead_letter_queue [OF assms(3), of item ?reason "w\<lparr>wk_lookup := t\<rparr>"] find_id_mark [OF assms(4)]
    by (simp add: mark_dead_letter_def)
qed

section \<open>The schedule\<close>

text \<open>functional: the backoff. The attempt numbers start at one, so the delay after attempt
  n is entry n of the list (counted from zero) and the last one from there on: the first
  entry of a longer list is never used, and an empty list raises.\<close>

theorem backoff_schedule:
  assumes "1 \<le> n"
  shows "backoff_seconds cfg n = (if backoff cfg = [] then Raise IndexError
      else Ok (backoff cfg ! min (nat n) (length (backoff cfg) - 1))) \<and>
    (2 \<le> length (backoff cfg) \<longrightarrow> 1 \<le> min (nat n) (length (backoff cfg) - 1))"
proof (cases "backoff cfg = []")
  case True
  then show ?thesis using assms by (simp add: backoff_seconds_def py_index_def)
next
  case False
  define k where "k = min n (int (length (backoff cfg)) - 1)"
  have "0 < length (backoff cfg)" using False by simp
  then have k: "0 \<le> k" "k < int (length (backoff cfg))" "nat k = min (nat n) (length (backoff cfg) - 1)"
    using assms unfolding k_def by auto
  have "backoff_seconds cfg n = Ok (backoff cfg ! nat k)"
    using k(1,2) by (simp add: backoff_seconds_def py_index_def Let_def flip: k_def)
  then show ?thesis using False k(3) assms by auto
qed

theorem backoff_schedule_witness:
  "map (backoff_seconds default_worker_config) [1, 2, 3, 4] = [Ok 60, Ok 300, Ok 1800, Ok 1800]"
  using backoff_schedule [of 1 default_worker_config] backoff_schedule [of 2 default_worker_config]
    backoff_schedule [of 3 default_worker_config] backoff_schedule [of 4 default_worker_config]
  by (simp add: default_worker_config_def)

section \<open>A small world\<close>

text \<open>One pending mail for a served data source; the server does not answer in time.\<close>

definition toy_email :: parsed_email where
  "toy_email = \<lparr>pe_subject = '''', pe_sender_email = '''', pe_sender_name = None, pe_message_id = Some ''<m1>'',
     pe_in_reply_to = None, pe_references = None, pe_date = None, pe_body_plain = Some ''x'', pe_body_html = None,
     pe_attachments = []\<rparr>"

definition toy_worker :: worker where
  "toy_worker = \<lparr>wk_queue = sample_db, wk_lookup = known_table, wk_alerter = Alerter_init default_alerts_config\<rparr>"

definition timeout_env :: delivery_env where
  "timeout_env = \<lparr>en_obs = quiet None, en_post = (\<lambda>_. Timeout ''t''), en_now = utc 5, en_mono = 1, en_smtp = Smtp_Ok,
     en_fault = None\<rparr>"

definition toy_tick :: tick_env where
  "toy_tick = \<lparr>tk_tie = r_id, tk_now = utc 7, tk_fault = No_Fault, tk_items = (\<lambda>_. timeout_env), tk_mono = 1, tk_smtp = Smtp_Ok,
     tk_stats = None\<rparr>"

lemma toy_config: "max_attempts default_worker_config = 4" "batch_size default_worker_config = 10"
  "backoff_seconds default_worker_config 1 = Ok 60"
  by (simp_all add: default_worker_config_def backoff_seconds_def py_index_def)

lemma toy_delay: "dt_add (utc 5) 60000000 = Ok (utc 60000005)"
  by (simp add: dt_add_def utc_def max_us_def)

lemma toy_env: "en_fault timeout_env = None" "en_now timeout_env = utc 5" "en_obs timeout_env = quiet None"
  "en_post timeout_env rq = Timeout ''t''" "tk_items toy_tick j = timeout_env"
  by (simp_all add: timeout_env_def toy_tick_def)

lemma toy_parse_eml: "parse_eml (toy_lib (Ok toy_message)) raw = Ok toy_email"
proof -
  have "strip ''<m1>'' = ''<m1>''" "py_lower ''Message-ID'' = ''message-id''" "py_lower ''From'' = ''from''"
    "py_lower ''Subject'' = ''subject''" "py_lower ''In-Reply-To'' = ''in-reply-to''"
    "py_lower ''References'' = ''references''" "py_lower ''Date'' = ''date''"
    by code_simp+
  then show ?thesis
    by (simp add: parse_eml_def toy_lib_def toy_message_def plain_mime_def get_header_def extract_address_def
        non_empty_def opt_str_def header_date_def extract_body_def get_body_def find_body_at before_first_def
        after_first_def decode_header_def or_None_def toy_email_def text_of_def)
qed

lemma toy_resolve: "resolve (quiet None) ''firma'' known_table = Ok (Some sample_cfg, known_table)"
proof -
  have "py_lower ''firma'' = ''firma''" by code_simp
  then show ?thesis by (simp add: resolve_def refresh_def find_ds_def known_table_def)
qed

lemma received_fallback_ok:
  assumes "row_ok r"
  shows "\<exists>t. received_fallback (row_to_item now r) = Ok t"
proof -
  obtain t where t: "fromisoformat (r_received_at r) = Some t" "clock_ok t"
    using assms by (auto simp: row_ok_def stored_aware_def split: option.splits)
  then have "qi_received_at (row_to_item now r) = t"
    by (simp add: row_to_item_def parse_ts_def clock_ok_def)
  then show ?thesis using t(2) astimezone_utc_clock [OF t(2)] by (simp add: received_fallback_def clock_ok_def)
qed

lemma toy_row:
  "find_id 1 sample_db = Some (new_row (utc 5) 1 sample_mail)" "row_ok (new_row (utc 5) 1 sample_mail)"
  by (simp_all add: find_id_def sample_db_eq)

lemma toy_item:
  "qi_id (row_to_item now (new_row (utc 5) 1 sample_mail)) = 1"
  "qi_ds_id (row_to_item now (new_row (utc 5) 1 sample_mail)) = ''firma''"
  "qi_attempt_count (row_to_item now (new_row (utc 5) 1 sample_mail)) = 0"
  by (simp_all add: row_to_item_def new_row_def sample_mail_def)

text \<open>The witnesses of the three theorems on deliveries and polls above.\<close>

theorem delivery_outcome_witness:
  "\<exists>r'. find_id 1 (wk_queue (snd (process (toy_lib (Ok toy_message)) default_worker_config timeout_env
      (row_to_item (utc 7) (new_row (utc 5) 1 sample_mail)) toy_worker))) = Some r' \<and>
    r_state r' = Pending \<and> r_attempt_count r' = 1 \<and> r_next_attempt_at r' = Some (iso_text (replace_tz None (utc 60000005)))"
proof -
  let ?item = "row_to_item (utc 7) (new_row (utc 5) 1 sample_mail)"
  obtain fb where fb: "received_fallback ?item = Ok fb" using received_fallback_ok [OF toy_row(2)] by blast
  obtain res w' where p: "process (toy_lib (Ok toy_message)) default_worker_config timeout_env ?item toy_worker = (res, w')"
    by fastforce
  have r: "resolve (en_obs timeout_env) (qi_ds_id ?item) (wk_lookup toy_worker) = Ok (Some sample_cfg, known_table)"
    by (simp add: toy_item toy_worker_def timeout_env_def toy_resolve)
  have s: "send (en_post timeout_env) sample_cfg (qi_mailbox ?item) fb toy_email (qi_raw_eml ?item) (delivery_key ?item) =
      Ok (no_answer ''timeout: t'')"
    by (simp add: send_def timeout_env_def)
  have f: "find_id (qi_id ?item) (wk_queue toy_worker) = Some (new_row (utc 5) 1 sample_mail)"
    by (simp add: toy_worker_def toy_row)
  show ?thesis
    using delivery_outcome [OF r toy_parse_eml fb s _ f _ p, of None 60 "utc 60000005"] toy_delay
    by (auto simp: p no_answer_def success_def toy_item toy_env toy_config)
qed

theorem undeliverable_is_dead_letter_witness:
  "\<exists>r'. find_id 1 (wk_queue (snd (process (toy_lib (Raise TypeError)) default_worker_config timeout_env
      (row_to_item (utc 7) (new_row (utc 5) 1 sample_mail)) toy_worker))) = Some r' \<and> r_state r' = Dead_Letter \<and>
    r_dead_letter_reason r' = Some ''parse_error: cannot parse MIME: bad''"
proof -
  let ?item = "row_to_item (utc 7) (new_row (utc 5) 1 sample_mail)"
  have r: "resolve (en_obs timeout_env) (qi_ds_id ?item) (wk_lookup toy_worker) = Ok (Some sample_cfg, known_table)"
    by (simp add: toy_item toy_worker_def timeout_env_def toy_resolve)
  have e: "parse_eml (toy_lib (Raise TypeError)) (qi_raw_eml ?item) = Raise (ParseError ''cannot parse MIME: bad'')"
    by (simp add: parse_eml_def toy_lib_def)
  have f: "find_id (qi_id ?item) (wk_queue toy_worker) = Some (new_row (utc 5) 1 sample_mail)"
    by (simp add: toy_worker_def toy_row)
  show ?thesis
    using undeliverable_is_dead_letter [OF r disjI2 [OF e] _ f] by (auto simp: timeout_env_def)
qed

lemma toy_not_in_flight: "\<not> in_flight i (wk_queue toy_worker)"
  by (auto simp: in_flight_def toy_worker_def find_id_def sample_db_eq split: if_splits)

lemma toy_batch:
  "dequeue_batch (tk_tie toy_tick) (tk_now toy_tick) (batch_size default_worker_config) (tk_fault toy_tick) (wk_queue toy_worker) =
    (Inr [row_to_item (utc 7) (new_row (utc 5) 1 sample_mail)], \<lparr>db_rows = [set_state In_Flight (new_row (utc 5) 1 sample_mail)], sequence = 1\<rparr>)"
  using sample_dequeue by (simp add: toy_tick_def toy_worker_def default_worker_config_def)

lemma toy_tick_returns:
  obtains w' where "tick (toy_lib (Ok toy_message)) default_worker_config 100 toy_tick toy_worker = (Ok (), w')"
proof -
  obtain res w' where t: "tick (toy_lib (Ok toy_message)) default_worker_config 100 toy_tick toy_worker = (res, w')"
    by fastforce
  obtain fb where fb: "received_fallback (row_to_item (utc 7) (new_row (utc 5) 1 sample_mail)) = Ok fb"
    using received_fallback_ok [OF toy_row(2)] by blast
  have look: "res = Ok ()" if "maybe_alert_queue_size (tk_stats toy_tick) m (tk_smtp toy_tick) l w = (res, w')" for m l w
    using that maybe_alert_raises [of "tk_stats toy_tick" m "tk_smtp toy_tick" l w _ w'] by (cases res) (auto simp: toy_tick_def)
  have "clock_ok (utc 60000005)" by simp
  then have "res = Ok ()"
    using t unfolding tick_def toy_batch
    by (auto dest: look simp: process_def toy_worker_def toy_item toy_env toy_resolve toy_parse_eml fb send_def
        settle_def no_answer_def success_def record_in_def toy_config toy_delay mark_retry_clock Let_def)
  with t that show thesis by blast
qed

theorem tick_settles_batch_witness:
  "\<not> in_flight 1 (wk_queue (snd (tick (toy_lib (Ok toy_message)) default_worker_config 100 toy_tick toy_worker)))"
proof -
  obtain w' where t: "tick (toy_lib (Ok toy_message)) default_worker_config 100 toy_tick toy_worker = (Ok (), w')"
    by (rule toy_tick_returns)
  show ?thesis
    using tick_settles_batch [OF _ toy_not_in_flight _ t toy_batch] t sample_db_inv
    by (auto simp: toy_env toy_worker_def)
qed

end
