(* ===== verification/System.thy ===== *)
theory System
  imports Delivery
begin

text \<open>
  The composition: the receiver, one worker process that may die and be restarted, and the
  admin tool, interleaving on the queue. The states and transitions of a run, the invariant
  that ties what is in flight to what the running worker holds, and what happens without
  the one-worker discipline or with a message that makes the worker die.
\<close>

section \<open>Runs\<close>

record system =
  sy_running :: bool
  sy_batch :: "queue_item list"
  sy_worker :: worker

definition set_queue :: "db \<Rightarrow> system \<Rightarrow> system" where
  "set_queue q s = s\<lparr>sy_worker := (sy_worker s)\<lparr>wk_queue := q\<rparr>\<rparr>"

abbreviation sy_queue :: "system \<Rightarrow> db" where
  "sy_queue s \<equiv> wk_queue (sy_worker s)"

definition system_start :: "system \<Rightarrow> bool" where
  "system_start s \<longleftrightarrow> \<not> sy_running s \<and> sy_batch s = [] \<and> sy_queue s = Queue_init None"

text \<open>
  \<open>Receive\<close> is an insert of the receiver, \<open>Prune\<close> the admin tool. \<open>Start\<close> is the recovery at
  the top of \<open>run_forever\<close> (one whose statement raises changes nothing), \<open>Fetch\<close>, \<open>Deliver\<close> and
  \<open>Alert\<close> the parts of a poll, \<open>Raise_Out\<close> and \<open>Alert_Raised\<close> the exceptions that leave the
  poll, and \<open>Crash\<close> the death of the process at any point.
\<close>

inductive system_step :: "email_lib \<Rightarrow> worker_config \<Rightarrow> system \<Rightarrow> system \<Rightarrow> bool"
  for el :: email_lib and cfg :: worker_config where
  Receive: "clock_ok now \<Longrightarrow> system_step el cfg s (set_queue (snd (enqueue now m (sy_queue s))) s)"
| Prune: "prune_delivered now days (sy_queue s) = Ok (n, q) \<Longrightarrow> system_step el cfg s (set_queue q s)"
| Start: "\<not> sy_running s \<Longrightarrow>
    system_step el cfg s (set_queue (snd (requeue_in_flight (sy_queue s))) (s\<lparr>sy_running := True, sy_batch := []\<rparr>))"
| Fetch: "sy_running s \<Longrightarrow> sy_batch s = [] \<Longrightarrow>
    dequeue_batch tie now (batch_size cfg) f (sy_queue s) = (Ok items, q) \<Longrightarrow>
    system_step el cfg s (set_queue q (s\<lparr>sy_batch := items\<rparr>))"
| Deliver: "sy_running s \<Longrightarrow> sy_batch s = item # rest \<Longrightarrow> clock_ok (en_now env) \<Longrightarrow>
    process el cfg env item (sy_worker s) = (Ok (), w) \<Longrightarrow>
    system_step el cfg s (s\<lparr>sy_batch := rest, sy_worker := w\<rparr>)"
| Raise_Out: "sy_running s \<Longrightarrow> sy_batch s = item # rest \<Longrightarrow>
    process el cfg env item (sy_worker s) = (Raise e, w) \<Longrightarrow>
    system_step el cfg s (s\<lparr>sy_running := False, sy_batch := [], sy_worker := w\<rparr>)"
| Alert: "sy_running s \<Longrightarrow> sy_batch s = [] \<Longrightarrow>
    maybe_alert_queue_size fault clock fate lim (sy_worker s) = (Ok (), w) \<Longrightarrow>
    system_step el cfg s (s\<lparr>sy_worker := w\<rparr>)"
| Alert_Raised: "sy_running s \<Longrightarrow> sy_batch s = [] \<Longrightarrow>
    maybe_alert_queue_size fault clock fate lim (sy_worker s) = (Raise e, w) \<Longrightarrow>
    system_step el cfg s (s\<lparr>sy_running := False, sy_batch := [], sy_worker := w\<rparr>)"
| Crash: "sy_running s \<Longrightarrow> system_step el cfg s (s\<lparr>sy_running := False, sy_batch := []\<rparr>)"

text \<open>While the worker runs, the rows in flight are exactly those of its batch.\<close>

definition system_inv :: "system \<Rightarrow> bool" where
  "system_inv s \<longleftrightarrow> db_inv (sy_queue s) \<and> distinct (map qi_id (sy_batch s)) \<and>
     (\<forall>x \<in> set (sy_batch s). 0 \<le> qi_attempt_count x) \<and>
     (sy_running s \<longrightarrow> (\<forall>i. in_flight i (sy_queue s) \<longleftrightarrow> i \<in> qi_id ` set (sy_batch s))) \<and>
     (\<not> sy_running s \<longrightarrow> sy_batch s = [])"

lemma set_queue_simps [simp]: "sy_queue (set_queue q s) = q" "sy_running (set_queue q s) = sy_running s"
  "sy_batch (set_queue q s) = sy_batch s"
  by (simp_all add: set_queue_def)

lemma in_flight_enqueue: "db_inv d \<Longrightarrow> in_flight i (snd (enqueue now m d)) \<longleftrightarrow> in_flight i d"
proof -
  assume inv: "db_inv d"
  have "find_id (sequence d + 1) d = None" using inv by (force simp: find_id_None db_inv_def)
  then show ?thesis using inv by (auto simp: in_flight_def find_id_enqueue)
qed

lemma in_flight_prune: "db_inv d \<Longrightarrow> prune_delivered now days d = Ok (n, q) \<Longrightarrow> in_flight i q \<longleftrightarrow> in_flight i d"
proof -
  assume "db_inv d" "prune_delivered now days d = Ok (n, q)"
  from find_id_prune [OF this] obtain P where
    "find_id i q = (case find_id i d of None \<Rightarrow> None | Some r \<Rightarrow> if P r then None else Some r)"
    "\<And>r. P r \<Longrightarrow> r_state r = Delivered" by blast
  then show ?thesis by (cases "find_id i d") (auto simp: in_flight_def)
qed

lemma in_flight_requeue: "\<not> in_flight i (snd (requeue_in_flight d))"
  by (auto simp: in_flight_def requeue_in_flight_def find_id_update split: if_splits)

lemma in_flight_dequeue:
  assumes "db_inv d" and "dequeue_batch tie now limit f d = (Ok items, q)"
  shows "in_flight i q \<longleftrightarrow> in_flight i d \<or> i \<in> qi_id ` set items"
    and "distinct (map qi_id items)" and "x \<in> set items \<Longrightarrow> 0 \<le> qi_attempt_count x"
proof -
  have "in_flight i q" if "i \<in> qi_id ` set items"
    using dequeue_takes(1) [OF assms(2) _ assms(1)] that by blast
  moreover have "in_flight i q \<longleftrightarrow> in_flight i d" if "i \<notin> qi_id ` set items"
    using that assms(2) find_id_dequeue [of i tie now limit f d] by (cases "find_id i d") (auto simp: in_flight_def)
  ultimately show "in_flight i q \<longleftrightarrow> in_flight i d \<or> i \<in> qi_id ` set items" by blast
  show "0 \<le> qi_attempt_count x" if "x \<in> set items"
    using that dequeue_result [of tie now limit f d] assms select_due_sub
    by (fastforce simp: db_inv_def row_ok_def row_to_item_def)
  show "distinct (map qi_id items)"
    using dequeue_result [of tie now limit f d] assms(2) select_due_ids [OF assms(1)] by (auto simp: comp_def)
qed

text \<open>A delivery records at most the outcome of its item.\<close>

lemma process_flight:
  assumes "db_inv (wk_queue w)" and "clock_ok (en_now env)" and "0 \<le> qi_attempt_count item"
    and "process el cfg env item w = (res, w')"
  shows "db_inv (wk_queue w')" and "res = Ok () \<Longrightarrow> in_flight i (wk_queue w') \<longleftrightarrow> in_flight i (wk_queue w) \<and> i \<noteq> qi_id item"
proof -
  have rec: "recorded cfg env item w (res, w')" using process_recorded [of cfg env item w el] assms(4) by simp
  then consider "\<exists>e. res = Inl e" "wk_queue w' = wk_queue w"
    | e reason where "res = Inl e" "wk_queue w' = apply_event (wk_queue w) (Mark_Dead_Letter (qi_id item) reason)"
    | ev where "res = Ok ()" "outcome_event cfg env item ev" "wk_queue w' = apply_event (wk_queue w) ev"
    by (cases res) (auto simp: recorded_def)
  then have "db_inv (wk_queue w') \<and> (res = Ok () \<longrightarrow> (in_flight i (wk_queue w') \<longleftrightarrow> in_flight i (wk_queue w) \<and> i \<noteq> qi_id item))"
  proof cases
    case 2
    then show ?thesis using db_inv_apply_event [OF assms(1), of "Mark_Dead_Letter (qi_id item) reason"] by simp
  next
    case 3
    have "in_flight i (wk_queue w') \<longleftrightarrow> in_flight i (wk_queue w) \<and> i \<noteq> qi_id item"
      using outcome_settles [OF 3(2) assms(2)] 3(3) by (cases "i = qi_id item") (auto simp: in_flight_def)
    then show ?thesis
      using db_inv_apply_event [OF assms(1) outcome_event_ok [OF 3(2) assms(2,3)]] 3 by simp
  qed (use assms(1) in auto)
  then show "db_inv (wk_queue w')" "res = Ok () \<Longrightarrow> in_flight i (wk_queue w') \<longleftrightarrow> in_flight i (wk_queue w) \<and> i \<noteq> qi_id item"
    by blast+
qed

lemma process_raise_inv:
  assumes "db_inv (wk_queue w)" and "process el cfg env item w = (Raise e, w')"
  shows "db_inv (wk_queue w')"
  using process_recorded [of cfg env item w el] assms db_inv_apply_event [OF assms(1), of "Mark_Dead_Letter (qi_id item) reason" for reason]
  by auto

inductive_cases system_stepE: "system_step el cfg s t"

lemma system_inv_start: "system_start s \<Longrightarrow> system_inv s"
  by (simp add: system_start_def system_inv_def db_inv_init)

lemma system_inv_step: "system_step el cfg s t \<Longrightarrow> system_inv s \<Longrightarrow> system_inv t"
proof (induction rule: system_step.induct)
  case (Receive now s m)
  then show ?case by (auto simp: system_inv_def in_flight_enqueue intro: db_inv_enqueue)
next
  case (Prune now days s n q)
  then show ?case by (auto simp: system_inv_def in_flight_prune intro: db_inv_prune)
next
  case (Start s)
  then show ?case by (auto simp: system_inv_def in_flight_requeue intro: db_inv_requeue)
next
  case (Fetch s tie now f items q)
  then have "db_inv q" using db_inv_dequeue [of "sy_queue s" tie now "batch_size cfg" f] by (simp add: system_inv_def)
  then show ?case
    using Fetch in_flight_dequeue [OF _ Fetch(3)] by (simp add: system_inv_def)
next
  case (Deliver s item rest env w)
  note inv = Deliver(5)[unfolded system_inv_def]
  have a: "db_inv (sy_queue s)" "0 \<le> qi_attempt_count item" using inv Deliver(2) by auto
  note pf = process_flight [OF a(1) Deliver(3) a(2) Deliver(4)]
  have nin: "qi_id item \<notin> qi_id ` set rest"
    using inv Deliver(2) by simp
  have fl: "in_flight i (sy_queue s) \<longleftrightarrow> i = qi_id item \<or> i \<in> qi_id ` set rest" for i
  proof -
    have "in_flight i (sy_queue s) \<longleftrightarrow> i \<in> qi_id ` set (sy_batch s)" using inv Deliver(1) by blast
    then show ?thesis unfolding Deliver(2) by simp
  qed
  have "in_flight i (wk_queue w) \<longleftrightarrow> i \<in> qi_id ` set rest" for i
    unfolding pf(2) [OF refl, of i] fl [of i] using nin by metis
  then show ?case using inv Deliver(1,2) pf(1) by (simp add: system_inv_def)
next
  case (Raise_Out s item rest env e w)
  then have "db_inv (wk_queue w)" using process_raise_inv [OF _ Raise_Out(3)] by (simp add: system_inv_def)
  then show ?case by (simp add: system_inv_def)
next
  case (Alert s fault clock fate lim w)
  then have "wk_queue w = sy_queue s" by (metis maybe_alert_same(1) snd_conv)
  with Alert show ?case by (simp add: system_inv_def)
next
  case (Alert_Raised s fault clock fate lim e w)
  then have "wk_queue w = sy_queue s" by (metis maybe_alert_same(1) snd_conv)
  with Alert_Raised show ?case by (simp add: system_inv_def)
next
  case (Crash s)
  then show ?case by (simp add: system_inv_def)
qed

interpretation run: step_system system_start "system_step el cfg" system_inv for el cfg
  by unfold_locales (auto intro: system_inv_start system_inv_step)

text \<open>C7 - invariant: one worker owns what is in flight. On every run of the system (inserts,
  prunes, polls, exceptions, crashes and restarts in any order) the table invariant holds, and
  while the worker runs, a row is in flight exactly when it is one of the mails the worker still
  has to deliver; so a mail is never in two deliveries at once.\<close>

theorem in_flight_is_the_batch:
  assumes "system_start s" and "(system_step el cfg)\<^sup>*\<^sup>* s t"
  shows "db_inv (sy_queue t) \<and> (sy_running t \<longrightarrow> (\<forall>i. in_flight i (sy_queue t) \<longleftrightarrow> i \<in> qi_id ` set (sy_batch t))) \<and>
    distinct (map qi_id (sy_batch t))"
  using run.inv_from_start [OF assms] by (simp add: system_inv_def)

definition toy_system :: system where
  "toy_system = \<lparr>sy_running = False, sy_batch = [], sy_worker = toy_worker\<lparr>wk_queue := Queue_init None\<rparr>\<rparr>"

text \<open>A run of three steps: a mail comes in, the worker starts and fetches it.\<close>

lemma toy_run:
  "\<exists>t. (system_step el default_worker_config)\<^sup>*\<^sup>* toy_system t \<and> sy_running t \<and>
     sy_batch t = [row_to_item (utc 7) (new_row (utc 5) 1 sample_mail)] \<and>
     sy_queue t = \<lparr>db_rows = [set_state In_Flight (new_row (utc 5) 1 sample_mail)], sequence = 1\<rparr>"
proof -
  define s1 where "s1 = set_queue sample_db toy_system"
  define s2 where "s2 = set_queue sample_db (s1\<lparr>sy_running := True, sy_batch := []\<rparr>)"
  define s3 where "s3 = set_queue \<lparr>db_rows = [set_state In_Flight (new_row (utc 5) 1 sample_mail)], sequence = 1\<rparr>
      (s2\<lparr>sy_batch := [row_to_item (utc 7) (new_row (utc 5) 1 sample_mail)]\<rparr>)"
  have q: "snd (enqueue (utc 5) sample_mail (sy_queue toy_system)) = sample_db"
    by (simp add: toy_system_def enqueue_def Queue_init_def find_key_def sample_db_eq Let_def)
  have "system_step el default_worker_config toy_system s1"
    using system_step.Receive [of "utc 5" el default_worker_config toy_system sample_mail] by (simp add: s1_def q)
  moreover have "snd (requeue_in_flight sample_db) = sample_db"
    by (simp add: requeue_in_flight_def update_where_def sample_db_eq)
  then have "system_step el default_worker_config s1 s2"
    using system_step.Start [of s1 el default_worker_config] by (simp add: s2_def) (simp add: s1_def toy_system_def)
  moreover have "dequeue_batch r_id (utc 7) (batch_size default_worker_config) No_Fault (sy_queue s2) =
      (Inr [row_to_item (utc 7) (new_row (utc 5) 1 sample_mail)], \<lparr>db_rows = [set_state In_Flight (new_row (utc 5) 1 sample_mail)], sequence = 1\<rparr>)"
    using sample_dequeue by (simp add: s2_def toy_config)
  then have "system_step el default_worker_config s2 s3"
    unfolding s3_def by (intro system_step.Fetch) (simp_all add: s2_def)
  ultimately have "(system_step el default_worker_config)\<^sup>*\<^sup>* toy_system s3"
    by (auto intro: converse_rtranclp_into_rtranclp)
  then show ?thesis by (intro exI [of _ s3]) (simp add: s3_def s2_def)
qed

theorem in_flight_is_the_batch_witness:
  "\<exists>t. (system_step (toy_lib (Ok toy_message)) default_worker_config)\<^sup>*\<^sup>* toy_system t \<and> in_flight 1 (sy_queue t)"
proof -
  obtain t where t: "(system_step (toy_lib (Ok toy_message)) default_worker_config)\<^sup>*\<^sup>* toy_system t" "sy_running t"
    "sy_batch t = [row_to_item (utc 7) (new_row (utc 5) 1 sample_mail)]" using toy_run by blast
  have "system_start toy_system" by (simp add: system_start_def toy_system_def)
  from in_flight_is_the_batch [OF this t(1)] t show ?thesis by (auto simp: toy_item)
qed

section \<open>Two workers\<close>

text \<open>C37 - safety: a second worker on the same queue. Its start requeues what the first one has
  in flight, and its first fetch (if the batch is large enough) takes the same mails, which the
  first worker is still delivering: each of them is sent twice. The transaction around the
  fetch does not help.\<close>

theorem second_worker_refetches:
  assumes "db_inv d" and "dequeue_batch tie now limit No_Fault d = (Ok items, d1)" and "x \<in> set items"
    and "int (length (db_rows d)) \<le> limit'"
  shows "\<exists>items' d2. dequeue_batch tie' now' limit' No_Fault (snd (requeue_in_flight d1)) = (Ok items', d2) \<and>
    qi_id x \<in> qi_id ` set items'"
proof -
  let ?d = "snd (requeue_in_flight d1)"
  have len: "length (db_rows ?d) = length (db_rows d)"
    using dequeue_result [of tie now limit No_Fault d] assms(2) by (auto simp: requeue_in_flight_def update_where_def)
  obtain r where r: "find_id (qi_id x) d1 = Some r" "r_state r = In_Flight"
    using dequeue_takes(1) [OF assms(2,3,1)] by (auto simp: in_flight_def)
  let ?r = "r\<lparr>r_state := Pending, r_next_attempt_at := None\<rparr>"
  have f: "find_id (qi_id x) ?d = Some ?r"
    unfolding requeue_in_flight_def snd_conv using r by (simp add: find_id_update)
  have "due (iso_text (utcnow now')) ?r" by (simp add: due_def)
  then have "?r \<in> set (select_due tie' (iso_text (utcnow now')) limit' ?d)"
    using find_id_Some [OF f] len assms(4) length_filter_le [of "due (iso_text (utcnow now'))" "db_rows ?d"]
    by (auto simp: select_due_def sql_limit_def)
  moreover have "dequeue_batch tie' now' limit' No_Fault ?d = (Ok (map (row_to_item now') (select_due tie' (iso_text (utcnow now')) limit' ?d)),
      snd (dequeue_batch tie' now' limit' No_Fault ?d))"
    by (simp add: dequeue_batch_def Let_def)

  moreover have "qi_id (row_to_item now' ?r) = qi_id x" using find_id_Some [OF f] by simp
  ultimately show ?thesis by (metis image_eqI image_set)
qed

theorem second_worker_refetches_witness:
  "\<exists>items' d2. dequeue_batch r_id (utc 8) 10 No_Fault
     (snd (requeue_in_flight (snd (dequeue_batch r_id (utc 7) 10 No_Fault sample_db)))) = (Ok items', d2) \<and> 1 \<in> qi_id ` set items'"
  using second_worker_refetches [OF sample_db_inv sample_dequeue, of "row_to_item (utc 7) (new_row (utc 5) 1 sample_mail)" 10 r_id "utc 8"]
  unfolding sample_dequeue snd_conv by (simp add: sample_db_eq toy_item)

section \<open>A message that stops the worker\<close>

text \<open>A mail whose delivery raises, fresh or in flight, and received before every other.\<close>

definition poisoned :: "email_lib \<Rightarrow> lookup_table \<Rightarrow> int \<Rightarrow> db \<Rightarrow> bool" where
  "poisoned el t i d \<longleftrightarrow> (\<exists>r. find_id i d = Some r \<and> r_state r \<in> {Pending, In_Flight} \<and> r_next_attempt_at r = None \<and>
     parse_eml el (r_raw_eml r) = Raise AttributeError \<and> find_ds t (r_ds_id r) \<noteq> None \<and>
     (\<forall>s \<in> set (db_rows d). r_id s \<noteq> i \<longrightarrow> r_received_at r < r_received_at s))"

lemma poisoned_update:
  assumes "poisoned el t i d" and "\<And>r. r_id (f r) = r_id r" and "\<And>r. r_raw_eml (f r) = r_raw_eml r"
    and "\<And>r. r_ds_id (f r) = r_ds_id r" and "\<And>r. r_received_at (f r) = r_received_at r"
    and "\<And>r. P r \<Longrightarrow> r_state (f r) \<in> {Pending, In_Flight} \<and> (r_next_attempt_at r = None \<longrightarrow> r_next_attempt_at (f r) = None)"
  shows "poisoned el t i (update_where P f d)"
proof -
  obtain r where r: "find_id i d = Some r" "r_state r \<in> {Pending, In_Flight}" "r_next_attempt_at r = None"
    "parse_eml el (r_raw_eml r) = Raise AttributeError" "find_ds t (r_ds_id r) \<noteq> None"
    "\<forall>s \<in> set (db_rows d). r_id s \<noteq> i \<longrightarrow> r_received_at r < r_received_at s"
    using assms(1) by (auto simp: poisoned_def)
  let ?g = "\<lambda>r. if P r then f r else r"
  have "find_id i (update_where P f d) = Some (?g r)" using r(1) by (simp add: find_id_update assms(2))
  moreover have "\<forall>s \<in> set (db_rows (update_where P f d)). r_id s \<noteq> i \<longrightarrow> r_received_at (?g r) < r_received_at s"
    using r(6) by (auto simp: update_where_def assms(2,5))
  ultimately show ?thesis
    unfolding poisoned_def using r assms(3-6) by (intro exI [of _ "?g r"]) simp
qed

lemma hd_sort_key_strict:
  assumes "r \<in> set xs" and "\<And>x. x \<in> set xs \<Longrightarrow> x \<noteq> r \<Longrightarrow> k r < (k x :: 'b::linorder)"
  shows "\<exists>ys. sort_key k xs = r # ys"
proof -
  have "sort_key k xs \<noteq> []" using assms(1) by (metis empty_iff list.set(1) set_sort)
  then obtain y ys where y: "sort_key k xs = y # ys" by (meson neq_Nil_conv)
  have "sorted (map k (y # ys))" "r \<in> set (y # ys)" using y assms(1) by (metis sorted_sort_key, metis set_sort)
  then have "k y \<le> k r" by auto
  moreover have "y \<in> set xs" using y by (metis list.set_intros(1) set_sort)
  ultimately have "y = r" using assms(2) [of y] by (metis leD)
  with y show ?thesis by blast
qed

text \<open>It is the first mail of every batch.\<close>

lemma poisoned_first:
  assumes "db_inv d" and "poisoned el t i d" and "\<not> in_flight i d" and "limit \<noteq> 0"
  shows "\<exists>r rest. select_due tie now_text limit d = r # rest \<and> find_id i d = Some r \<and>
    parse_eml el (r_raw_eml r) = Raise AttributeError \<and> find_ds t (r_ds_id r) \<noteq> None"
proof -
  obtain r where r: "find_id i d = Some r" "r_state r \<in> {Pending, In_Flight}" "r_next_attempt_at r = None"
    "parse_eml el (r_raw_eml r) = Raise AttributeError" "find_ds t (r_ds_id r) \<noteq> None"
    "\<forall>s \<in> set (db_rows d). r_id s \<noteq> i \<longrightarrow> r_received_at r < r_received_at s"
    using assms(2) by (auto simp: poisoned_def)
  have row: "r \<in> set (db_rows d)" "r_id r = i" using find_id_Some [OF r(1)] by blast+
  have "due now_text r" using r(1-3) assms(3) by (auto simp: due_def in_flight_def)
  moreover have "(r_received_at r, tie r) < (r_received_at x, tie x)" if "x \<in> set (db_rows d)" "x \<noteq> r" for x
  proof -
    have "r_id x \<noteq> i" using that row r(1) find_id_in [of d x] assms(1) by (auto simp: db_inv_def)
    then show ?thesis using r(6) that by simp
  qed
  ultimately obtain ys where "sort_key (\<lambda>r. (r_received_at r, tie r)) (filter (due now_text) (db_rows d)) = r # ys"
    using hd_sort_key_strict [of r "filter (due now_text) (db_rows d)" "\<lambda>r. (r_received_at r, tie r)"] row by auto
  then have "\<exists>rest. select_due tie now_text limit d = r # rest"
    using assms(4) by (auto simp: select_due_def sql_limit_def take_Cons')
  with r show ?thesis by auto
qed

lemma key_view_requeue_dequeue:
  assumes "\<And>i. \<not> in_flight i d" and "db_inv d"
    and "\<And>r. r_id r \<in> S \<Longrightarrow> r \<in> set (db_rows d) \<Longrightarrow> r_state r = Pending"
  shows "key_view (snd (requeue_in_flight (update_where (\<lambda>r. r_id r \<in> S) (set_state In_Flight) d))) = key_view d"
proof
  fix k
  have no: "r_state r \<noteq> In_Flight" if "r \<in> set (db_rows d)" for r
    using assms(1) [of "r_id r"] find_id_in [of d r] that assms(2) by (auto simp: in_flight_def db_inv_def)
  show "key_view (snd (requeue_in_flight (update_where (\<lambda>r. r_id r \<in> S) (set_state In_Flight) d))) k = key_view d k"
  proof (cases "find_key k d")
    case None
    then show ?thesis
      unfolding requeue_in_flight_def snd_conv key_view_def by (simp add: find_key_update set_state_def)
  next
    case (Some r)
    then show ?thesis
      using find_key_Some [OF Some] no [of r] assms(3) [of r]
      unfolding requeue_in_flight_def snd_conv key_view_def
      by (simp add: find_key_update set_state_def payload_def)
  qed
qed

lemma process_poison:
  assumes "settled (en_obs env) (wk_lookup w)" and "find_ds (wk_lookup w) (qi_ds_id item) \<noteq> None"
    and "parse_eml el (qi_raw_eml item) = Raise AttributeError"
  shows "process el cfg env item w = (Raise AttributeError, w)"
  using assms by (auto simp: process_def resolve_def settled_def Let_def)

definition steady :: "lookup_table \<Rightarrow> tick_env \<Rightarrow> bool" where
  "steady t te \<longleftrightarrow> tk_fault te = No_Fault \<and> (\<forall>j. settled (en_obs (tk_items te j)) t)"

lemma restart_poisoned:
  assumes "db_inv (wk_queue w)" and "poisoned el (wk_lookup w) i (wk_queue w)" and "batch_size cfg \<noteq> 0"
    and "steady (wk_lookup w) te"
  shows "\<exists>w'. run_forever el cfg lim None (te # tes) w = (Raise AttributeError, w') \<and> wk_lookup w' = wk_lookup w \<and>
    db_inv (wk_queue w') \<and> poisoned el (wk_lookup w) i (wk_queue w') \<and>
    key_view (snd (requeue_in_flight (wk_queue w'))) = key_view (snd (requeue_in_flight (wk_queue w)))"
proof -
  define d where "d = snd (requeue_in_flight (wk_queue w))"
  have d: "db_inv d" "\<And>j. \<not> in_flight j d" "poisoned el (wk_lookup w) i d"
    unfolding d_def using assms(1) in_flight_requeue
    by (auto intro: db_inv_requeue) (auto simp: requeue_in_flight_def intro!: poisoned_update assms(2))
  define sel where "sel = select_due (tk_tie te) (iso_text (utcnow (tk_now te))) (batch_size cfg) d"
  obtain r rest where sel: "sel = r # rest" "find_id i d = Some r" "parse_eml el (r_raw_eml r) = Raise AttributeError"
    "find_ds (wk_lookup w) (r_ds_id r) \<noteq> None"
    using poisoned_first [OF d(1,3,2) assms(3)] unfolding sel_def by blast
  define q where "q = update_where (\<lambda>r. r_id r \<in> r_id ` set sel) (set_state In_Flight) d"
  have dq: "dequeue_batch (tk_tie te) (tk_now te) (batch_size cfg) (tk_fault te) d = (Ok (map (row_to_item (tk_now te)) sel), q)"
    using dequeue_result [of "tk_tie te" "tk_now te" "batch_size cfg" "No_Fault" d] assms(4)
    by (auto simp: steady_def q_def sel_def dequeue_batch_def Let_def)
  let ?w = "w\<lparr>wk_queue := q\<rparr>"
  have "process el cfg (tk_items te 0) (row_to_item (tk_now te) r) ?w = (Raise AttributeError, ?w)"
    using assms(4) sel(3,4) by (intro process_poison) (simp_all add: steady_def row_to_item_def)
  then have run: "run_forever el cfg lim None (te # tes) w = (Raise AttributeError, ?w)"
    unfolding run_forever_def d_def [symmetric] by (simp add: tick_def dq sel(1))
  have "db_inv q" using db_inv_dequeue [OF d(1), of "tk_tie te" "tk_now te" "batch_size cfg" "tk_fault te"] by (simp add: dq)
  moreover have "poisoned el (wk_lookup w) i q"
    unfolding q_def by (rule poisoned_update [OF d(3)]) (simp_all add: set_state_def)
  moreover have "key_view (snd (requeue_in_flight q)) = key_view d"
    unfolding q_def
  proof (rule key_view_requeue_dequeue [OF d(2,1)])
    fix s assume s: "r_id s \<in> r_id ` set sel" "s \<in> set (db_rows d)"
    then obtain s' where s': "s' \<in> set sel" "r_id s = r_id s'" by blast
    then have "s' \<in> set (db_rows d)" "due (iso_text (utcnow (tk_now te))) s'"
      using select_due_sub unfolding sel_def by blast+
    moreover from this have "s = s'" using s s' find_id_in [of d] d(1) by (metis db_inv_def option.inject)
    ultimately show "r_state s = Pending" by (simp add: due_def)
  qed
  ultimately show ?thesis using run by (intro exI [of _ ?w]) (simp add: d_def)
qed

text \<open>C40 - liveness: a message that blocks the queue. A mail whose parse raises anything but
  \<open>ParseError\<close> ends the worker on every start, before any other mail is
  delivered: after any number of restarts (some of which may fail in the recovery already)
  the queue is, up to the recovery, what it was. No
  attempt is counted, so \<open>max_attempts\<close> never ends it.\<close>

theorem poison_blocks_queue:
  assumes "db_inv (wk_queue w)" and "poisoned el (wk_lookup w) i (wk_queue w)" and "batch_size cfg \<noteq> 0"
    and "\<forall>(fault, tes) \<in> set runs. \<exists>te rest. tes = te # rest \<and> steady (wk_lookup w) te" and "steady (wk_lookup w) te"
    and "w' = foldl (\<lambda>w (fault, tes). snd (run_forever el cfg lim fault tes w)) w runs"
  shows "key_view (snd (requeue_in_flight (wk_queue w'))) = key_view (snd (requeue_in_flight (wk_queue w))) \<and>
    fst (run_forever el cfg lim None (te # rest) w') = Raise AttributeError"
  using assms
proof (induction runs arbitrary: w)
  case Nil
  then show ?case using restart_poisoned [of w el i cfg te lim rest] by auto
next
  case (Cons one runs)
  obtain fault t more where tes: "one = (fault, t # more)" "steady (wk_lookup w) t" using Cons.prems(4) by auto
  obtain w1 where w1: "snd (run_forever el cfg lim fault (t # more) w) = w1" "wk_lookup w1 = wk_lookup w"
    "db_inv (wk_queue w1)" "poisoned el (wk_lookup w) i (wk_queue w1)"
    "key_view (snd (requeue_in_flight (wk_queue w1))) = key_view (snd (requeue_in_flight (wk_queue w)))"
  proof (cases fault)
    case None
    with restart_poisoned [OF Cons.prems(1-3) tes(2), of lim more] that show thesis by auto
  next
    case (Some e)
    then have "snd (run_forever el cfg lim fault (t # more) w) = w" by (simp add: run_forever_def)
    with that [of w] Cons.prems(1,2) show thesis by simp
  qed
  have "w' = foldl (\<lambda>w (fault, tes). snd (run_forever el cfg lim fault tes w)) w1 runs"
    using Cons.prems(6) w1(1) by (simp add: tes(1))
  then have "key_view (snd (requeue_in_flight (wk_queue w'))) = key_view (snd (requeue_in_flight (wk_queue w1))) \<and>
    fst (run_forever el cfg lim None (te # rest) w') = Raise AttributeError"
    using Cons.prems w1(2-4) by (intro Cons.IH) auto
  then show ?case using w1(5) by simp
qed

theorem poison_blocks_queue_witness:
  "fst (run_forever (toy_lib (Ok related_text)) default_worker_config 100 None [toy_tick]
     (snd (run_forever (toy_lib (Ok related_text)) default_worker_config 100 None [toy_tick] toy_worker))) = Raise AttributeError"
proof -
  have p: "parse_eml (toy_lib (Ok related_text)) raw = Raise AttributeError" for raw
    by (simp add: parse_eml_def toy_lib_def related_text_def plain_mime_def get_header_def extract_address_def
        non_empty_def opt_str_def header_date_def extract_body_def get_body_def find_body_at before_first_def after_first_def)
  have "find_ds (wk_lookup toy_worker) ''firma'' \<noteq> None"
    using toy_resolve by (simp add: resolve_def toy_worker_def refresh_def known_table_def)
  then have "poisoned (toy_lib (Ok related_text)) (wk_lookup toy_worker) 1 (wk_queue toy_worker)"
    using toy_row(1) by (auto simp: poisoned_def toy_worker_def p sample_db_eq new_row_def sample_mail_def)
  moreover have "steady (wk_lookup toy_worker) toy_tick"
    by (simp add: steady_def toy_tick_def timeout_env_def toy_worker_def known_settled)
  moreover have "db_inv (wk_queue toy_worker)" "batch_size default_worker_config \<noteq> 0"
    by (simp_all add: toy_worker_def toy_config)
  ultimately show ?thesis
    using poison_blocks_queue [of toy_worker "toy_lib (Ok related_text)" 1 default_worker_config "[(None, [toy_tick])]" toy_tick _ 100 "[]"]
    by simp
qed

end
