(* ===== verification/Worker_Loop.thy ===== *)
theory Worker_Loop
  imports System
begin

text \<open>
  The worker's loop at the granularity of its awaits (\<open>Worker.run_forever\<close>, \<open>Worker.stop\<close>).
  A signal sets the stop event while the loop is suspended: in a delivery or in the wait
  between two polls. Between any two parts of the loop, other processes insert and prune. The
  loop is related to the system of \<open>System\<close> by a simulation and to the recursion
  \<open>run_forever\<close> by an equivalence.
\<close>

section \<open>The loop\<close>

text \<open>
  Where the loop stands: at its condition, inside a poll with the mails still to deliver, in
  \<open>wait_for\<close>, or returned (or left by an exception).
\<close>

datatype phase = Polling | Delivering "queue_item list" | Waiting | Ended "unit result"

record loop =
  lp_stop :: bool
  lp_phase :: phase
  lp_worker :: worker

text \<open>The recovery at the top; \<open>fault\<close> is the exception of its statement, which ends \<open>run_forever\<close>.\<close>

definition loop_begin :: "exn option \<Rightarrow> worker \<Rightarrow> loop" where
  "loop_begin fault w = (case fault of
     Some e \<Rightarrow> \<lparr>lp_stop = False, lp_phase = Ended (Raise e), lp_worker = w\<rparr>
   | None \<Rightarrow> \<lparr>lp_stop = False, lp_phase = Polling,
       lp_worker = w\<lparr>wk_queue := snd (requeue_in_flight (wk_queue w))\<rparr>\<rparr>)"

definition loop_queue :: "db \<Rightarrow> loop \<Rightarrow> loop" where
  "loop_queue q s = s\<lparr>lp_worker := (lp_worker s)\<lparr>wk_queue := q\<rparr>\<rparr>"

text \<open>
  The loop's own steps. A poll whose fetch fails returns at once, without the look at the
  queue's size. The wait ends with the event or with the timeout, and the condition is next.
\<close>

inductive loop_move :: "email_lib \<Rightarrow> worker_config \<Rightarrow> int \<Rightarrow> loop \<Rightarrow> loop \<Rightarrow> bool"
  for el :: email_lib and cfg :: worker_config and lim :: int where
  Leave: "lp_phase s = Polling \<Longrightarrow> lp_stop s \<Longrightarrow> loop_move el cfg lim s (s\<lparr>lp_phase := Ended (Ok ())\<rparr>)"
| Poll: "lp_phase s = Polling \<Longrightarrow> \<not> lp_stop s \<Longrightarrow>
    dequeue_batch tie now (batch_size cfg) f (wk_queue (lp_worker s)) = (Ok items, q) \<Longrightarrow>
    loop_move el cfg lim s (loop_queue q (s\<lparr>lp_phase := Delivering items\<rparr>))"
| Poll_Failed: "lp_phase s = Polling \<Longrightarrow> \<not> lp_stop s \<Longrightarrow>
    dequeue_batch tie now (batch_size cfg) f (wk_queue (lp_worker s)) = (Raise e, q) \<Longrightarrow>
    loop_move el cfg lim s (loop_queue q (s\<lparr>lp_phase := Waiting\<rparr>))"
| Deliver_One: "lp_phase s = Delivering (item # rest) \<Longrightarrow> clock_ok (en_now env) \<Longrightarrow>
    process el cfg env item (lp_worker s) = (Ok (), w) \<Longrightarrow>
    loop_move el cfg lim s (s\<lparr>lp_phase := Delivering rest, lp_worker := w\<rparr>)"
| Deliver_Raised: "lp_phase s = Delivering (item # rest) \<Longrightarrow> clock_ok (en_now env) \<Longrightarrow>
    process el cfg env item (lp_worker s) = (Raise e, w) \<Longrightarrow>
    loop_move el cfg lim s (s\<lparr>lp_phase := Ended (Raise e), lp_worker := w\<rparr>)"
| Look: "lp_phase s = Delivering [] \<Longrightarrow>
    maybe_alert_queue_size fault clock fate lim (lp_worker s) = (Ok (), w) \<Longrightarrow>
    loop_move el cfg lim s (s\<lparr>lp_phase := Waiting, lp_worker := w\<rparr>)"
| Look_Raised: "lp_phase s = Delivering [] \<Longrightarrow>
    maybe_alert_queue_size fault clock fate lim (lp_worker s) = (Raise e, w) \<Longrightarrow>
    loop_move el cfg lim s (s\<lparr>lp_phase := Ended (Raise e), lp_worker := w\<rparr>)"
| Wake: "lp_phase s = Waiting \<Longrightarrow> loop_move el cfg lim s (s\<lparr>lp_phase := Polling\<rparr>)"

text \<open>The signal, and the steps of the other processes on the queue.\<close>

inductive signal_step :: "loop \<Rightarrow> loop \<Rightarrow> bool" where
  "signal_step s (s\<lparr>lp_stop := True\<rparr>)"

inductive other_step :: "loop \<Rightarrow> loop \<Rightarrow> bool" where
  Inserted: "clock_ok now \<Longrightarrow> other_step s (loop_queue (snd (enqueue now m (wk_queue (lp_worker s)))) s)"
| Pruned: "prune_delivered now days (wk_queue (lp_worker s)) = Ok (n, q) \<Longrightarrow> other_step s (loop_queue q s)"

definition loop_step :: "email_lib \<Rightarrow> worker_config \<Rightarrow> int \<Rightarrow> loop \<Rightarrow> loop \<Rightarrow> bool" where
  "loop_step el cfg lim s t \<longleftrightarrow> loop_move el cfg lim s t \<or> signal_step s t \<or> other_step s t"

inductive_cases loop_moveE: "loop_move el cfg lim s t"
inductive_cases other_stepE: "other_step s t"
inductive_simps signal_step_iff: "signal_step s t"

lemma loop_queue_simps [simp]: "lp_stop (loop_queue q s) = lp_stop s" "lp_phase (loop_queue q s) = lp_phase s"
  "lp_worker (loop_queue q s) = (lp_worker s)\<lparr>wk_queue := q\<rparr>"
  by (simp_all add: loop_queue_def)

section \<open>The loop in the system\<close>

definition batch_left :: "loop \<Rightarrow> queue_item list" where
  "batch_left s = (case lp_phase s of Delivering items \<Rightarrow> items | _ \<Rightarrow> [])"

definition has_raised :: "loop \<Rightarrow> bool" where
  "has_raised s = (case lp_phase s of Ended (Inl e) \<Rightarrow> True | _ \<Rightarrow> False)"

definition system_of :: "loop \<Rightarrow> system" where
  "system_of s = \<lparr>sy_running = (\<not> has_raised s), sy_batch = batch_left s, sy_worker = lp_worker s\<rparr>"

lemma system_of_simps: "sy_running (system_of s) = (\<not> has_raised s)" "sy_batch (system_of s) = batch_left s"
  "sy_worker (system_of s) = lp_worker s"
  by (simp_all add: system_of_def)

lemma move_simulated: "loop_move el cfg lim s t \<Longrightarrow> system_step el cfg (system_of s) (system_of t) \<or> system_of t = system_of s"
proof (induction rule: loop_move.induct)
  case (Poll s tie now f items q)
  then have "system_of (loop_queue q (s\<lparr>lp_phase := Delivering items\<rparr>)) = set_queue q (system_of s\<lparr>sy_batch := items\<rparr>)"
    by (simp add: system_of_def set_queue_def loop_queue_def batch_left_def has_raised_def)
  then show ?case
    using system_step.Fetch [of "system_of s" tie now cfg f items q el] Poll by (simp add: system_of_def batch_left_def has_raised_def)
next
  case (Poll_Failed s tie now f e q)
  then have "q = wk_queue (lp_worker s)"
    using dequeue_result [of tie now "batch_size cfg" f "wk_queue (lp_worker s)"] by auto
  with Poll_Failed show ?case by (simp add: system_of_def loop_queue_def batch_left_def has_raised_def)
next
  case (Deliver_One s item rest env w)
  then have "system_of (s\<lparr>lp_phase := Delivering rest, lp_worker := w\<rparr>) = system_of s\<lparr>sy_batch := rest, sy_worker := w\<rparr>"
    by (simp add: system_of_def batch_left_def has_raised_def)
  then show ?case
    using system_step.Deliver [of "system_of s" item rest env el cfg w] Deliver_One by (simp add: system_of_def batch_left_def has_raised_def)
next
  case (Deliver_Raised s item rest env e w)
  then have "system_of (s\<lparr>lp_phase := Ended (Raise e), lp_worker := w\<rparr>) = system_of s\<lparr>sy_running := False, sy_batch := [], sy_worker := w\<rparr>"
    by (simp add: system_of_def batch_left_def has_raised_def)
  then show ?case
    using system_step.Raise_Out [of "system_of s" item rest el cfg env e w] Deliver_Raised
    by (simp add: system_of_def batch_left_def has_raised_def)
next
  case (Look s fault clock fate w)
  then have "system_of (s\<lparr>lp_phase := Waiting, lp_worker := w\<rparr>) = system_of s\<lparr>sy_worker := w\<rparr>"
    by (simp add: system_of_def batch_left_def has_raised_def)
  then show ?case
    using system_step.Alert [of "system_of s" fault clock fate lim w el cfg] Look
    by (simp add: system_of_def batch_left_def has_raised_def)
next
  case (Look_Raised s fault clock fate e w)
  then have "system_of (s\<lparr>lp_phase := Ended (Raise e), lp_worker := w\<rparr>) =
      system_of s\<lparr>sy_running := False, sy_batch := [], sy_worker := w\<rparr>"
    by (simp add: system_of_def batch_left_def has_raised_def)
  then show ?case
    using system_step.Alert_Raised [of "system_of s" fault clock fate lim e w el cfg] Look_Raised
    by (simp add: system_of_def batch_left_def has_raised_def)
qed (simp_all add: system_of_def batch_left_def has_raised_def)

lemma other_simulated: "other_step s t \<Longrightarrow> system_step el cfg (system_of s) (system_of t)"
proof (induction rule: other_step.induct)
  case (Inserted now s m)
  then show ?case
    using system_step.Receive [of now el cfg "system_of s" m]
    by (simp add: system_of_def set_queue_def loop_queue_def batch_left_def has_raised_def)
next
  case (Pruned now days s n q)
  then show ?case
    using system_step.Prune [of now days "system_of s" n q el cfg]
    by (simp add: system_of_def set_queue_def loop_queue_def batch_left_def has_raised_def)
qed

lemma step_simulated: "loop_step el cfg lim s t \<Longrightarrow> system_step el cfg (system_of s) (system_of t) \<or> system_of t = system_of s"
proof -
  assume "loop_step el cfg lim s t"
  then consider "loop_move el cfg lim s t" | "t = s\<lparr>lp_stop := True\<rparr>" | "other_step s t"
    by (auto simp: loop_step_def signal_step_iff)
  then show ?thesis
    by cases (auto dest: move_simulated other_simulated simp: system_of_def batch_left_def has_raised_def)
qed

interpretation loop: simulation system_start "system_step el cfg" system_inv "loop_step el cfg lim" system_of for el cfg lim
  by unfold_locales (rule step_simulated)

lemma loop_begin_inv: "db_inv (wk_queue w) \<Longrightarrow> system_inv (system_of (loop_begin fault w))"
  by (cases fault)
    (simp_all add: system_inv_def system_of_def loop_begin_def batch_left_def has_raised_def in_flight_requeue db_inv_requeue)

section \<open>Stopping\<close>

text \<open>C8 - safety: a signal strands nothing. Whatever the other processes do and whenever the signal
  comes, the mails in flight are exactly the ones the loop still has to deliver; so when
  \<open>run_forever\<close> returns, no mail is in flight.\<close>

theorem graceful_stop:
  assumes "db_inv (wk_queue w)" and "(loop_step el cfg lim)\<^sup>*\<^sup>* (loop_begin fault w) s"
  shows "(\<not> has_raised s \<longrightarrow> (\<forall>i. in_flight i (wk_queue (lp_worker s)) \<longleftrightarrow> i \<in> qi_id ` set (batch_left s))) \<and>
    (lp_phase s = Ended (Ok ()) \<longrightarrow> (\<forall>i. \<not> in_flight i (wk_queue (lp_worker s)))) \<and> db_inv (wk_queue (lp_worker s))"
  using loop.view_inv [OF assms(2) loop_begin_inv [OF assms(1)]]
  by (auto simp: system_inv_def system_of_simps batch_left_def has_raised_def)

definition fetched_loop :: loop where
  "fetched_loop = \<lparr>lp_stop = False, lp_phase = Delivering [row_to_item (utc 7) (new_row (utc 5) 1 sample_mail)],
     lp_worker = toy_worker\<lparr>wk_queue := \<lparr>db_rows = [set_state In_Flight (new_row (utc 5) 1 sample_mail)], sequence = 1\<rparr>\<rparr>\<rparr>"

theorem graceful_stop_witness:
  "\<exists>s. (loop_step (toy_lib (Ok toy_message)) default_worker_config 100)\<^sup>*\<^sup>* (loop_begin None toy_worker) s \<and>
     in_flight 1 (wk_queue (lp_worker s))"
proof -
  let ?s = "loop_begin None toy_worker"
  have rq: "snd (requeue_in_flight sample_db) = sample_db"
    by (simp add: requeue_in_flight_def update_where_def sample_db_eq)
  have w: "wk_queue (lp_worker ?s) = sample_db" "lp_phase ?s = Polling" "\<not> lp_stop ?s"
    by (simp_all add: loop_begin_def toy_worker_def rq)
  have "dequeue_batch r_id (utc 7) (batch_size default_worker_config) No_Fault (wk_queue (lp_worker ?s)) =
      (Ok [row_to_item (utc 7) (new_row (utc 5) 1 sample_mail)], \<lparr>db_rows = [set_state In_Flight (new_row (utc 5) 1 sample_mail)], sequence = 1\<rparr>)"
    using sample_dequeue by (simp add: w toy_config)
  from Poll [OF w(2,3) this] have "loop_step (toy_lib (Ok toy_message)) default_worker_config 100 ?s fetched_loop"
    by (simp add: loop_step_def fetched_loop_def loop_queue_def loop_begin_def toy_worker_def)
  then have run: "(loop_step (toy_lib (Ok toy_message)) default_worker_config 100)\<^sup>*\<^sup>* ?s fetched_loop" by simp
  have "db_inv (wk_queue toy_worker)"
    using db_inv_enqueue [OF db_inv_init, of "utc 5" sample_mail] by (simp add: toy_worker_def sample_db_def)
  from graceful_stop [OF this run] have "in_flight 1 (wk_queue (lp_worker fetched_loop))"
    by (simp add: fetched_loop_def has_raised_def batch_left_def toy_item)
  with run show ?thesis by blast
qed

text \<open>The own steps a stopped loop has left, and the runs counted in own steps.\<close>

definition steps_left :: "loop \<Rightarrow> nat" where
  "steps_left s = (case lp_phase s of Ended r \<Rightarrow> 0 | Polling \<Rightarrow> 1 | Waiting \<Rightarrow> 2 | Delivering items \<Rightarrow> 3 + length items)"

inductive loop_runs :: "email_lib \<Rightarrow> worker_config \<Rightarrow> int \<Rightarrow> nat \<Rightarrow> loop \<Rightarrow> loop \<Rightarrow> bool"
  for el :: email_lib and cfg :: worker_config and lim :: int where
  Here: "loop_runs el cfg lim 0 s s"
| Own: "loop_runs el cfg lim n s t \<Longrightarrow> loop_move el cfg lim t u \<Longrightarrow> loop_runs el cfg lim (Suc n) s u"
| Signalled: "loop_runs el cfg lim n s t \<Longrightarrow> signal_step t u \<Longrightarrow> loop_runs el cfg lim n s u"
| Other: "loop_runs el cfg lim n s t \<Longrightarrow> other_step t u \<Longrightarrow> loop_runs el cfg lim n s u"

lemma stopped_move:
  "loop_move el cfg lim s t \<Longrightarrow> lp_stop s \<Longrightarrow> lp_stop t \<and> Suc (steps_left t) \<le> steps_left s \<and>
     (\<exists>k. batch_left t = drop k (batch_left s))"
proof (induction rule: loop_move.induct)
  case (Deliver_One s item rest env w)
  then show ?case by (auto simp: steps_left_def batch_left_def intro: exI [of _ 1])
qed (auto simp: steps_left_def batch_left_def intro: exI [of _ "Suc n" for n])

lemma stopped_outside: "signal_step s t \<or> other_step s t \<Longrightarrow> lp_stop s \<Longrightarrow> lp_stop t \<and> lp_phase t = lp_phase s"
  by (auto simp: signal_step_iff elim!: other_stepE)

lemma outside_same: "lp_phase t = lp_phase s \<Longrightarrow> steps_left t = steps_left s \<and> batch_left t = batch_left s"
  by (simp add: steps_left_def batch_left_def)

lemma loop_not_stuck:
  assumes "\<And>r. lp_phase s \<noteq> Ended r"
  shows "\<exists>t. loop_move el cfg lim s t"
proof (cases "lp_phase s")
  case Polling
  show ?thesis
  proof (cases "lp_stop s")
    case False
    obtain r q where "dequeue_batch r_id (utc 0) (batch_size cfg) No_Fault (wk_queue (lp_worker s)) = (r, q)" by fastforce
    then show ?thesis using Poll [OF Polling False] Poll_Failed [OF Polling False] by (cases r) blast+
  qed (use Polling Leave in blast)
next
  case (Delivering items)
  show ?thesis
  proof (cases items)
    case (Cons item rest)
    have "clock_ok (en_now timeout_env)" by (simp add: timeout_env_def)
    moreover obtain r w where "process el cfg timeout_env item (lp_worker s) = (r, w)" by fastforce
    ultimately show ?thesis
      using Delivering Cons Deliver_One [of s item rest timeout_env el cfg w] Deliver_Raised [of s item rest timeout_env el cfg _ w]
      by (cases r) auto
  next
    case Nil
    obtain w where "maybe_alert_queue_size None 0 Smtp_Ok lim (lp_worker s) = (Ok (), w)"
      using maybe_alert_Ok [of Smtp_Ok 0 lim "lp_worker s"] by (metis mail_fate.distinct(3) prod.collapse)
    with Delivering Nil Look show ?thesis by blast
  qed
qed (use assms Wake in blast)+

text \<open>C9 - termination: a signal is obeyed promptly. From the moment the stop event is set, the loop fetches
  no further mail, makes at most one own step for each mail it still has to deliver and three
  more, and is never stuck before it has ended: so \<open>run_forever\<close> returns or raises.\<close>

theorem stop_is_prompt:
  assumes "lp_stop s" and "loop_runs el cfg lim n s t"
  shows "n \<le> length (batch_left s) + 3 \<and> (\<exists>k. batch_left t = drop k (batch_left s)) \<and>
    ((\<exists>r. lp_phase t = Ended r) \<or> (\<exists>u. loop_move el cfg lim t u))"
proof -
  have "n + steps_left t \<le> steps_left s \<and> lp_stop t \<and> (\<exists>k. batch_left t = drop k (batch_left s))"
    using assms(2,1)
  proof (induction rule: loop_runs.induct)
    case Here
    then show ?case by (auto intro: exI [of _ 0])
  next
    case (Own n s t u)
    then show ?case using stopped_move [of el cfg lim t u] by (auto simp: drop_drop)
  next
    case (Signalled n s t u)
    then show ?case using stopped_outside [of t u] outside_same [of u t] by simp
  next
    case (Other n s t u)
    then show ?case using stopped_outside [of t u] outside_same [of u t] by simp
  qed
  moreover have "steps_left s \<le> length (batch_left s) + 3"
    by (simp add: steps_left_def batch_left_def split: phase.split)
  ultimately show ?thesis using loop_not_stuck [of t el cfg lim] by (metis add_leD1 le_trans)
qed

theorem stop_is_prompt_witness:
  "\<exists>t. loop_runs (toy_lib (Ok toy_message)) default_worker_config 100 1 (fetched_loop\<lparr>lp_stop := True\<rparr>) t \<and> (\<exists>k. batch_left t = drop k (batch_left fetched_loop))"
proof -
  let ?el = "toy_lib (Ok toy_message)" and ?cfg = default_worker_config
  let ?s = "fetched_loop\<lparr>lp_stop := True\<rparr>"
  obtain t where "loop_move ?el ?cfg 100 ?s t"
    using loop_not_stuck [of ?s ?el ?cfg 100] by (auto simp: fetched_loop_def)
  then have run: "loop_runs ?el ?cfg 100 1 ?s t" using Own [OF Here, of ?el ?cfg 100 ?s t] by simp
  have "batch_left ?s = batch_left fetched_loop" by (simp add: batch_left_def)
  with stop_is_prompt [OF _ run] run show ?thesis by auto
qed

section \<open>The loop is the recursion\<close>

lemma ticks_append: "ticks el cfg lim (as @ bs) w = (case ticks el cfg lim as w of
    (Inl e, w1) \<Rightarrow> (Raise e, w1) | (Inr _, w1) \<Rightarrow> ticks el cfg lim bs w1)"
  by (induction as arbitrary: w) (auto split: sum.split prod.split)

lemma process_all_append: "process_all el cfg envs n (as @ bs) w = (case process_all el cfg envs n as w of
    (Inl e, w1) \<Rightarrow> (Raise e, w1) | (Inr _, w1) \<Rightarrow> process_all el cfg envs (n + length as) bs w1)"
  by (induction as arbitrary: n w) (auto split: sum.split prod.split)

lemma process_all_cong:
  "(\<And>j. n \<le> j \<Longrightarrow> j < n + length items \<Longrightarrow> envs j = envs' j) \<Longrightarrow>
    process_all el cfg envs n items w = process_all el cfg envs' n items w"
proof (induction items arbitrary: n w)
  case (Cons item items)
  then have "process_all el cfg envs (Suc n) items v = process_all el cfg envs' (Suc n) items v" for v by simp
  moreover have "envs n = envs' n" using Cons.prems by simp
  ultimately show ?case by (simp split: sum.split prod.split)
qed simp

text \<open>How far a loop that has only its own steps and signals is in the recursion.\<close>

definition tick_clocks_ok :: "tick_env \<Rightarrow> bool" where
  "tick_clocks_ok te \<longleftrightarrow> (\<forall>j. clock_ok (en_now (tk_items te j)))"

definition mid_poll :: "email_lib \<Rightarrow> worker_config \<Rightarrow> worker \<Rightarrow> queue_item list \<Rightarrow> worker \<Rightarrow> bool" where
  "mid_poll el cfg w0 rest w \<longleftrightarrow> (\<exists>tie now f items q envs settled.
     dequeue_batch tie now (batch_size cfg) f (wk_queue w0) = (Ok items, q) \<and> items = settled @ rest \<and>
     process_all el cfg envs 0 settled (w0\<lparr>wk_queue := q\<rparr>) = (Ok (), w) \<and> (\<forall>j. clock_ok (en_now (envs j))))"

definition matches :: "email_lib \<Rightarrow> worker_config \<Rightarrow> int \<Rightarrow> worker \<Rightarrow> loop \<Rightarrow> bool" where
  "matches el cfg lim w0 s \<longleftrightarrow> (case lp_phase s of
     Polling \<Rightarrow> \<exists>tes. list_all tick_clocks_ok tes \<and> ticks el cfg lim tes w0 = (Ok (), lp_worker s)
   | Waiting \<Rightarrow> \<exists>tes. list_all tick_clocks_ok tes \<and> ticks el cfg lim tes w0 = (Ok (), lp_worker s)
   | Ended r \<Rightarrow> \<exists>tes. list_all tick_clocks_ok tes \<and> ticks el cfg lim tes w0 = (r, lp_worker s)
   | Delivering rest \<Rightarrow> \<exists>tes w1. list_all tick_clocks_ok tes \<and> ticks el cfg lim tes w0 = (Ok (), w1) \<and>
       mid_poll el cfg w1 rest (lp_worker s))"

lemma mid_poll_next:
  assumes "mid_poll el cfg w0 (item # rest) w" and "process el cfg env item w = (r, w')" and "clock_ok (en_now env)"
  shows "\<exists>tie now f items q envs settled. dequeue_batch tie now (batch_size cfg) f (wk_queue w0) = (Ok items, q) \<and>
    items = (settled @ [item]) @ rest \<and>
    process_all el cfg envs 0 (settled @ [item]) (w0\<lparr>wk_queue := q\<rparr>) = (r, w') \<and> (\<forall>j. clock_ok (en_now (envs j)))"
proof -
  from assms(1) obtain tie now f items q envs settled where d:
    "dequeue_batch tie now (batch_size cfg) f (wk_queue w0) = (Ok items, q)" "items = settled @ item # rest"
    "process_all el cfg envs 0 settled (w0\<lparr>wk_queue := q\<rparr>) = (Ok (), w)" "\<forall>j. clock_ok (en_now (envs j))"
    unfolding mid_poll_def by blast
  let ?envs = "envs(length settled := env)"
  have "process_all el cfg ?envs 0 settled (w0\<lparr>wk_queue := q\<rparr>) = (Ok (), w)"
    unfolding d(3) [symmetric] by (rule process_all_cong) simp
  then have "process_all el cfg ?envs 0 (settled @ [item]) (w0\<lparr>wk_queue := q\<rparr>) = (r, w')"
    using assms(2) by (cases r) (simp_all add: process_all_append)
  with d assms(3) show ?thesis by (intro exI [of _ tie] exI [of _ now] exI [of _ f] exI [of _ items] exI [of _ q] exI [of _ ?envs]
        exI [of _ settled]) simp
qed

lemma one_tick: "list_all tick_clocks_ok tes \<and> ticks el cfg lim tes w0 = (Ok (), w1) \<Longrightarrow> tick el cfg lim te w1 = (r, w2) \<Longrightarrow>
    tick_clocks_ok te \<Longrightarrow> \<exists>tes. list_all tick_clocks_ok tes \<and> ticks el cfg lim tes w0 = (r, w2)"
  by (intro exI [of _ "tes @ [te]"]) (cases r, simp_all add: ticks_append)

lemma matches_look:
  assumes "matches el cfg lim w0 s" and "lp_phase s = Delivering []"
    and "maybe_alert_queue_size fault clock fate lim (lp_worker s) = (r, w)"
  shows "\<exists>tes. list_all tick_clocks_ok tes \<and> ticks el cfg lim tes w0 = (r, w)"
proof -
  from assms(1,2) obtain tes w1 where tes: "list_all tick_clocks_ok tes \<and> ticks el cfg lim tes w0 = (Ok (), w1)"
    "mid_poll el cfg w1 [] (lp_worker s)"
    by (auto simp: matches_def)
  from tes(2) obtain tie now f items q envs where d:
    "dequeue_batch tie now (batch_size cfg) f (wk_queue w1) = (Ok items, q)"
    "process_all el cfg envs 0 items (w1\<lparr>wk_queue := q\<rparr>) = (Ok (), lp_worker s)" "\<forall>j. clock_ok (en_now (envs j))"
    unfolding mid_poll_def by auto
  let ?te = "\<lparr>tk_tie = tie, tk_now = now, tk_fault = f, tk_items = envs, tk_mono = clock, tk_smtp = fate, tk_stats = fault\<rparr>"
  have "tick el cfg lim ?te w1 = (r, w)" using d assms(3) by (simp add: tick_def)
  moreover have "tick_clocks_ok ?te" using d(3) by (simp add: tick_clocks_ok_def)
  ultimately show ?thesis using one_tick [OF tes(1)] by blast
qed

lemma matches_move: "loop_move el cfg lim s t \<Longrightarrow> matches el cfg lim w0 s \<Longrightarrow> matches el cfg lim w0 t"
proof (induction rule: loop_move.induct)
  case (Poll s tie now f items q)
  then obtain tes where "list_all tick_clocks_ok tes" "ticks el cfg lim tes w0 = (Ok (), lp_worker s)" by (auto simp: matches_def)
  moreover have "mid_poll el cfg (lp_worker s) items ((lp_worker s)\<lparr>wk_queue := q\<rparr>)"
    using Poll(3) unfolding mid_poll_def
    by (intro exI [of _ tie] exI [of _ now] exI [of _ f] exI [of _ items] exI [of _ q] exI [of _ "\<lambda>_. timeout_env"] exI [of _ "[]"])
      (simp add: timeout_env_def)
  ultimately show ?case by (auto simp: matches_def)
next
  case (Poll_Failed s tie now f e q)
  then obtain tes where tes: "list_all tick_clocks_ok tes \<and> ticks el cfg lim tes w0 = (Ok (), lp_worker s)" by (auto simp: matches_def)
  let ?te = "toy_tick\<lparr>tk_tie := tie, tk_now := now, tk_fault := f\<rparr>"
  have "tick el cfg lim ?te (lp_worker s) = (Ok (), (lp_worker s)\<lparr>wk_queue := q\<rparr>)" using Poll_Failed(3) by (simp add: tick_def)
  moreover have "tick_clocks_ok ?te" by (simp add: tick_clocks_ok_def toy_tick_def timeout_env_def)
  ultimately show ?case using one_tick [OF tes] by (simp add: matches_def)
next
  case (Deliver_One s item rest env w)
  then obtain tes w1 where tes: "list_all tick_clocks_ok tes \<and> ticks el cfg lim tes w0 = (Ok (), w1)"
    "mid_poll el cfg w1 (item # rest) (lp_worker s)"
    by (auto simp: matches_def)
  from mid_poll_next [OF tes(2) Deliver_One(3,2)] have "mid_poll el cfg w1 rest w" unfolding mid_poll_def by blast
  with tes(1) show ?case by (auto simp: matches_def)
next
  case (Deliver_Raised s item rest env e w)
  then obtain tes w1 where tes: "list_all tick_clocks_ok tes \<and> ticks el cfg lim tes w0 = (Ok (), w1)"
    "mid_poll el cfg w1 (item # rest) (lp_worker s)"
    by (auto simp: matches_def)
  from mid_poll_next [OF tes(2) Deliver_Raised(3,2)] obtain tie now f items q envs settled where d:
    "dequeue_batch tie now (batch_size cfg) f (wk_queue w1) = (Ok items, q)" "items = (settled @ [item]) @ rest"
    "process_all el cfg envs 0 (settled @ [item]) (w1\<lparr>wk_queue := q\<rparr>) = (Raise e, w)" "\<forall>j. clock_ok (en_now (envs j))"
    by blast
  let ?te = "toy_tick\<lparr>tk_tie := tie, tk_now := now, tk_fault := f, tk_items := envs\<rparr>"
  have "process_all el cfg envs 0 items (w1\<lparr>wk_queue := q\<rparr>) = (Raise e, w)"
    unfolding d(2) by (subst process_all_append) (simp add: d(3) del: process_all.simps)
  then have "tick el cfg lim ?te w1 = (Raise e, w)" using d(1) by (simp add: tick_def)
  moreover have "tick_clocks_ok ?te" using d(4) by (simp add: tick_clocks_ok_def)
  ultimately show ?case using one_tick [OF tes(1)] by (simp add: matches_def)
next
  case (Look s fault clock fate w)
  with matches_look [of el cfg lim w0 s fault clock fate] show ?case by (simp add: matches_def)
next
  case (Look_Raised s fault clock fate e w)
  with matches_look [of el cfg lim w0 s fault clock fate] show ?case by (simp add: matches_def)
qed (auto simp: matches_def)

definition alone :: "email_lib \<Rightarrow> worker_config \<Rightarrow> int \<Rightarrow> loop \<Rightarrow> loop \<Rightarrow> bool" where
  "alone el cfg lim s t \<longleftrightarrow> loop_move el cfg lim s t \<or> signal_step s t"

lemma matches_alone: "(alone el cfg lim)\<^sup>*\<^sup>* s t \<Longrightarrow> matches el cfg lim w0 s \<Longrightarrow> matches el cfg lim w0 t"
proof (induction rule: rtranclp_induct)
  case (step t u)
  then show ?case
    using matches_move [of el cfg lim t u w0] by (auto simp: alone_def signal_step_iff matches_def split: phase.splits)
qed simp

lemma phase_first: "s\<lparr>lp_worker := w, lp_phase := p\<rparr> = s\<lparr>lp_phase := p, lp_worker := w\<rparr>"
  by (cases s) simp

lemma batch_runs:
  assumes "process_all el cfg envs n items (lp_worker s) = (r, w')" and "lp_phase s = Delivering items"
    and "\<forall>j. clock_ok (en_now (envs j))"
  shows "(alone el cfg lim)\<^sup>*\<^sup>* s (s\<lparr>lp_phase := (case r of Inl e \<Rightarrow> Ended (Raise e) | Inr _ \<Rightarrow> Delivering []), lp_worker := w'\<rparr>)"
  using assms
proof (induction items arbitrary: n s)
  case Nil
  then have "r = Ok ()" "s\<lparr>lp_phase := Delivering [], lp_worker := w'\<rparr> = s" by (cases s, simp)+
  then show ?case by simp
next
  case (Cons item items)
  obtain r1 w1 where p: "process el cfg (envs n) item (lp_worker s) = (r1, w1)" by fastforce
  show ?case
  proof (cases r1)
    case (Inl e)
    with Cons.prems p have "alone el cfg lim s (s\<lparr>lp_phase := Ended (Raise e), lp_worker := w1\<rparr>)"
      unfolding alone_def by (intro disjI1 Deliver_Raised) simp_all
    with Inl Cons.prems(1) p show ?thesis by auto
  next
    case (Inr u)
    let ?s = "s\<lparr>lp_phase := Delivering items, lp_worker := w1\<rparr>"
    have "alone el cfg lim s ?s"
      using Cons.prems p Inr unfolding alone_def by (intro disjI1 Deliver_One [of s item items "envs n"]) simp_all
    moreover have "process_all el cfg envs (Suc n) items (lp_worker ?s) = (r, w')" using Cons.prems(1) p Inr by simp
    note Cons.IH [OF this _ Cons.prems(3)]
    ultimately show ?thesis by (auto intro: converse_rtranclp_into_rtranclp)
  qed
qed

lemma tick_runs:
  assumes "tick el cfg lim te (lp_worker s) = (r, w')" and "lp_phase s = Polling" and "\<not> lp_stop s" and "tick_clocks_ok te"
  shows "(alone el cfg lim)\<^sup>*\<^sup>* s (s\<lparr>lp_phase := (case r of Inl e \<Rightarrow> Ended (Raise e) | Inr _ \<Rightarrow> Polling), lp_worker := w'\<rparr>)"
proof -
  obtain b q where d: "dequeue_batch (tk_tie te) (tk_now te) (batch_size cfg) (tk_fault te) (wk_queue (lp_worker s)) = (b, q)"
    by fastforce
  have wake: "alone el cfg lim (t\<lparr>lp_phase := Waiting\<rparr>) (t\<lparr>lp_phase := Polling\<rparr>)" for t
    using Wake [of "t\<lparr>lp_phase := Waiting\<rparr>" el cfg lim] by (simp add: alone_def)
  show ?thesis
  proof (cases b)
    case (Inl e)
    with assms(1) d have w': "r = Ok ()" "w' = (lp_worker s)\<lparr>wk_queue := q\<rparr>" by (auto simp: tick_def)
    let ?t = "loop_queue q s"
    have "alone el cfg lim s (?t\<lparr>lp_phase := Waiting\<rparr>)"
      using Poll_Failed [OF assms(2,3) d [unfolded Inl], of el lim] by (cases s) (simp add: alone_def loop_queue_def)
    with wake [of ?t] have "(alone el cfg lim)\<^sup>*\<^sup>* s (?t\<lparr>lp_phase := Polling\<rparr>)" by simp
    moreover have "?t\<lparr>lp_phase := Polling\<rparr> = s\<lparr>lp_phase := Polling, lp_worker := w'\<rparr>"
      by (cases s) (simp add: loop_queue_def w'(2))
    ultimately show ?thesis using w'(1) by simp
  next
    case (Inr items)
    let ?t = "loop_queue q (s\<lparr>lp_phase := Delivering items\<rparr>)"
    have start: "alone el cfg lim s ?t"
      using Poll [OF assms(2,3) d [unfolded Inr], of el lim] by (simp add: alone_def)
    obtain r1 w1 where p: "process_all el cfg (tk_items te) 0 items (lp_worker ?t) = (r1, w1)" by fastforce
    have run: "(alone el cfg lim)\<^sup>*\<^sup>* ?t (?t\<lparr>lp_phase := (case r1 of Inl e \<Rightarrow> Ended (Raise e) | Inr _ \<Rightarrow> Delivering []), lp_worker := w1\<rparr>)"
      by (rule batch_runs [OF p]) (use assms(4) in \<open>simp_all add: tick_clocks_ok_def\<close>)
    show ?thesis
    proof (cases r1)
      case (Inl e)
      with assms(1) d Inr p have "r = Raise e" "w' = w1" by (simp_all add: tick_def)
      with run start Inl show ?thesis by (simp add: loop_queue_def converse_rtranclp_into_rtranclp)
    next
      case (Inr u)
      with assms(1) d \<open>b = Inr items\<close> p
      have w': "maybe_alert_queue_size (tk_stats te) (tk_mono te) (tk_smtp te) lim w1 = (r, w')" by (simp add: tick_def)
      let ?u = "?t\<lparr>lp_phase := Delivering [], lp_worker := w1\<rparr>" and ?v = "?t\<lparr>lp_worker := w'\<rparr>"
      have to_u: "(alone el cfg lim)\<^sup>*\<^sup>* s ?u" using run start Inr by (simp add: converse_rtranclp_into_rtranclp)
      have v: "?v\<lparr>lp_phase := p\<rparr> = s\<lparr>lp_phase := p, lp_worker := w'\<rparr>" for p
        by (cases s) (simp add: loop_queue_def)
      show ?thesis
      proof (cases r)
        case (Inl e)
        with w' have "alone el cfg lim ?u (?v\<lparr>lp_phase := Ended (Raise e)\<rparr>)"
          using Look_Raised [of ?u "tk_stats te" "tk_mono te" "tk_smtp te" lim e w' el cfg] by (simp add: alone_def phase_first)
        with to_u have "(alone el cfg lim)\<^sup>*\<^sup>* s (?v\<lparr>lp_phase := Ended (Raise e)\<rparr>)" by simp
        with Inl show ?thesis by (simp only: v) simp
      next
        case (Inr x)
        with w' have "alone el cfg lim ?u (?v\<lparr>lp_phase := Waiting\<rparr>)"
          using Look [of ?u "tk_stats te" "tk_mono te" "tk_smtp te" lim w' el cfg] by (simp add: alone_def phase_first)
        with wake [of ?v] have "(alone el cfg lim)\<^sup>*\<^sup>* ?u (?v\<lparr>lp_phase := Polling\<rparr>)" by simp
        with to_u have "(alone el cfg lim)\<^sup>*\<^sup>* s (?v\<lparr>lp_phase := Polling\<rparr>)" by simp
        with Inr show ?thesis by (simp only: v) simp
      qed
    qed
  qed
qed

lemma ticks_runs:
  "ticks el cfg lim tes (lp_worker s) = (r, w') \<Longrightarrow> lp_phase s = Polling \<Longrightarrow> \<not> lp_stop s \<Longrightarrow> list_all tick_clocks_ok tes \<Longrightarrow>
    \<exists>t. (alone el cfg lim)\<^sup>*\<^sup>* s t \<and> lp_phase t = Ended r \<and> lp_worker t = w'"
proof (induction tes arbitrary: s)
  case Nil
  have "alone el cfg lim s (s\<lparr>lp_stop := True\<rparr>)" by (simp add: alone_def signal_step_iff)
  moreover have "alone el cfg lim (s\<lparr>lp_stop := True\<rparr>) (s\<lparr>lp_stop := True, lp_phase := Ended (Ok ())\<rparr>)"
    using Leave [of "s\<lparr>lp_stop := True\<rparr>" el cfg lim] Nil.prems(2) by (simp add: alone_def)
  ultimately have "(alone el cfg lim)\<^sup>*\<^sup>* s (s\<lparr>lp_stop := True, lp_phase := Ended (Ok ())\<rparr>)" by simp
  then show ?case using Nil.prems(1) by (intro exI conjI) (assumption, simp_all)
next
  case (Cons te tes)
  obtain r1 w1 where t: "tick el cfg lim te (lp_worker s) = (r1, w1)" by fastforce
  let ?s = "s\<lparr>lp_phase := (case r1 of Inl e \<Rightarrow> Ended (Raise e) | Inr _ \<Rightarrow> Polling), lp_worker := w1\<rparr>"
  have run: "(alone el cfg lim)\<^sup>*\<^sup>* s ?s" using tick_runs [OF t] Cons.prems by simp
  show ?case
  proof (cases r1)
    case (Inl e)
    with Cons.prems(1) t have "r = Raise e" "w' = w1" by simp_all
    with run Inl show ?thesis by (intro exI [of _ ?s]) simp
  next
    case (Inr u)
    have "\<exists>v. (alone el cfg lim)\<^sup>*\<^sup>* ?s v \<and> lp_phase v = Ended r \<and> lp_worker v = w'"
      using Cons.prems t Inr by (intro Cons.IH) simp_all
    then obtain v where "(alone el cfg lim)\<^sup>*\<^sup>* ?s v" "lp_phase v = Ended r" "lp_worker v = w'" by blast
    with rtranclp_trans [OF run] show ?thesis by blast
  qed
qed

lemma ended_stays: "(alone el cfg lim)\<^sup>*\<^sup>* s t \<Longrightarrow> lp_phase s = Ended r \<Longrightarrow> lp_phase t = Ended r \<and> lp_worker t = lp_worker s"
  by (induction rule: rtranclp_induct) (auto simp: alone_def signal_step_iff elim!: loop_moveE)

text \<open>
  The two models of the loop agree: what the one over the awaits can end with, alone on its
  queue and with signals at any points, is what the recursion computes for some list of polls,
  and the other way round. So what is shown of one holds of the other.
\<close>

lemma loop_is_run_forever:
  "(\<exists>s. (alone el cfg lim)\<^sup>*\<^sup>* (loop_begin fault w) s \<and> lp_phase s = Ended r \<and> lp_worker s = w') \<longleftrightarrow>
    (\<exists>tes. list_all tick_clocks_ok tes \<and> run_forever el cfg lim fault tes w = (r, w'))"
proof (cases fault)
  case (Some e)
  have "lp_phase s = Ended (Raise e) \<and> lp_worker s = w" if "(alone el cfg lim)\<^sup>*\<^sup>* (loop_begin fault w) s" for s
    using ended_stays [OF that] Some by (simp add: loop_begin_def)
  moreover have "lp_phase (loop_begin fault w) = Ended (Raise e)" "lp_worker (loop_begin fault w) = w"
    using Some by (simp_all add: loop_begin_def)
  moreover have "list_all tick_clocks_ok []" by simp
  ultimately show ?thesis
    unfolding Some run_forever_def option.case by (metis phase.inject(2) prod.inject rtranclp.rtrancl_refl)
next
  case None
  show ?thesis unfolding None
proof
  let ?w = "w\<lparr>wk_queue := snd (requeue_in_flight (wk_queue w))\<rparr>"
  {
    assume "\<exists>s. (alone el cfg lim)\<^sup>*\<^sup>* (loop_begin None w) s \<and> lp_phase s = Ended r \<and> lp_worker s = w'"
    then obtain s where s: "(alone el cfg lim)\<^sup>*\<^sup>* (loop_begin None w) s" "lp_phase s = Ended r" "lp_worker s = w'" by blast
    have "matches el cfg lim ?w (loop_begin None w)"
      by (auto simp: matches_def loop_begin_def intro: exI [of _ "[]"])
    from matches_alone [OF s(1) this] s(2,3)
    show "\<exists>tes. list_all tick_clocks_ok tes \<and> run_forever el cfg lim None tes w = (r, w')"
      by (simp add: matches_def run_forever_def)
  }
  assume "\<exists>tes. list_all tick_clocks_ok tes \<and> run_forever el cfg lim None tes w = (r, w')"
  then show "\<exists>s. (alone el cfg lim)\<^sup>*\<^sup>* (loop_begin None w) s \<and> lp_phase s = Ended r \<and> lp_worker s = w'"
    using ticks_runs [of el cfg lim _ "loop_begin None w" r w'] by (auto simp: run_forever_def loop_begin_def)
qed
qed

end
