(* ===== verification/Config.thy ===== *)
theory Config
  imports Lookup
begin

text \<open>
  \<open>mail_router/config.py\<close>: the configuration that every process loads at its start.
  \<open>yaml.safe_load\<close> is a parameter: \<open>config_load\<close> takes the document it returns, as a value
  of the JSON data model (a YAML date or a key that is no string is outside it). The
  conversions \<open>float\<close>, \<open>int\<close>, \<open>bool\<close>, \<open>str\<close>, \<open>list\<close> and \<open>Path\<close> that the code applies are
  written out. The code does not look at the elements of the two lists it loads; a document
  whose lists hold values of other types than the classes declare is loaded by the code all
  the same, and \<open>config_load\<close> answers \<open>Ok None\<close> for it: it has no value of the declared type.
\<close>

section \<open>Python's conversions\<close>

text \<open>Digits with single underscores between them.\<close>

definition us_digits :: "string \<Rightarrow> string option" where
  "us_digits s = (if s \<noteq> [] \<and> list_all (\<lambda>c. is_digit c \<or> c = CHR ''_'') s \<and> hd s \<noteq> CHR ''_'' \<and>
       last s \<noteq> CHR ''_'' \<and> \<not> contains s ''__''
     then Some (filter is_digit s) else None)"

definition opt_digits :: "string \<Rightarrow> string option" where
  "opt_digits s = (if s = [] then Some [] else us_digits s)"

text \<open>An optional sign: whether it is a minus, and the text after it.\<close>

definition signed :: "string \<Rightarrow> bool \<times> string" where
  "signed s = (if startswith s ''-'' then (True, tl s) else if startswith s ''+'' then (False, tl s) else (False, s))"

definition negate_if :: "bool \<Rightarrow> int \<Rightarrow> int" where
  "negate_if b i = (if b then - i else i)"

definition int_of_str :: "string \<Rightarrow> int option" where
  "int_of_str s = (let (neg, t) = signed (strip s) in map_option (\<lambda>ds. negate_if neg (int (dec_val ds))) (us_digits t))"

definition float_of_str :: "string \<Rightarrow> py_float option" where
  "float_of_str s =
    (let (neg, t) = signed (py_lower (strip s)) in
     if t = ''inf'' \<or> t = ''infinity'' then Some (Infinity neg)
     else if t = ''nan'' then Some NaN
     else
       let mant = before_first (CHR ''e'') t;
           (eneg, ex) = signed (after_first (CHR ''e'') t);
           whole = before_first (CHR ''.'') mant; frac = after_first (CHR ''.'') mant in
       if whole = [] \<and> frac = [] then None
       else case (opt_digits whole, opt_digits frac, if CHR ''e'' \<in> set t then us_digits ex else Some []) of
         (Some w, Some f, Some x) \<Rightarrow>
           Some (Dec (negate_if neg (int (dec_val (w @ f)))) (negate_if eneg (int (dec_val x)) - int (length f)))
       | _ \<Rightarrow> None)"

text \<open>\<open>float(v)\<close>, \<open>int(v)\<close> (which cuts a float's fraction off) and \<open>bool\<close> as a number.\<close>

definition bool_int :: "bool \<Rightarrow> int" where
  "bool_int b = (if b then 1 else 0)"

definition py_float_of :: "json \<Rightarrow> py_float result" where
  "py_float_of v = (case v of
     JBool b \<Rightarrow> Ok (Dec (bool_int b) 0)
   | JInt i \<Rightarrow> Ok (Dec i 0)
   | JFloat t \<Rightarrow> (case float_of_str t of None \<Rightarrow> Raise ValueError | Some x \<Rightarrow> Ok x)
   | JStr s \<Rightarrow> (case float_of_str s of None \<Rightarrow> Raise ValueError | Some x \<Rightarrow> Ok x)
   | _ \<Rightarrow> Raise TypeError)"

definition cut_float :: "py_float \<Rightarrow> int result" where
  "cut_float x = (case x of
     Dec m e \<Rightarrow> Ok (if 0 \<le> e then m * 10 ^ nat e else sgn m * (\<bar>m\<bar> div 10 ^ nat (- e)))
   | Infinity _ \<Rightarrow> Raise OverflowError
   | NaN \<Rightarrow> Raise ValueError)"

definition py_int_of :: "json \<Rightarrow> int result" where
  "py_int_of v = (case v of
     JBool b \<Rightarrow> Ok (bool_int b)
   | JInt i \<Rightarrow> Ok i
   | JFloat t \<Rightarrow> bind_result (py_float_of v) cut_float
   | JStr s \<Rightarrow> (case int_of_str s of None \<Rightarrow> Raise ValueError | Some i \<Rightarrow> Ok i)
   | _ \<Rightarrow> Raise TypeError)"

text \<open>\<open>Path(v)\<close> as a text: slashes collapse, \<open>.\<close> components go.\<close>

fun split_on :: "char \<Rightarrow> string \<Rightarrow> string list" where
  "split_on c [] = [[]]"
| "split_on c (x # xs) = (if x = c then [] # split_on c xs
     else case split_on c xs of [] \<Rightarrow> [[x]] | w # ws \<Rightarrow> (x # w) # ws)"

definition path_text :: "string \<Rightarrow> string" where
  "path_text s =
    (let parts = filter (\<lambda>p. p \<noteq> [] \<and> p \<noteq> ''.'') (split_on (CHR ''/'') s);
         root = (if startswith s ''//'' \<and> \<not> startswith s ''///'' then ''//'' else if startswith s ''/'' then ''/'' else []);
         t = root @ join ''/'' parts in
     if t = [] then ''.'' else t)"

definition py_path :: "json \<Rightarrow> string result" where
  "py_path v = (case v of JStr s \<Rightarrow> Ok (path_text s) | _ \<Rightarrow> Raise TypeError)"

text \<open>\<open>str.upper\<close> on the characters whose capital letter is one character below 256.\<close>

definition upper_char :: "char \<Rightarrow> string" where
  "upper_char c = (let n = of_char c :: nat in
     if 97 \<le> n \<and> n \<le> 122 \<or> 224 \<le> n \<and> n \<le> 254 \<and> n \<noteq> 247 then [char_of (n - 32)]
     else if n = 223 then ''SS'' else [c])"

definition py_upper :: "string \<Rightarrow> string" where
  "py_upper s = concat (map upper_char s)"

text \<open>A loaded list as the declared type, if its elements have it.\<close>

definition as_int :: "json \<Rightarrow> int option" where
  "as_int v = (case v of JInt i \<Rightarrow> Some i | JBool b \<Rightarrow> Some (bool_int b) | _ \<Rightarrow> None)"

definition as_str :: "json \<Rightarrow> string option" where
  "as_str v = (case v of JStr s \<Rightarrow> Some s | _ \<Rightarrow> None)"

fun all_some :: "'a option list \<Rightarrow> 'a list option" where
  "all_some [] = Some []"
| "all_some (x # xs) = (case (x, all_some xs) of (Some y, Some ys) \<Rightarrow> Some (y # ys) | _ \<Rightarrow> None)"

section \<open>The configuration\<close>

record config =
  policy_socket :: string
  lmtp_socket :: string
  queue_db :: string
  lookup_file_path :: string
  lookup_reload :: bool
  cf_worker :: worker_config
  cf_alerts :: alerts_config
  cf_lookup_sync :: "lookup_sync_config option"
  log_level :: string

text \<open>\<open>raw.get(k, {}) or {}\<close>.\<close>

definition sub_section :: "json \<Rightarrow> string \<Rightarrow> json result" where
  "sub_section raw k = bind_result (get_default raw k (JObj [])) (\<lambda>v. Ok (if truthy v then v else JObj []))"

definition worker_section :: "json \<Rightarrow> worker_config option result" where
  "worker_section raw =
     bind_result (bind_result (get_default raw ''poll_interval'' (JInt 5)) py_float_of) (\<lambda>pi.
     bind_result (bind_result (get_default raw ''batch_size'' (JInt 10)) py_int_of) (\<lambda>bs.
     bind_result (bind_result (get_default raw ''max_attempts'' (JInt 4)) py_int_of) (\<lambda>ma.
     bind_result (bind_result (get_default raw ''http_timeout'' (JInt 30)) py_float_of) (\<lambda>ht.
     bind_result (bind_result (get_default raw ''backoff'' (JList (map JInt [0, 60, 300, 1800]))) py_iter) (\<lambda>bo.
       Ok (map_option (\<lambda>b. \<lparr>poll_interval = pi, batch_size = bs, max_attempts = ma, http_timeout = ht, backoff = b\<rparr>)
         (all_some (map as_int bo))))))))"

definition alerts_section :: "json \<Rightarrow> alerts_config option result" where
  "alerts_section raw =
     bind_result (get_default raw ''enabled'' (JBool True)) (\<lambda>en.
     bind_result (get_default raw ''smtp_host'' (JStr ''localhost'')) (\<lambda>sh.
     bind_result (bind_result (get_default raw ''smtp_port'' (JInt 25)) py_int_of) (\<lambda>sp.
     bind_result (get_default raw ''from_address'' (JStr ''mail-router@localhost'')) (\<lambda>fa.
     bind_result (bind_result (get_default raw ''to_addresses'' (JList [])) py_iter) (\<lambda>ta.
     bind_result (bind_result (get_default raw ''throttle'' (JInt 1800)) py_int_of) (\<lambda>th.
     bind_result (bind_result (get_default raw ''queue_size_threshold'' (JInt 100)) py_int_of) (\<lambda>qs.
       Ok (map_option (\<lambda>a. \<lparr>al_enabled = truthy en, smtp_host = py_str sh, smtp_port = sp, from_address = py_str fa,
           to_addresses = a, throttle = th, queue_size_threshold = qs\<rparr>)
         (all_some (map as_str ta))))))))))"

definition lookup_sync_section :: "json \<Rightarrow> lookup_sync_config option result" where
  "lookup_sync_section raw =
    (if raw = JNull then Ok None
     else
       bind_result (subscript raw ''url'') (\<lambda>u.
       bind_result (subscript raw ''api_key'') (\<lambda>k.
       bind_result (bind_result (get_default raw ''timeout'' (JInt 10)) py_float_of) (\<lambda>t.
         Ok (Some \<lparr>ls_url = py_str u, ls_api_key = py_str k, ls_timeout = t\<rparr>)))))"

definition config_load :: "json \<Rightarrow> config option result" where
  "config_load raw =
     bind_result (sub_section raw ''worker'') (\<lambda>worker_raw.
     bind_result (sub_section raw ''alerts'') (\<lambda>alerts_raw.
     bind_result (bind_result (py_get raw ''lookup_sync'') (\<lambda>v. Ok (if truthy v then v else JNull))) (\<lambda>lookup_sync_raw.
     bind_result (bind_result (subscript raw ''policy_socket'') py_path) (\<lambda>ps.
     bind_result (bind_result (subscript raw ''lmtp_socket'') py_path) (\<lambda>lm.
     bind_result (bind_result (subscript raw ''queue_db'') py_path) (\<lambda>qd.
     bind_result (bind_result (subscript raw ''lookup_file'') py_path) (\<lambda>lf.
     bind_result (get_default raw ''lookup_reload'' (JBool True)) (\<lambda>lr.
     bind_result (worker_section worker_raw) (\<lambda>wc.
     bind_result (alerts_section alerts_raw) (\<lambda>ac.
     bind_result (lookup_sync_section lookup_sync_raw) (\<lambda>ls.
     bind_result (get_default raw ''log_level'' (JStr ''INFO'')) (\<lambda>ll.
       Ok (case (wc, ac) of
         (Some w, Some a) \<Rightarrow> Some \<lparr>policy_socket = ps, lmtp_socket = lm, queue_db = qd, lookup_file_path = lf,
            lookup_reload = truthy lr, cf_worker = w, cf_alerts = a, cf_lookup_sync = ls, log_level = py_upper (py_str ll)\<rparr>
       | _ \<Rightarrow> None)))))))))))))"

section \<open>What loads, and what it gives\<close>

lemma worker_section_empty: "worker_section (JObj []) = Ok (Some default_worker_config)"
  by (simp add: worker_section_def get_default_def dict_get_def py_float_of_def py_int_of_def py_iter_def as_int_def
      default_worker_config_def)

lemma alerts_section_empty: "alerts_section (JObj []) = Ok (Some default_alerts_config)"
  by (simp add: alerts_section_def get_default_def dict_get_def py_int_of_def py_iter_def py_str_def
      default_alerts_config_def)

lemma upper_info: "py_upper ''INFO'' = ''INFO''"
  by code_simp

text \<open>The defaults that the loader writes out agree with those of the dataclasses.\<close>

text \<open>functional: defaults. A document that names the four paths and whose sections are
  absent, null or empty loads as the configuration whose sections are the classes' defaults:
  reloading on, no lookup synchronisation, log level INFO.\<close>

theorem config_load_defaults:
  assumes "map_of d ''policy_socket'' = Some (JStr a)" and "map_of d ''lmtp_socket'' = Some (JStr b)"
    and "map_of d ''queue_db'' = Some (JStr c)" and "map_of d ''lookup_file'' = Some (JStr e)"
    and "\<And>k. k \<in> {''worker'', ''alerts'', ''lookup_sync''} \<Longrightarrow> \<not> truthy (dict_get d k JNull)"
    and "map_of d ''lookup_reload'' = None" and "map_of d ''log_level'' = None"
  shows "config_load (JObj d) = Ok (Some \<lparr>policy_socket = path_text a, lmtp_socket = path_text b, queue_db = path_text c,
    lookup_file_path = path_text e, lookup_reload = True, cf_worker = default_worker_config,
    cf_alerts = default_alerts_config, cf_lookup_sync = None, log_level = ''INFO''\<rparr>)"
proof -
  have sec: "sub_section (JObj d) k = Ok (JObj [])" if "k \<in> {''worker'', ''alerts''}" for k
  proof -
    have "\<not> truthy (dict_get d k JNull)" using that assms(5) by blast
    then show ?thesis
      by (cases "map_of d k") (auto simp: sub_section_def get_default_def dict_get_def)
  qed
  have sync: "\<not> truthy (case map_of d ''lookup_sync'' of None \<Rightarrow> JNull | Some v \<Rightarrow> v)"
    using assms(5) [of "''lookup_sync''"] by (simp add: dict_get_def)
  show ?thesis
    using assms(1-4,6,7) sync
    by (simp add: config_load_def sec worker_section_empty alerts_section_empty upper_info py_get_def subscript_def
        py_path_def get_default_def dict_get_def lookup_sync_section_def py_str_def)
qed

theorem config_load_defaults_witness:
  "config_load (JObj [(''policy_socket'', JStr ''/run/p//policy.sock''), (''lmtp_socket'', JStr ''/run/p/lmtp.sock''),
      (''queue_db'', JStr ''q.db''), (''lookup_file'', JStr ''./lookup.json''), (''worker'', JNull)]) =
    Ok (Some \<lparr>policy_socket = ''/run/p/policy.sock'', lmtp_socket = ''/run/p/lmtp.sock'', queue_db = ''q.db'',
      lookup_file_path = ''lookup.json'', lookup_reload = True, cf_worker = default_worker_config,
      cf_alerts = default_alerts_config, cf_lookup_sync = None, log_level = ''INFO''\<rparr>)"
proof -
  have "path_text ''/run/p//policy.sock'' = ''/run/p/policy.sock''" "path_text ''/run/p/lmtp.sock'' = ''/run/p/lmtp.sock''"
    "path_text ''q.db'' = ''q.db''" "path_text ''./lookup.json'' = ''lookup.json''"
    by code_simp+
  moreover have "\<not> truthy (dict_get [(''policy_socket'', JStr ''/run/p//policy.sock''), (''lmtp_socket'', JStr ''/run/p/lmtp.sock''),
      (''queue_db'', JStr ''q.db''), (''lookup_file'', JStr ''./lookup.json''), (''worker'', JNull)] k JNull)"
    if "k \<in> {''worker'', ''alerts'', ''lookup_sync''}" for k
    using that by (elim insertE emptyE) (simp_all add: dict_get_def)
  ultimately show ?thesis
    using config_load_defaults [of "[(''policy_socket'', JStr ''/run/p//policy.sock''), (''lmtp_socket'', JStr ''/run/p/lmtp.sock''),
      (''queue_db'', JStr ''q.db''), (''lookup_file'', JStr ''./lookup.json''), (''worker'', JNull)]"
      "''/run/p//policy.sock''" "''/run/p/lmtp.sock''" "''q.db''" "''./lookup.json''"]
    by simp
qed

lemma bind_result_Raise: "bind_result r f = Inl e \<longleftrightarrow> r = Inl e \<or> (\<exists>x. r = Inr x \<and> f x = Inl e)"
  by (cases r) auto

lemma py_path_Ok: "py_path v = Ok p \<Longrightarrow> \<exists>s. v = JStr s \<and> p = path_text s"
  by (cases v) (simp_all add: py_path_def)

lemma subscript_Ok: "subscript raw k = Ok v \<Longrightarrow> \<exists>d. raw = JObj d \<and> map_of d k = Some v"
  by (cases raw) (simp_all add: subscript_def split: option.splits)

lemma subscript_path: "bind_result (subscript raw k) py_path = Ok p \<Longrightarrow> \<exists>d s. raw = JObj d \<and> map_of d k = Some (JStr s) \<and> p = path_text s"
  using subscript_Ok py_path_Ok unfolding bind_result_Ok by blast

lemma get_default_dict: "get_default v k x = Ok y \<Longrightarrow> is_dict v"
  by (cases v) (simp_all add: get_default_def is_dict_def)

lemma worker_section_dict: "worker_section v = Ok w \<Longrightarrow> is_dict v"
  by (auto simp: worker_section_def dest: get_default_dict)

lemma alerts_section_dict: "alerts_section v = Ok a \<Longrightarrow> is_dict v"
  by (auto simp: alerts_section_def dest: get_default_dict)

lemma lookup_sync_section_dict: "lookup_sync_section v = Ok y \<Longrightarrow> v = JNull \<and> y = None \<or> is_dict v \<and> y \<noteq> None"
  by (auto simp: lookup_sync_section_def is_dict_def subscript_def split: if_splits json.splits)

lemma sub_section_dict: "sub_section (JObj d) k = Ok v \<Longrightarrow> truthy (dict_get d k JNull) \<Longrightarrow> v = dict_get d k JNull"
  by (auto simp: sub_section_def get_default_def dict_get_def split: option.splits if_splits)

lemma sync_raw_get: "py_get (JObj d) k = Ok (dict_get d k JNull)"
  by (simp add: py_get_def dict_get_def)

text \<open>type: what a loaded configuration rests on. A document loads only if it is a mapping
  that names the four paths as strings; a section that is there and not empty must be a
  mapping, and the configuration has a lookup synchronisation exactly if that section is one.\<close>

theorem config_load_required:
  assumes "config_load raw = Ok (Some c)"
  shows "\<exists>d p l q f. raw = JObj d \<and> map_of d ''policy_socket'' = Some (JStr p) \<and> policy_socket c = path_text p \<and>
    map_of d ''lmtp_socket'' = Some (JStr l) \<and> lmtp_socket c = path_text l \<and>
    map_of d ''queue_db'' = Some (JStr q) \<and> queue_db c = path_text q \<and>
    map_of d ''lookup_file'' = Some (JStr f) \<and> lookup_file_path c = path_text f \<and>
    (\<forall>k \<in> {''worker'', ''alerts'', ''lookup_sync''}. truthy (dict_get d k JNull) \<longrightarrow> is_dict (dict_get d k JNull)) \<and>
    (cf_lookup_sync c \<noteq> None \<longleftrightarrow> truthy (dict_get d ''lookup_sync'' JNull))"
proof -
  obtain wr ar lsr ps lm qd lf w a ls ll where
    wr: "sub_section raw ''worker'' = Ok wr" "worker_section wr = Ok (Some w)" and
    ar: "sub_section raw ''alerts'' = Ok ar" "alerts_section ar = Ok (Some a)" and
    lsr: "bind_result (py_get raw ''lookup_sync'') (\<lambda>v. Ok (if truthy v then v else JNull)) = Ok lsr"
      "lookup_sync_section lsr = Ok ls" and
    paths: "bind_result (subscript raw ''policy_socket'') py_path = Ok ps"
      "bind_result (subscript raw ''lmtp_socket'') py_path = Ok lm"
      "bind_result (subscript raw ''queue_db'') py_path = Ok qd"
      "bind_result (subscript raw ''lookup_file'') py_path = Ok lf" and
    c: "policy_socket c = ps" "lmtp_socket c = lm" "queue_db c = qd" "lookup_file_path c = lf" "cf_lookup_sync c = ls"
    using assms unfolding config_load_def bind_result_Ok
    by (elim exE conjE) (auto split: prod.splits option.splits)
  from subscript_path [OF paths(1)] obtain d where d: "raw = JObj d" by blast
  have "wr = dict_get d ''worker'' JNull" if "truthy (dict_get d ''worker'' JNull)"
    using sub_section_dict wr(1) that by (simp add: d)
  moreover have "ar = dict_get d ''alerts'' JNull" if "truthy (dict_get d ''alerts'' JNull)"
    using sub_section_dict ar(1) that by (simp add: d)
  moreover have "lsr = (if truthy (dict_get d ''lookup_sync'' JNull) then dict_get d ''lookup_sync'' JNull else JNull)"
    using lsr(1) by (simp add: d sync_raw_get)
  ultimately have secs: "\<forall>k \<in> {''worker'', ''alerts'', ''lookup_sync''}. truthy (dict_get d k JNull) \<longrightarrow> is_dict (dict_get d k JNull)"
    and ls: "cf_lookup_sync c \<noteq> None \<longleftrightarrow> truthy (dict_get d ''lookup_sync'' JNull)"
    using worker_section_dict [OF wr(2)] alerts_section_dict [OF ar(2)] lookup_sync_section_dict [OF lsr(2)] c(5)
    by (auto simp: is_dict_def split: if_splits)
  from subscript_path [OF paths(1)] subscript_path [OF paths(2)] subscript_path [OF paths(3)] subscript_path [OF paths(4)]
  obtain p l q f where "map_of d ''policy_socket'' = Some (JStr p)" "ps = path_text p"
    "map_of d ''lmtp_socket'' = Some (JStr l)" "lm = path_text l" "map_of d ''queue_db'' = Some (JStr q)" "qd = path_text q"
    "map_of d ''lookup_file'' = Some (JStr f)" "lf = path_text f"
    by (auto simp: d)
  with secs ls d c show ?thesis by blast
qed

theorem config_load_required_witness:
  "\<exists>c. config_load (JObj [(''policy_socket'', JStr ''p''), (''lmtp_socket'', JStr ''l''), (''queue_db'', JStr ''q''),
      (''lookup_file'', JStr ''f''), (''lookup_sync'', JObj [(''url'', JStr ''u''), (''api_key'', JStr ''k'')])]) = Ok (Some c) \<and>
    cf_lookup_sync c \<noteq> None \<and> queue_db c = ''q''"
proof -
  let ?d = "[(''policy_socket'', JStr ''p''), (''lmtp_socket'', JStr ''l''), (''queue_db'', JStr ''q''),
      (''lookup_file'', JStr ''f''), (''lookup_sync'', JObj [(''url'', JStr ''u''), (''api_key'', JStr ''k'')])]"
  have p: "path_text ''q'' = ''q''" by code_simp
  have "\<exists>c. config_load (JObj ?d) = Ok (Some c)"
    by (simp add: config_load_def sub_section_def worker_section_empty alerts_section_empty py_get_def subscript_def
        py_path_def get_default_def dict_get_def lookup_sync_section_def py_float_of_def)
  then obtain c where c: "config_load (JObj ?d) = Ok (Some c)" by blast
  from config_load_required [OF c] obtain d q where "JObj ?d = JObj d" "map_of d ''queue_db'' = Some (JStr q)"
    "queue_db c = path_text q" "cf_lookup_sync c \<noteq> None \<longleftrightarrow> truthy (dict_get d ''lookup_sync'' JNull)"
    by blast
  with c p show ?thesis by (auto simp: dict_get_def)
qed

end
