(* ===== verification/Json_Text.thy ===== *)
theory Json_Text
  imports Json
begin

text \<open>
  The JSON writer and reader are inverse: \<open>json.loads\<close> reads the text that
  \<open>json.dumps(indent=2, ensure_ascii=False)\<close> writes for a value back as that value. The value
  must be one Python can build: an object has distinct keys, and a float has a text that a
  float literal can have.
\<close>

section \<open>White space between tokens\<close>

definition ws_char :: "char \<Rightarrow> bool" where
  "ws_char c \<longleftrightarrow> c \<in> set [CHR '' '', CHR 0x09, CHR 0x0A, CHR 0x0D]"

text \<open>A text that starts with a value or a key, and a text at which a number ends.\<close>

definition token_start :: "string \<Rightarrow> bool" where
  "token_start s \<longleftrightarrow> s \<noteq> [] \<and> \<not> ws_char (hd s) \<and> hd s \<noteq> CHR '']'' \<and> hd s \<noteq> CHR ''}''"

definition stops :: "string \<Rightarrow> bool" where
  "stops r \<longleftrightarrow> (r = [] \<or> hd r \<in> {CHR '','', CHR '']'', CHR ''}''} \<or> ws_char (hd r))"

lemma json_ws_token: "token_start s \<Longrightarrow> json_ws s = s"
  by (cases s) (auto simp: token_start_def json_ws_def ws_char_def)

lemma token_start_append [simp]: "token_start s \<Longrightarrow> token_start (s @ r)"
  by (simp add: token_start_def)

lemma json_ws_space [simp]: "json_ws (CHR '' '' # s) = json_ws s"
  by (simp add: json_ws_def)

lemma json_ws_spaces [simp]: "json_ws (replicate n (CHR '' '') @ s) = json_ws s"
  by (induction n) simp_all

lemma json_ws_new_line [simp]: "json_ws (new_line k @ s) = json_ws s"
proof -
  have "json_ws (CHR 0x0A # t) = json_ws t" for t by (simp add: json_ws_def)
  then show ?thesis unfolding new_line_def by simp
qed

lemma json_ws_punct [simp]:
  "json_ws (CHR '','' # s) = CHR '','' # s" "json_ws (CHR '':'' # s) = CHR '':'' # s"
  "json_ws (CHR '']'' # s) = CHR '']'' # s" "json_ws (CHR ''}'' # s) = CHR ''}'' # s"
  "json_ws (CHR 0x22 # s) = CHR 0x22 # s" "json_ws [] = []"
  by (simp_all add: json_ws_def)

lemma stops_simps [simp]: "stops []" "stops (CHR '','' # s)" "stops (new_line k @ s)"
  by (simp_all add: stops_def new_line_def ws_char_def)

section \<open>Strings\<close>

lemma hex_val_digit: "m < 16 \<Longrightarrow> hex_val (hex_digit m) = Some m"
  by (auto simp: hex_val_def hex_digit_def of_char_of)

lemma unescape_hex2:
  assumes "n < 256"
  shows "unescape (''u00'' @ hex2 n @ r) = Some (char_of n, r)"
  using assms by (simp add: hex2_def hex_val_digit backslash_def)

lemma scan_str_dump_char:
  "scan_str (dump_char c @ r) = map_option (\<lambda>(t, r'). (c # t, r')) (scan_str r)"
proof -
  have esc: "scan_str (backslash # s) = (case unescape s of None \<Rightarrow> None
      | Some (x, r') \<Rightarrow> map_option (\<lambda>(t, r''). (x # t, r'')) (scan_str r'))" for s
    by (subst scan_str.simps) (simp add: backslash_def)
  have code: "c = d" if "of_char c = (of_char d :: nat)" for d using that by simp
  let ?n = "of_char c :: nat"
  consider "c = CHR 0x22 \<or> c = backslash"
    | "?n = 10 \<or> ?n = 13 \<or> ?n = 9 \<or> ?n = 12 \<or> ?n = 8"
    | "c \<noteq> CHR 0x22" "c \<noteq> backslash" "\<not> (?n = 10 \<or> ?n = 13 \<or> ?n = 9 \<or> ?n = 12 \<or> ?n = 8)" "?n < 32"
    | "c \<noteq> CHR 0x22" "c \<noteq> backslash" "\<not> ?n < 32"
    by blast
  then show ?thesis
  proof cases
    case 1
    then have "dump_char c = [backslash, c]" by (simp add: dump_char_def)
    with 1 show ?thesis by (auto simp: esc)
  next
    case 2
    then consider "c = CHR 0x0A" | "c = CHR 0x0D" | "c = CHR 0x09" | "c = CHR 0x0C" | "c = CHR 0x08"
      using code [of "CHR 0x0A"] code [of "CHR 0x0D"] code [of "CHR 0x09"] code [of "CHR 0x0C"] code [of "CHR 0x08"]
      by fastforce
    then show ?thesis
      by cases (simp_all add: dump_char_def esc [unfolded backslash_def] backslash_def)
  next
    case 3
    then have "dump_char c = backslash # ''u00'' @ hex2 ?n" by (simp add: dump_char_def)
    moreover have "unescape (''u00'' @ hex2 ?n @ r) = Some (c, r)"
      using unescape_hex2 [of ?n r] 3(4) by simp
    ultimately show ?thesis by (simp add: esc)
  next
    case 4
    then have "dump_char c = [c]" by (simp add: dump_char_def)
    with 4 show ?thesis by (subst scan_str.simps) simp
  qed
qed

lemma scan_str_dump: "scan_str (concat (map dump_char s) @ CHR 0x22 # r) = Some (s, r)"
proof (induction s)
  case Nil
  show ?case by (subst concat.simps list.map)+ (subst scan_str.simps, simp)
next
  case (Cons c s)
  then show ?case by (simp add: scan_str_dump_char)
qed

section \<open>Numbers\<close>

lemma stops_not_digit: "stops r \<Longrightarrow> r = c # s \<Longrightarrow> \<not> is_digit c \<and> c \<noteq> CHR ''.'' \<and> c \<noteq> CHR ''e'' \<and> c \<noteq> CHR ''E''"
  by (auto simp: stops_def is_digit_def ws_char_def)

lemma scan_digits_append: "stops r \<Longrightarrow> scan_digits (s @ r) = (fst (scan_digits s), snd (scan_digits s) @ r)"
proof (induction s)
  case Nil
  then show ?case by (cases r) (auto simp: scan_digits_def dest: stops_not_digit)
qed (auto simp: scan_digits_def)

lemma nat_str_digits: "list_all is_digit (nat_str n)"
proof (induction n rule: nat_str.induct)
  case (1 n)
  then show ?case by (subst nat_str.simps) (simp del: digit_char_inj)
qed

lemma dec_val_nat_str: "dec_val (nat_str n) = n"
proof (induction n rule: nat_str.induct)
  case (1 n)
  then show ?case by (subst nat_str.simps) (auto simp: dec_val_def)
qed

lemma nat_str_head: "\<exists>c s. nat_str n = c # s \<and> is_digit c \<and> (c = CHR ''0'' \<longrightarrow> s = [])"
proof (induction n rule: nat_str.induct)
  case (1 n)
  show ?case
  proof (cases "n < 10")
    case True
    then show ?thesis by (subst nat_str.simps) simp
  next
    case False
    with 1 obtain c s where cs: "nat_str (n div 10) = c # s" "is_digit c" "c = CHR ''0'' \<longrightarrow> s = []" by auto
    have "c \<noteq> CHR ''0''"
    proof
      assume "c = CHR ''0''"
      with cs have "dec_val (nat_str (n div 10)) = 0" by (simp add: dec_val_def digit_val_def)
      with False show False by (simp add: dec_val_nat_str)
    qed
    with cs False show ?thesis by (subst nat_str.simps) simp
  qed
qed

lemma scan_int_nat: "stops r \<Longrightarrow> scan_int (nat_str n @ r) = Some (nat_str n, r)"
proof -
  assume r: "stops r"
  have d: "scan_digits (nat_str n) = (nat_str n, [])"
    using nat_str_digits [of n] by (simp add: scan_digits_def list_all_iff takeWhile_eq_all_conv dropWhile_eq_Nil_conv)
  obtain c s where "nat_str n = c # s" "is_digit c" "c = CHR ''0'' \<longrightarrow> s = []" using nat_str_head by blast
  with scan_digits_append [OF r, of "nat_str n"] d show ?thesis by (auto simp: scan_int_def)
qed

lemma scan_frac_stops: "stops r \<Longrightarrow> scan_frac r = ([], r)"
  by (cases r) (auto simp: scan_frac_def dest: stops_not_digit)

lemma scan_exp_stops: "stops r \<Longrightarrow> scan_exp r = ([], r)"
  by (cases r) (auto simp: scan_exp_def dest: stops_not_digit)

lemma startswith_one: "startswith s [c] \<longleftrightarrow> s \<noteq> [] \<and> hd s = c"
  by (cases s) (simp_all add: startswith_def)

lemma scan_number_alt:
  "scan_number s =
    (let neg = startswith s ''-'' in
     case scan_int (if neg then tl s else s) of None \<Rightarrow> None
     | Some (i, r1) \<Rightarrow>
         if fst (scan_frac r1) = [] \<and> fst (scan_exp (snd (scan_frac r1))) = []
         then Some (JInt (if neg then - int (dec_val i) else int (dec_val i)), r1)
         else Some (JFloat ((if neg then ''-'' else []) @ i @ fst (scan_frac r1) @ fst (scan_exp (snd (scan_frac r1)))),
           snd (scan_exp (snd (scan_frac r1)))))"
  unfolding scan_number_def Let_def by (simp add: split_beta split: option.split)

lemma scan_number_int: "stops r \<Longrightarrow> scan_number (int_str i @ r) = Some (JInt i, r)"
proof -
  assume r: "stops r"
  obtain c s where cs: "nat_str (nat \<bar>i\<bar>) = c # s" "is_digit c" using nat_str_head by blast
  then have c: "c \<noteq> CHR ''-''" by (auto simp: is_digit_def)
  have int: "scan_int (c # s @ r) = Some (c # s, r)" using scan_int_nat [OF r, of "nat \<bar>i\<bar>"] cs by simp
  have val: "dec_val (c # s) = nat \<bar>i\<bar>" using dec_val_nat_str [of "nat \<bar>i\<bar>"] cs by simp
  show ?thesis
  proof (cases "i < 0")
    case True
    with cs have "int_str i = CHR ''-'' # c # s" by (simp add: int_str_def)
    with True int val show ?thesis
      by (simp add: scan_number_alt startswith_one scan_frac_stops [OF r] scan_exp_stops [OF r])
  next
    case False
    with cs have "int_str i = c # s" by (simp add: int_str_def)
    with False c int val show ?thesis
      by (simp add: scan_number_alt startswith_one scan_frac_stops [OF r] scan_exp_stops [OF r])
  qed
qed

lemma scan_frac_append: "stops r \<Longrightarrow> scan_frac (s @ r) = (fst (scan_frac s), snd (scan_frac s) @ r)"
proof (cases s)
  case Nil
  moreover assume "stops r"
  ultimately show ?thesis by (simp add: scan_frac_stops)
next
  case (Cons c q)
  moreover assume "stops r"
  ultimately show ?thesis by (simp add: scan_frac_def scan_digits_append)
qed

lemma scan_exp_append: "stops r \<Longrightarrow> scan_exp (s @ r) = (fst (scan_exp s), snd (scan_exp s) @ r)"
proof (cases s)
  case Nil
  moreover assume "stops r"
  ultimately show ?thesis by (simp add: scan_exp_stops)
next
  case (Cons c q)
  assume r: "stops r"
  have nosign: "\<not> (r = d # w \<and> (d = CHR ''+'' \<or> d = CHR ''-''))" for d w using r by (auto simp: stops_def ws_char_def)
  have dig: "fst (scan_digits r) = []" using scan_digits_append [OF r, of "[]"] by (simp add: scan_digits_def)
  show ?thesis
  proof (cases q)
    case Nil
    with \<open>s = c # q\<close> nosign dig show ?thesis
      by (cases r) (auto simp: scan_exp_def scan_digits_def)
  next
    case (Cons d w)
    with \<open>s = c # q\<close> scan_digits_append [OF r, of w] scan_digits_append [OF r, of q] show ?thesis
      by (simp add: scan_exp_def)
  qed
qed

lemma scan_int_append: "stops r \<Longrightarrow> scan_int (s @ r) = map_option (\<lambda>(i, x). (i, x @ r)) (scan_int s)"
proof (cases s)
  case Nil
  moreover assume "stops r"
  ultimately show ?thesis by (cases r) (auto simp: scan_int_def stops_def is_digit_def ws_char_def)
next
  case (Cons c q)
  moreover assume "stops r"
  ultimately show ?thesis using scan_digits_append [of r s] by (simp add: scan_int_def split_beta)
qed

lemma scan_number_append:
  assumes "stops r" and "s \<noteq> []"
  shows "scan_number (s @ r) = map_option (\<lambda>(v, x). (v, x @ r)) (scan_number s)"
proof -
  have pre: "startswith (s @ r) ''-'' = startswith s ''-''" using assms(2) by (simp add: startswith_one)
  have rest: "(if startswith s ''-'' then tl (s @ r) else s @ r) = (if startswith s ''-'' then tl s else s) @ r"
    using assms(2) by simp
  show ?thesis
    unfolding scan_number_alt pre Let_def rest scan_int_append [OF assms(1)]
    by (cases "scan_int (if startswith s ''-'' then tl s else s)")
      (auto simp: scan_frac_append [OF assms(1)] scan_exp_append [OF assms(1)])
qed

text \<open>The texts of floats: those of a literal, and the three special ones.\<close>

definition float_text :: "string \<Rightarrow> bool" where
  "float_text t \<longleftrightarrow> t = ''nan'' \<or> t = ''inf'' \<or> t = ''-inf'' \<or> scan_number t = Some (JFloat t, [])"

lemma scan_number_head: "scan_number (c # s) = Some x \<Longrightarrow> c = CHR ''-'' \<or> is_digit c"
  by (auto simp: scan_number_def scan_int_def startswith_def is_digit_def split: option.splits if_splits)

lemma scan_word_number:
  assumes "scan_number (c # s) = Some x"
  shows "scan_word (c # s) = Some x"
proof -
  have "c \<noteq> CHR ''n''" "c \<noteq> CHR ''t''" "c \<noteq> CHR ''f''"
    using scan_number_head [OF assms] by (auto simp: is_digit_def)
  with assms show ?thesis by (simp add: scan_word_def startswith_def)
qed

lemma scan_value_word:
  assumes "scan_word (c # s) = Some x" and "c \<noteq> CHR 0x22" "c \<noteq> CHR ''{''" "c \<noteq> CHR ''[''"
  shows "scan_value (Suc n) (c # s) = Some x"
  using assms by simp

lemma scan_value_number:
  assumes "scan_number (c # s) = Some x"
  shows "scan_value (Suc n) (c # s) = Some x"
proof (rule scan_value_word)
  show "scan_word (c # s) = Some x" by (rule scan_word_number [OF assms])
qed (use scan_number_head [OF assms] in \<open>auto simp: is_digit_def\<close>)

lemma scan_number_ne: "scan_number s = Some x \<Longrightarrow> s \<noteq> []"
  by (auto simp: scan_number_def scan_int_def startswith_def)

lemma scan_special:
  "scan_number (''NaN'' @ r) = None" "scan_number (''Infinity'' @ r) = None" "scan_number (''-Infinity'' @ r) = None"
  by (simp_all add: scan_number_def scan_int_def startswith_def is_digit_def)

lemma scan_value_float:
  assumes "float_text t" and "stops r"
  shows "scan_value (Suc n) (dump k (JFloat t) @ r) = Some (JFloat t, r)"
proof -
  have sp: "scan_word (''NaN'' @ r) = Some (JFloat ''nan'', r)" "scan_word (''Infinity'' @ r) = Some (JFloat ''inf'', r)"
    "scan_word (''-Infinity'' @ r) = Some (JFloat ''-inf'', r)"
    using scan_special [of r] by (simp_all add: scan_word_def startswith_def)
  consider "t = ''nan''" | "t = ''inf''" | "t = ''-inf''"
    | "t \<noteq> ''nan''" "t \<noteq> ''inf''" "t \<noteq> ''-inf''" "scan_number t = Some (JFloat t, [])"
    using assms(1) unfolding float_text_def by blast
  then show ?thesis
  proof cases
    case 4
    with scan_number_append [OF assms(2) scan_number_ne] have "scan_number (t @ r) = Some (JFloat t, r)" by auto
    moreover obtain c q where "t @ r = c # q" using scan_number_ne [OF 4(4)] by (cases t) auto
    ultimately show ?thesis using 4(1-3) scan_value_number [of c q] by simp
  qed (use sp in \<open>simp_all del: scan_value.simps(2) add: scan_value_word\<close>)
qed

lemma scan_value_int:
  assumes "stops r"
  shows "scan_value (Suc n) (dump k (JInt i) @ r) = Some (JInt i, r)"
proof -
  have *: "scan_number (int_str i @ r) = Some (JInt i, r)" by (rule scan_number_int [OF assms])
  obtain c q where "int_str i @ r = c # q" using scan_number_ne [OF *] by (cases "int_str i @ r") auto
  with * scan_value_number show ?thesis by simp
qed

section \<open>Values\<close>

fun json_ok :: "json \<Rightarrow> bool" where
  "json_ok JNull = True"
| "json_ok (JBool b) = True"
| "json_ok (JInt i) = True"
| "json_ok (JFloat t) = float_text t"
| "json_ok (JStr s) = True"
| "json_ok (JList xs) = list_all json_ok xs"
| "json_ok (JObj d) = (distinct (map fst d) \<and> list_all (\<lambda>(k, v). json_ok v) d)"

text \<open>
  A text that the reader takes for a value, with fuel for twice its length. Writers differ in
  the white space between the tokens and in the escapes, so arrays and objects are treated for
  any white space, and strings for any text that the string scanner reads.
\<close>

definition reads_as :: "json \<Rightarrow> string \<Rightarrow> bool" where
  "reads_as v s \<longleftrightarrow> token_start s \<and> (\<forall>n r. 2 * length s \<le> n \<longrightarrow> stops r \<longrightarrow> scan_value n (s @ r) = Some (v, r))"

definition blank :: "string \<Rightarrow> bool" where
  "blank s \<longleftrightarrow> list_all ws_char s"

definition str_text :: "string \<Rightarrow> string \<Rightarrow> bool" where
  "str_text s t \<longleftrightarrow> (\<exists>b. t = CHR 0x22 # b \<and> (\<forall>r. scan_str (b @ r) = Some (s, r)))"

definition member_text :: "string \<times> json \<Rightarrow> string \<Rightarrow> bool" where
  "member_text m t \<longleftrightarrow> (\<exists>k s. t = k @ '': '' @ s \<and> str_text (fst m) k \<and> reads_as (snd m) s)"

lemma blank_new_line [simp]: "blank (new_line k)" "blank []" "blank '' ''"
  by (simp_all add: blank_def new_line_def ws_char_def list_all_iff)

lemma json_ws_blank [simp]: "blank b \<Longrightarrow> json_ws (b @ s) = json_ws s"
  by (induction b) (auto simp: blank_def json_ws_def ws_char_def)

lemma stops_blank [simp]: "blank b \<Longrightarrow> stops (b @ '']'' @ s)" "blank b \<Longrightarrow> stops (b @ ''}'' @ s)"
  by (cases b; simp add: blank_def stops_def)+

lemma nat_str_token: "\<exists>c s. nat_str n = c # s \<and> is_digit c"
  using nat_str_head by blast

lemma token_start_join: "xs \<noteq> [] \<Longrightarrow> \<forall>x \<in> set xs. token_start x \<Longrightarrow> token_start (join sep xs)"
  by (induction sep xs rule: join.induct) auto

lemma token_not_closing: "token_start s \<Longrightarrow> \<not> startswith s '']'' \<and> \<not> startswith s ''}''"
  by (auto simp: token_start_def startswith_one)

lemma reads_as_token: "list_all2 reads_as xs ts \<Longrightarrow> \<forall>t \<in> set ts. token_start t"
  by (induction rule: list_all2_induct) (simp_all add: reads_as_def)

lemma member_token: "list_all2 member_text d ts \<Longrightarrow> \<forall>t \<in> set ts. token_start t"
  by (induction rule: list_all2_induct) (auto simp: member_text_def str_text_def token_start_def ws_char_def)

lemma scan_elems_texts:
  assumes "list_all2 reads_as xs ts" and "xs \<noteq> []" and "blank b" and "blank c"
    and "2 * length (join ('','' @ b) ts) + 1 \<le> n"
  shows "scan_elems n (join ('','' @ b) ts @ c @ '']'' @ r) = Some (xs, r)"
  using assms
proof (induction ts arbitrary: xs n rule: induct_list012)
  case (2 t)
  then obtain v where v: "xs = [v]" "reads_as v t" by (auto simp: list_all2_Cons2)
  from 2(5) obtain m where m: "n = Suc m" "2 * length t \<le> m" by (cases n) auto
  have "stops (c @ '']'' @ r)" using 2(4) by (rule stops_blank)
  with v m(2) have "scan_value m (t @ c @ '']'' @ r) = Some (v, c @ '']'' @ r)" unfolding reads_as_def by blast
  with 2(4) show ?case by (simp add: m(1) v(1) startswith_one)
next
  case (3 t u ts)
  then obtain v w vs where v: "xs = v # w # vs" "reads_as v t" "list_all2 reads_as (w # vs) (u # ts)"
    by (auto simp: list_all2_Cons2)
  let ?rest = "join ('','' @ b) (u # ts)"
  from "3.prems"(5) obtain m where m: "n = Suc m" "2 * length t \<le> m" "2 * length ?rest + 1 \<le> m"
    by (cases n) auto
  have one: "scan_value m (t @ '','' @ s) = Some (v, '','' @ s)" for s
    using v(2) m(2) by (simp add: reads_as_def)
  have rest: "scan_elems m (?rest @ c @ '']'' @ r) = Some (w # vs, r)"
    by (rule "3.IH"(2)) (use v(3) "3.prems"(3,4) m(3) in auto)
  have "token_start (?rest @ c @ '']'' @ r)"
    using token_start_join [of "u # ts"] reads_as_token [OF v(3)] by simp
  with rest one [of "b @ ?rest @ c @ '']'' @ r"] "3.prems"(3) show ?case
    by (simp add: m(1) v(1) startswith_one json_ws_token)
qed simp

lemma scan_members_texts:
  assumes "list_all2 member_text d ts" and "d \<noteq> []" and "blank b" and "blank c"
    and "2 * length (join ('','' @ b) ts) + 1 \<le> n" and "distinct (map fst (acc @ d))"
  shows "scan_members n acc (join ('','' @ b) ts @ c @ ''}'' @ r) = Some (acc @ d, r)"
  using assms
proof (induction ts arbitrary: d n acc rule: induct_list012)
  case (2 t)
  then obtain k v where d: "d = [(k, v)]" "member_text (k, v) t" by (auto simp: list_all2_Cons2)
  then obtain q s where t: "t = CHR 0x22 # q @ '': '' @ s" "\<forall>r. scan_str (q @ r) = Some (k, r)" "reads_as v s"
    by (auto simp: member_text_def str_text_def)
  from 2(5) obtain m where m: "n = Suc m" "2 * length s \<le> m" by (cases n) (auto simp: t(1))
  have "stops (c @ ''}'' @ r)" using 2(4) by (rule stops_blank)
  with t(3) m(2) have "scan_value m (s @ c @ ''}'' @ r) = Some (v, c @ ''}'' @ r)" unfolding reads_as_def by blast
  moreover have "token_start (s @ c @ ''}'' @ r)" using t(3) by (simp add: reads_as_def)
  moreover have "dict_set acc k v = acc @ [(k, v)]" using 2(6) by (auto intro!: dict_set_fresh simp: d(1))
  ultimately show ?case using t(2) 2(4) by (simp add: m(1) d(1) t(1) startswith_one json_ws_token)
next
  case (3 t u ts)
  then obtain k v e es where d: "d = (k, v) # e # es" "member_text (k, v) t" "list_all2 member_text (e # es) (u # ts)"
    by (auto simp: list_all2_Cons2)
  then obtain q s where t: "t = CHR 0x22 # q @ '': '' @ s" "\<forall>r. scan_str (q @ r) = Some (k, r)" "reads_as v s"
    by (auto simp: member_text_def str_text_def)
  let ?rest = "join ('','' @ b) (u # ts)"
  from "3.prems"(5) obtain m where m: "n = Suc m" "2 * length s \<le> m" "2 * length ?rest + 1 \<le> m"
    by (cases n) (auto simp: t(1))
  have one: "scan_value m (s @ '','' @ x) = Some (v, '','' @ x)" for x
    using t(3) m(2) by (simp add: reads_as_def)
  have rest: "scan_members m (acc @ [(k, v)]) (?rest @ c @ ''}'' @ r) = Some ((acc @ [(k, v)]) @ e # es, r)"
    by (rule "3.IH"(2)) (use d "3.prems"(3,4,6) m(3) in auto)
  moreover have "token_start (s @ x)" for x using t(3) by (simp add: reads_as_def)
  moreover have "dict_set acc k v = acc @ [(k, v)]" using "3.prems"(6) by (auto intro!: dict_set_fresh simp: d(1))
  moreover have "token_start (?rest @ c @ ''}'' @ r)"
    using token_start_join [of "u # ts"] member_token [OF d(3)] by simp
  ultimately show ?case
    using one [of "b @ ?rest @ c @ ''}'' @ r"] t(2) "3.prems"(3)
    by (simp add: m(1) d(1) t(1) startswith_one json_ws_token)
qed simp

lemma reads_list:
  assumes "list_all2 reads_as xs ts" and "xs \<noteq> []" and "blank a" and "blank b" and "blank c"
  shows "reads_as (JList xs) (''['' @ a @ join ('','' @ b) ts @ c @ '']'')"
  unfolding reads_as_def
proof (intro conjI allI impI)
  fix n r
  let ?body = "join ('','' @ b) ts"
  assume "2 * length (''['' @ a @ ?body @ c @ '']'') \<le> n"
  then obtain m where m: "n = Suc m" "2 * length ?body + 1 \<le> m" by (cases n) auto
  have "scan_elems m (?body @ c @ '']'' @ r) = Some (xs, r)" by (rule scan_elems_texts [OF assms(1,2,4,5) m(2)])
  moreover have "token_start (?body @ c @ '']'' @ r)" "\<not> startswith (?body @ c @ '']'' @ r) '']''"
    using token_start_join [of ts] assms(1,2) reads_as_token [OF assms(1)] token_not_closing by (cases ts; auto)+
  ultimately show "scan_value n ((''['' @ a @ ?body @ c @ '']'') @ r) = Some (JList xs, r)"
    using assms(3) by (simp add: m(1) json_ws_token)
qed (simp add: token_start_def ws_char_def)

lemma reads_obj:
  assumes "list_all2 member_text d ts" and "d \<noteq> []" and "distinct (map fst d)" and "blank a" and "blank b" and "blank c"
  shows "reads_as (JObj d) (''{'' @ a @ join ('','' @ b) ts @ c @ ''}'')"
  unfolding reads_as_def
proof (intro conjI allI impI)
  fix n r
  let ?body = "join ('','' @ b) ts"
  assume "2 * length (''{'' @ a @ ?body @ c @ ''}'') \<le> n"
  then obtain m where m: "n = Suc m" "2 * length ?body + 1 \<le> m" by (cases n) auto
  have "scan_members m [] (?body @ c @ ''}'' @ r) = Some ([] @ d, r)"
    by (rule scan_members_texts [OF assms(1,2,5,6) m(2)]) (use assms(3) in simp)
  moreover have "token_start (?body @ c @ ''}'' @ r)" "\<not> startswith (?body @ c @ ''}'' @ r) ''}''"
    using token_start_join [of ts] assms(1,2) member_token [OF assms(1)] token_not_closing by (cases ts; auto)+
  ultimately show "scan_value n ((''{'' @ a @ ?body @ c @ ''}'') @ r) = Some (JObj d, r)"
    using assms(4) by (simp add: m(1) json_ws_token)
qed (simp add: token_start_def ws_char_def)

lemma reads_empty: "reads_as (JList []) ''[]''" "reads_as (JObj []) ''{}''"
proof -
  have "scan_value n (''[]'' @ r) = Some (JList [], r)" "scan_value n (''{}'' @ r) = Some (JObj [], r)" if "2 * 2 \<le> n" for n r
    using that by (cases n; simp add: startswith_one)+
  then show "reads_as (JList []) ''[]''" "reads_as (JObj []) ''{}''"
    by (simp_all add: reads_as_def token_start_def ws_char_def)
qed

lemma leaf_reads:
  assumes "token_start t" and "\<And>m r. stops r \<Longrightarrow> scan_value (Suc m) (t @ r) = Some (v, r)"
  shows "reads_as v t"
  unfolding reads_as_def
proof (intro conjI allI impI)
  fix n r
  assume n: "2 * length t \<le> n" and r: "stops r"
  have "t \<noteq> []" using assms(1) by (simp add: token_start_def)
  with n obtain m where "n = Suc m" by (cases n) auto
  with assms(2) [OF r] show "scan_value n (t @ r) = Some (v, r)" by blast
qed (rule assms(1))

lemma reads_leaves:
  "reads_as JNull ''null''" "reads_as (JBool b) (if b then ''true'' else ''false'')"
  "reads_as (JInt i) (int_str i)" "float_text t \<Longrightarrow> reads_as (JFloat t) (dump 0 (JFloat t))"
  "str_text s u \<Longrightarrow> reads_as (JStr s) u"
proof -
  show "reads_as JNull ''null''"
    by (rule leaf_reads) (simp_all add: scan_word_def startswith_def token_start_def ws_char_def)
  show "reads_as (JBool b) (if b then ''true'' else ''false'')"
    by (rule leaf_reads) (simp_all add: scan_word_def startswith_def token_start_def ws_char_def)
  obtain c q where "nat_str (nat \<bar>i\<bar>) = c # q" "is_digit c" using nat_str_token by blast
  then have "token_start (int_str i)" by (cases "i < 0") (auto simp: token_start_def ws_char_def int_str_def is_digit_def)
  then show "reads_as (JInt i) (int_str i)" using scan_value_int by (intro leaf_reads) simp_all
  show "reads_as (JFloat t) (dump 0 (JFloat t))" if t: "float_text t"
  proof (rule leaf_reads)
    have "token_start t" if n: "scan_number t = Some (JFloat t, [])"
    proof -
      from scan_number_ne [OF n] obtain c s where cs: "t = c # s" by (cases t) auto
      from n have "c = CHR ''-'' \<or> is_digit c" unfolding cs by (rule scan_number_head)
      then show ?thesis by (auto simp: cs token_start_def ws_char_def is_digit_def)
    qed
    with t show "token_start (dump 0 (JFloat t))" by (auto simp: float_text_def token_start_def ws_char_def)
  qed (rule scan_value_float [OF t])
  show "reads_as (JStr s) u" if "str_text s u"
    using that by (intro leaf_reads) (auto simp: str_text_def token_start_def ws_char_def)
qed

lemma str_text_dump: "str_text s (dump_str s)"
  by (simp add: str_text_def dump_str_def scan_str_dump)

lemma json_ok_reads: "json_ok v \<Longrightarrow> reads_as v (dump k v)"
proof (induction v arbitrary: k)
  case (JFloat t)
  then show ?case using reads_leaves(4) [of t] by simp
next
  case (JList xs)
  have "list_all2 reads_as xs (map (dump (Suc k)) xs)"
    using JList by (auto simp: list_all2_map2 list_all2_same list_all_iff)
  from reads_list [OF this, of "new_line (Suc k)" "new_line (Suc k)" "new_line k"] show ?case
    using reads_empty by (cases "xs = []") simp_all
next
  case (JObj d)
  let ?f = "\<lambda>(n, v). dump_str n @ '': '' @ dump (Suc k) v"
  have "member_text (n, v) (?f (n, v))" if "(n, v) \<in> set d" for n v
  proof -
    have "json_ok v" using JObj.prems that by (fastforce simp: list_all_iff)
    with JObj.IH [OF that] have "reads_as v (dump (Suc k) v)" by simp
    with str_text_dump [of n] show ?thesis
      unfolding member_text_def by (intro exI [of _ "dump_str n"] exI [of _ "dump (Suc k) v"]) simp
  qed
  then have "list_all2 member_text d (map ?f d)" by (auto simp: list_all2_map2 list_all2_same)
  from reads_obj [OF this, of "new_line (Suc k)" "new_line (Suc k)" "new_line k"] show ?case
    using reads_empty JObj.prems by (cases "d = []") simp_all
qed (use reads_leaves str_text_dump in simp_all)

text \<open>A text that reads as a value, with white space behind it, is a document.\<close>

lemma loads_text: "reads_as v s \<Longrightarrow> blank c \<Longrightarrow> json_loads (s @ c) = Inr v"
proof -
  assume s: "reads_as v s" and c: "blank c"
  have "token_start (s @ c)" "stops c" using s c by (cases c; simp add: reads_as_def blank_def stops_def)+
  moreover have "scan_value (2 * length (s @ c) + 2) (s @ c) = Some (v, c)"
    using s \<open>stops c\<close> unfolding reads_as_def by (metis le_add1 length_append mult_le_mono2 order_trans)
  moreover have "json_ws c = []" using json_ws_blank [OF c, of "[]"] by simp
  ultimately show ?thesis
    by (simp only: json_loads_def json_ws_token option.case prod.case) simp
qed

text \<open>\<open>json.loads(json.dumps(v, indent=2, ensure_ascii=False) + "\n") == v\<close>.\<close>

lemma loads_dumps: "json_ok v \<Longrightarrow> json_loads (json_dumps v @ [CHR 0x0A]) = Inr v"
  unfolding json_dumps_def by (intro loads_text json_ok_reads) (simp_all add: blank_def ws_char_def)

section \<open>What the reader returns\<close>

lemma scan_digits_all: "list_all is_digit s \<Longrightarrow> x = [] \<or> \<not> is_digit (hd x) \<Longrightarrow> scan_digits (s @ x) = (s, x)"
  by (induction s) (cases x, auto simp: scan_digits_def)

lemma scan_digits_taken: "list_all is_digit (fst (scan_digits s))"
  by (auto simp: scan_digits_def list_all_iff dest: set_takeWhileD)

lemma scan_int_again:
  assumes "scan_int s = Some (i, r)" and "x = [] \<or> \<not> is_digit (hd x)"
  shows "scan_int (i @ x) = Some (i, x)"
proof -
  from assms(1) obtain c q where s: "s = c # q" by (cases s) (auto simp: scan_int_def)
  show ?thesis
  proof (cases "c = CHR ''0''")
    case True
    with assms(1) show ?thesis by (auto simp: s scan_int_def)
  next
    case False
    with assms(1) have c: "is_digit c" "i = c # fst (scan_digits q)"
      by (auto simp: s scan_int_def scan_digits_def split: if_splits)
    then have "scan_digits (i @ x) = (i, x)"
      by (intro scan_digits_all assms(2)) (simp_all add: scan_digits_taken)
    with c False show ?thesis by (simp add: scan_int_def)
  qed
qed

lemma scan_frac_again:
  assumes "x = [] \<or> \<not> is_digit (hd x) \<and> hd x \<noteq> CHR ''.''"
  shows "scan_frac (fst (scan_frac s) @ x) = (fst (scan_frac s), x)"
proof -
  have none: "scan_frac x = ([], x)" using assms by (cases x) (auto simp: scan_frac_def)
  show ?thesis
  proof (cases "fst (scan_frac s) = []")
    case False
    then obtain q where "s = CHR ''.'' # q" "fst (scan_digits q) \<noteq> []" "fst (scan_frac s) = CHR ''.'' # fst (scan_digits q)"
      by (cases s) (auto simp: scan_frac_def split: if_splits)
    moreover have "scan_digits (fst (scan_digits q) @ x) = (fst (scan_digits q), x)"
      using assms by (intro scan_digits_all scan_digits_taken) auto
    ultimately show ?thesis by (simp add: scan_frac_def)
  qed (simp add: none)
qed

lemma scan_exp_shape:
  "fst (scan_exp s) = [] \<or> (\<exists>c sg ds. fst (scan_exp s) = c # sg @ ds \<and> (c = CHR ''e'' \<or> c = CHR ''E'') \<and>
     (sg = [] \<or> sg = ''+'' \<or> sg = ''-'') \<and> ds \<noteq> [] \<and> list_all is_digit ds)"
proof (cases "fst (scan_exp s) = []")
  case False
  then obtain c q where s: "s = c # q" and c: "c = CHR ''e'' \<or> c = CHR ''E''"
    by (cases s) (auto simp: scan_exp_def split: if_splits)
  define sg where "sg = (if q \<noteq> [] \<and> (hd q = CHR ''+'' \<or> hd q = CHR ''-'') then [hd q] else [])"
  define ds where "ds = fst (scan_digits (if sg = [] then q else tl q))"
  have "fst (scan_exp s) = c # sg @ ds" "ds \<noteq> []"
    using False c by (cases q; auto simp: s scan_exp_def sg_def ds_def split: if_splits)+
  moreover have "sg = [] \<or> sg = ''+'' \<or> sg = ''-''" by (simp add: sg_def)
  moreover have "list_all is_digit ds" by (simp add: ds_def scan_digits_taken)
  ultimately show ?thesis using c by blast
qed simp

lemma scan_exp_again: "scan_exp (fst (scan_exp s)) = (fst (scan_exp s), [])"
proof (cases "fst (scan_exp s) = []")
  case False
  with scan_exp_shape [of s] obtain c sg ds where e: "fst (scan_exp s) = c # sg @ ds" "c = CHR ''e'' \<or> c = CHR ''E''"
    "sg = [] \<or> sg = ''+'' \<or> sg = ''-''" "ds \<noteq> []" "list_all is_digit ds"
    by blast
  then have "scan_digits ds = (ds, [])" using scan_digits_all [of ds "[]"] by simp
  moreover from e obtain d w where "ds = d # w" "is_digit d" by (cases ds) auto
  moreover from this have "d \<noteq> CHR ''+''" "d \<noteq> CHR ''-''" by (auto simp: is_digit_def)
  ultimately show ?thesis using e(2,3) unfolding e(1) by (auto simp: scan_exp_def)
qed (simp add: scan_exp_def)

lemma scan_int_head: "scan_int s = Some (i, r) \<Longrightarrow> \<exists>c q. i = c # q \<and> is_digit c"
proof (cases s)
  case (Cons c q)
  moreover assume "scan_int s = Some (i, r)"
  moreover have "is_digit (CHR ''0'')" by (simp add: is_digit_def)
  ultimately show ?thesis by (auto simp: scan_int_def scan_digits_def split: if_splits)
qed (simp add: scan_int_def)

lemma scan_number_float:
  assumes "scan_number s = Some (JFloat t, r)"
  shows "scan_number t = Some (JFloat t, [])"
proof -
  let ?neg = "startswith s ''-''"
  obtain i r1 where i: "scan_int (if ?neg then tl s else s) = Some (i, r1)"
    using assms by (auto simp: scan_number_alt Let_def split: option.splits)
  let ?f = "fst (scan_frac r1)" and ?e = "fst (scan_exp (snd (scan_frac r1)))"
  have t: "t = (if ?neg then ''-'' else []) @ i @ ?f @ ?e" and ne: "\<not> (?f = [] \<and> ?e = [])"
    using assms i by (auto simp: scan_number_alt Let_def split: if_splits)
  have e: "?e = [] \<or> \<not> is_digit (hd ?e) \<and> hd ?e \<noteq> CHR ''.''"
    using scan_exp_shape [of "snd (scan_frac r1)"] by (auto simp: is_digit_def)
  have f: "scan_frac (?f @ ?e) = (?f, ?e)" by (rule scan_frac_again [OF e])
  have fe: "?f @ ?e = [] \<or> \<not> is_digit (hd (?f @ ?e))"
  proof (cases "?f = []")
    case False
    then have "hd ?f = CHR ''.''" by (cases r1) (auto simp: scan_frac_def split: if_splits)
    with False show ?thesis by (simp add: is_digit_def)
  qed (use e in auto)
  have "scan_int (i @ ?f @ ?e) = Some (i, ?f @ ?e)" by (rule scan_int_again [OF i fe])
  moreover have "startswith t ''-'' = ?neg"
  proof (cases ?neg)
    case False
    obtain c q where "i = c # q" "is_digit c" using scan_int_head [OF i] by blast
    moreover from this have "c \<noteq> CHR ''-''" by (auto simp: is_digit_def)
    ultimately show ?thesis using False by (simp add: t startswith_one [of "c # _"])
  qed (simp add: t startswith_one [of "_ # _"])
  moreover have "(if ?neg then tl t else t) = i @ ?f @ ?e" by (simp add: t)
  ultimately show ?thesis
    unfolding scan_number_alt [of t] Let_def using ne by (simp only: f scan_exp_again option.case prod.case fst_conv snd_conv if_False) (simp add: t)
qed

lemma scan_word_ok: "scan_word s = Some (v, r) \<Longrightarrow> json_ok v"
proof -
  assume s: "scan_word s = Some (v, r)"
  have "float_text t" if "scan_number s = Some (JFloat t, r)" for t
    using scan_number_float [OF that] by (simp add: float_text_def)
  moreover have "(\<exists>i. v = JInt i) \<or> (\<exists>t. v = JFloat t)" if "scan_number s = Some (v, r)"
    using that by (auto simp: scan_number_alt Let_def split: option.splits if_splits)
  ultimately show ?thesis
    using s by (auto simp: scan_word_def float_text_def split: if_splits option.splits)
qed

lemma json_ok_dict_set: "json_ok (JObj d) \<Longrightarrow> json_ok v \<Longrightarrow> json_ok (JObj (dict_set d k v))"
  by (induction d) (auto simp: dict_set_keys list_all_iff split: if_splits)

lemma scan_value_ok:
  "scan_value n s = Some (v, r) \<Longrightarrow> json_ok v"
  "scan_elems n s = Some (vs, r) \<Longrightarrow> json_ok (JList vs)"
  "scan_members n d s = Some (d', r) \<Longrightarrow> json_ok (JObj d) \<Longrightarrow> json_ok (JObj d')"
proof (induction n s and n s and n d s arbitrary: v r and vs r and d' r rule: scan_value_scan_elems_scan_members.induct)
  case (2 n s)
  then obtain c q where s: "s = c # q" by (cases s) auto
  consider "c = CHR 0x22" | "c = CHR ''{''" | "c = CHR ''[''" | "c \<noteq> CHR 0x22" "c \<noteq> CHR ''{''" "c \<noteq> CHR ''[''"
    by blast
  then show ?case
  proof cases
    case 4
    with "2.prems" show ?thesis by (simp add: s scan_word_ok)
  qed (use 2 s in \<open>auto split: if_splits\<close>)
next
  case (4 n s)
  then obtain v q where v: "scan_value n s = Some (v, q)" by (auto split: option.splits)
  with "4.IH"(1) have "json_ok v" by blast
  then show ?case
    using "4.prems" "4.IH"(2) [OF v refl] by (auto simp: v split: if_splits)
next
  case (6 n d s)
  then obtain c q where s: "s = c # q" "c = CHR 0x22" by (cases s) (auto split: if_splits)
  with "6.prems" obtain k r1 where k: "scan_str q = Some (k, r1)" by (auto split: option.splits)
  with s "6.prems" obtain v r2 where v: "startswith (json_ws r1) '':''" "scan_value n (json_ws (tl (json_ws r1))) = Some (v, r2)"
    by (auto split: option.splits if_splits)
  have ok: "json_ok v" using "6.IH"(1) [OF s(1) _ k refl _ v(2)] s(2) v(1) by simp
  have step: "json_ok (JObj (dict_set d k v))" by (rule json_ok_dict_set [OF "6.prems"(2) ok])
  show ?case
    using "6.prems"(1) "6.IH"(2) [OF s(1) _ k refl _ v(2) refl _ _ _ step] step
    by (auto simp: s k v split: if_splits)
qed simp_all

lemma loads_ok: "json_loads s = Inr v \<Longrightarrow> json_ok v"
  by (auto simp: json_loads_def simp del: scan_value.simps dest: scan_value_ok(1) split: option.splits if_splits)

section \<open>The fuel is enough\<close>

lemma json_ws_le: "length (json_ws s) \<le> length s"
  by (simp add: json_ws_def length_dropWhile_le)

lemma scan_str_Cons:
  "scan_str (CHR 0x22 # q) = Some ([], q)"
  "scan_str (backslash # q) = (case unescape q of None \<Rightarrow> None
     | Some (x, r') \<Rightarrow> map_option (\<lambda>(t, r''). (x # t, r'')) (scan_str r'))"
  "c \<noteq> CHR 0x22 \<Longrightarrow> c \<noteq> backslash \<Longrightarrow> scan_str (c # q) =
     (if of_char c < (32::nat) then None else map_option (\<lambda>(t, r''). (c # t, r'')) (scan_str q))"
  by (subst scan_str.simps, simp add: backslash_def)+

lemma scan_str_shorter: "scan_str s = Some (t, r) \<Longrightarrow> length r < length s"
proof (induction s arbitrary: t r rule: scan_str.induct)
  case (1 s)
  then obtain c q where s: "s = c # q" by (subst (asm) scan_str.simps) (auto split: list.splits)
  consider "c = CHR 0x22" | "c \<noteq> CHR 0x22" "c = backslash" | "c \<noteq> CHR 0x22" "c \<noteq> backslash" by blast
  then show ?case
  proof cases
    case 1
    with "1.prems" s have "r = q" by (simp add: scan_str_Cons)
    with s show ?thesis by simp
  next
    case 2
    with "1.prems" s obtain x r' t' where x: "unescape q = Some (x, r')" "scan_str r' = Some (t', r)"
      by (auto simp: scan_str_Cons split: option.splits)
    with "1.IH"(1) [OF s 2 x(1) refl x(2)] unescape_shorter [OF x(1)] s show ?thesis by simp
  next
    case 3
    with "1.prems" s have c: "\<not> of_char c < (32::nat)"
      by (auto simp: scan_str_Cons split: if_splits)
    with 3 "1.prems" s obtain t' where "scan_str q = Some (t', r)"
      by (auto simp: scan_str_Cons)
    with "1.IH"(2) [OF s 3 c this] s show ?thesis by simp
  qed
qed

lemma scan_frac_le: "length (snd (scan_frac s)) \<le> length s"
  by (cases s) (auto simp: scan_frac_def scan_digits_def length_dropWhile_le le_Suc_eq)

lemma scan_exp_le: "length (snd (scan_exp s)) \<le> length s"
proof (cases s)
  case (Cons c q)
  have "length (dropWhile is_digit x) \<le> length x" for x by (rule length_dropWhile_le)
  then show ?thesis using Cons by (cases q) (auto simp: scan_exp_def scan_digits_def le_Suc_eq)
qed (simp add: scan_exp_def)

lemma scan_int_shorter: "scan_int s = Some (i, r) \<Longrightarrow> length r < length s"
  by (cases s) (auto simp: scan_int_def scan_digits_def less_Suc_eq_le length_dropWhile_le split: if_splits)

lemma scan_number_shorter: "scan_number s = Some (v, r) \<Longrightarrow> length r < length s"
proof -
  assume s: "scan_number s = Some (v, r)"
  let ?u = "if startswith s ''-'' then tl s else s"
  obtain i r1 where i: "scan_int ?u = Some (i, r1)"
    using s by (auto simp: scan_number_alt Let_def split: option.splits)
  have "length r1 < length s" using scan_int_shorter [OF i] by (auto split: if_splits)
  moreover have "length r \<le> length r1"
    using s i scan_frac_le [of r1] scan_exp_le [of "snd (scan_frac r1)"]
    by (auto simp: scan_number_alt Let_def split: if_splits)
  ultimately show ?thesis by simp
qed

lemma scan_word_shorter: "scan_word s = Some (v, r) \<Longrightarrow> length r < length s"
  by (auto simp: scan_word_def startswith_iff dest: scan_number_shorter split: if_splits option.splits)

lemma fuel_step:
  assumes "length r < length s" and "\<And>m. 2 * (length s - length r) \<le> Suc m \<Longrightarrow> f (Suc m) = x"
  shows "length r < length s \<and> (\<forall>m. 2 * (length s - length r) \<le> m \<longrightarrow> f m = x)"
proof (intro conjI allI impI)
  fix m
  assume m: "2 * (length s - length r) \<le> m"
  with assms(1) obtain m' where "m = Suc m'" by (cases m) auto
  with m assms(2) show "f m = x" by simp
qed (rule assms(1))

text \<open>What a reader needs: two units of fuel for every character it consumes.\<close>

lemma scan_value_fuel:
  "scan_value n s = Some (v, r) \<Longrightarrow> length r < length s \<and> (\<forall>m. 2 * (length s - length r) \<le> m \<longrightarrow> scan_value m s = Some (v, r))"
  "scan_elems n s = Some (vs, r) \<Longrightarrow> length r < length s \<and> (\<forall>m. 2 * (length s - length r) \<le> m \<longrightarrow> scan_elems m s = Some (vs, r))"
  "scan_members n d s = Some (d', r) \<Longrightarrow> length r < length s \<and> (\<forall>m. 2 * (length s - length r) \<le> m \<longrightarrow> scan_members m d s = Some (d', r))"
proof (induction n s and n s and n d s arbitrary: v r and vs r and d' r rule: scan_value_scan_elems_scan_members.induct)
  case (2 n s)
  from "2.prems" obtain c q where s: "s = c # q" by (cases s) auto
  have ws: "length (json_ws q) \<le> length q" by (rule json_ws_le)
  consider "c = CHR 0x22" | "c = CHR ''{''" "startswith (json_ws q) ''}''" | "c = CHR ''{''" "\<not> startswith (json_ws q) ''}''"
    | "c = CHR ''[''" "startswith (json_ws q) '']''" | "c = CHR ''[''" "\<not> startswith (json_ws q) '']''"
    | "c \<noteq> CHR 0x22" "c \<noteq> CHR ''{''" "c \<noteq> CHR ''[''"
    by blast
  then show ?case
  proof cases
    case 1
    with "2.prems" obtain t where t: "scan_str q = Some (t, r)" "v = JStr t" by (auto simp: s)
    with 1 scan_str_shorter [OF t(1)] show ?thesis by (intro fuel_step) (simp_all add: s)
  next
    case 2
    with "2.prems" have "v = JObj []" "r = tl (json_ws q)" by (simp_all add: s)
    with 2 ws show ?thesis by (intro fuel_step) (simp_all add: s)
  next
    case 3
    with "2.prems" obtain d where d: "scan_members n [] (json_ws q) = Some (d, r)" "v = JObj d" by (auto simp: s)
    have ih: "length r < length (json_ws q)"
      "\<And>m. 2 * (length (json_ws q) - length r) \<le> m \<Longrightarrow> scan_members m [] (json_ws q) = Some (d, r)"
      using "2.IH"(1) [OF s _ _ 3(2) d(1)] 3(1) by simp_all
    show ?thesis
    proof (rule fuel_step)
      fix m
      assume "2 * (length s - length r) \<le> Suc m"
      with ws s have "scan_members m [] (json_ws q) = Some (d, r)" by (intro ih(2)) simp
      with 3 d(2) show "scan_value (Suc m) s = Some (v, r)" by (simp add: s)
    qed (use ih(1) ws s in simp)
  next
    case 4
    with "2.prems" have "v = JList []" "r = tl (json_ws q)" by (simp_all add: s)
    with 4 ws show ?thesis by (intro fuel_step) (simp_all add: s)
  next
    case 5
    with "2.prems" obtain vs where vs: "scan_elems n (json_ws q) = Some (vs, r)" "v = JList vs" by (auto simp: s)
    have ih: "length r < length (json_ws q)"
      "\<And>m. 2 * (length (json_ws q) - length r) \<le> m \<Longrightarrow> scan_elems m (json_ws q) = Some (vs, r)"
      using "2.IH"(2) [OF s _ _ _ 5(2) vs(1)] 5(1) by simp_all
    show ?thesis
    proof (rule fuel_step)
      fix m
      assume "2 * (length s - length r) \<le> Suc m"
      with ws s have "scan_elems m (json_ws q) = Some (vs, r)" by (intro ih(2)) simp
      with 5 vs(2) show "scan_value (Suc m) s = Some (v, r)" by (simp add: s)
    qed (use ih(1) ws s in simp)
  next
    case 6
    with "2.prems" have "scan_word (c # q) = Some (v, r)" by (simp add: s)
    with 6 scan_word_shorter [OF this] show ?thesis by (intro fuel_step) (simp_all add: s)
  qed
next
  case (4 n s)
  from "4.prems" obtain v q where v: "scan_value n s = Some (v, q)" by (auto split: option.splits)
  have iv: "length q < length s" "\<And>m. 2 * (length s - length q) \<le> m \<Longrightarrow> scan_value m s = Some (v, q)"
    using "4.IH"(1) [OF v] by blast+
  have ws: "length (json_ws q) \<le> length q" "length (json_ws (tl (json_ws q))) \<le> length (json_ws q) - 1"
    using json_ws_le [of q] json_ws_le [of "tl (json_ws q)"] by simp_all
  show ?case
  proof (cases "startswith (json_ws q) '']''")
    case True
    then have "json_ws q \<noteq> []" by (auto simp: startswith_one)
    from True "4.prems" v have "vs = [v]" "r = tl (json_ws q)" by simp_all
    show ?thesis
    proof (rule fuel_step)
      fix m
      assume "2 * (length s - length r) \<le> Suc m"
      with iv(1) ws(1) \<open>r = _\<close> \<open>json_ws q \<noteq> []\<close> have "scan_value m s = Some (v, q)" by (intro iv(2)) (cases "json_ws q", auto)
      with True \<open>vs = _\<close> \<open>r = _\<close> show "scan_elems (Suc m) s = Some (vs, r)" by simp
    qed (use iv(1) ws(1) \<open>r = _\<close> in simp)
  next
    case False
    with "4.prems" v obtain ws' where rest: "startswith (json_ws q) '',''"
      "scan_elems n (json_ws (tl (json_ws q))) = Some (ws', r)" "vs = v # ws'"
      by (auto split: if_splits)
    have ne: "json_ws q \<noteq> []" using rest(1) by (auto simp: startswith_one)
    then have pos: "0 < length (json_ws q)" by simp
    have ih: "length r < length (json_ws (tl (json_ws q)))"
      "\<And>m. 2 * (length (json_ws (tl (json_ws q))) - length r) \<le> m \<Longrightarrow>
        scan_elems m (json_ws (tl (json_ws q))) = Some (ws', r)"
      using "4.IH"(2) [OF v refl False rest(1,2)] by simp_all
    show ?thesis
    proof (rule fuel_step)
      fix m
      assume m: "2 * (length s - length r) \<le> Suc m"
      then have "scan_value m s = Some (v, q)" using iv(1) ih(1) ws pos by (intro iv(2)) linarith
      moreover have "scan_elems m (json_ws (tl (json_ws q))) = Some (ws', r)"
        using m iv(1) ih(1) ws pos by (intro ih(2)) linarith
      ultimately show "scan_elems (Suc m) s = Some (vs, r)" using False rest(1,3) by simp
    qed (use iv(1) ih(1) ws pos in linarith)
  qed
next
  case (6 n d s)
  from "6.prems" obtain c q where s: "s = c # q" "c = CHR 0x22" by (cases s) (auto split: if_splits)
  with "6.prems" obtain k r1 where k: "scan_str q = Some (k, r1)" by (auto split: option.splits)
  with s "6.prems" obtain v r2 where v: "startswith (json_ws r1) '':''" "scan_value n (json_ws (tl (json_ws r1))) = Some (v, r2)"
    by (auto split: option.splits if_splits)
  have r1: "length r1 < length q" by (rule scan_str_shorter [OF k])
  have size: "length s = Suc (length q)" by (simp add: s)
  have cpos: "0 < length (json_ws r1)" using v(1) by (auto simp: startswith_one)
  have le: "length (json_ws r1) \<le> length r1" "length (json_ws (tl (json_ws r1))) \<le> length (json_ws r1) - 1"
    "length (json_ws r2) \<le> length r2" "length (json_ws (tl (json_ws r2))) \<le> length (json_ws r2) - 1"
    using json_ws_le [of r1] json_ws_le [of "tl (json_ws r1)"] json_ws_le [of r2] json_ws_le [of "tl (json_ws r2)"] by simp_all
  have iv: "length r2 < length (json_ws (tl (json_ws r1)))"
    "\<And>m. 2 * (length (json_ws (tl (json_ws r1))) - length r2) \<le> m \<Longrightarrow> scan_value m (json_ws (tl (json_ws r1))) = Some (v, r2)"
    using "6.IH"(1) [OF s(1) _ k refl _ v(2)] s(2) v(1) by blast+
  show ?case
  proof (cases "startswith (json_ws r2) ''}''")
    case True
    then have pos: "0 < length (json_ws r2)" by (auto simp: startswith_one)
    from True "6.prems" s k v have r: "d' = dict_set d k v" "r = tl (json_ws r2)" by simp_all
    then have len: "length r = length (json_ws r2) - 1" by simp
    show ?thesis
    proof (rule fuel_step)
      fix m
      assume "2 * (length s - length r) \<le> Suc m"
      then have "scan_value m (json_ws (tl (json_ws r1))) = Some (v, r2)"
        using iv(1) le r1 pos len size cpos by (intro iv(2)) linarith
      with True s k v(1) r show "scan_members (Suc m) d s = Some (d', r)" by simp
    qed (use iv(1) le r1 pos len size cpos in linarith)
  next
    case False
    with "6.prems" s k v have rest: "startswith (json_ws r2) '',''"
      "scan_members n (dict_set d k v) (json_ws (tl (json_ws r2))) = Some (d', r)"
      by (auto split: if_splits)
    have "json_ws r2 \<noteq> []" using rest(1) by (auto simp: startswith_one)
    then have pos: "0 < length (json_ws r2)" by simp
    let ?u = "json_ws (tl (json_ws r2))"
    have ih: "length r < length ?u"
      "\<And>m. 2 * (length ?u - length r) \<le> m \<Longrightarrow> scan_members m (dict_set d k v) ?u = Some (d', r)"
      using "6.IH"(2) [OF s(1) _ k refl _ v(2) refl False rest(1,2)] s(2) v(1) by simp_all
    show ?thesis
    proof (rule fuel_step)
      fix m
      assume m: "2 * (length s - length r) \<le> Suc m"
      then have "scan_value m (json_ws (tl (json_ws r1))) = Some (v, r2)"
        using iv(1) ih(1) le r1 pos size cpos by (intro iv(2)) linarith
      moreover have "scan_members m (dict_set d k v) ?u = Some (d', r)"
        using m iv(1) ih(1) le r1 pos size cpos by (intro ih(2)) linarith
      ultimately show "scan_members (Suc m) d s = Some (d', r)" using False rest(1) s k v(1) by simp
    qed (use iv(1) ih(1) le r1 pos size cpos in linarith)
  qed
qed simp_all

text \<open>If any fuel reads a text, the fuel of \<open>json_loads\<close> does: it fails on invalid texts only.\<close>

lemma json_loads_fuel:
  assumes "scan_value n (json_ws s) = Some (v, r)" and "json_ws r = []"
  shows "json_loads s = Ok v"
proof -
  have "2 * (length (json_ws s) - length r) \<le> 2 * length s + 2" using json_ws_le [of s] by simp
  with scan_value_fuel(1) [OF assms(1)] have "scan_value (2 * length s + 2) (json_ws s) = Some (v, r)" by blast
  with assms(2) show ?thesis by (simp add: json_loads_def del: scan_value.simps)
qed

end
