(* ===== verification/Lookup_Sync.thy ===== *)
theory Lookup_Sync
  imports Config Json_Text
begin

text \<open>
  \<open>mail_router/lookup_sync.py\<close>: one pull of the lookup document from the hosting API. The file
  system is a map from paths to files; every operation returns, beside its result, the file
  systems that another process (the live lookup) can observe one after the other, one per
  system call that changes a file. The HTTP client is a parameter: a function from the
  request (URL and headers) to what \<open>http.get\<close> does. The environment of a write names the
  random part of the temporary file, the time, and the system calls that fail, if any do. That
  of a run adds what the interpreter's limits refuse: the conversion of an integer of more than
  4300 digits, and a nesting deeper than the stack allows.
\<close>

section \<open>Validation\<close>

definition valid_host :: "json \<Rightarrow> bool" where
  "valid_host h = (case h of JStr s \<Rightarrow> strip s \<noteq> [] | _ \<Rightarrow> False)"

definition entry_name :: "string \<Rightarrow> string" where
  "entry_name key = ''data_sources['' @ repr_str key @ '']''"

fun check_fields :: "string \<Rightarrow> (string \<times> json) list \<Rightarrow> string list \<Rightarrow> unit result" where
  "check_fields key entry [] = Ok ()"
| "check_fields key entry (field # rest) =
    (if valid_host (dict_get entry field JNull) then check_fields key entry rest
     else Raise (ValidationFailure (entry_name key @ ''.'' @ field @ '' must be a non-empty string'')))"

fun check_entries :: "(string \<times> json) list \<Rightarrow> unit result" where
  "check_entries [] = Ok ()"
| "check_entries ((key, entry) # es) = (case entry of
     JObj d \<Rightarrow> bind_result (check_fields key d [''api_url'', ''api_token'']) (\<lambda>_. check_entries es)
   | _ \<Rightarrow> Raise (ValidationFailure (entry_name key @ '' is not an object'')))"

definition validate_payload :: "json \<Rightarrow> json result" where
  "validate_payload payload = (case payload of
     JObj d \<Rightarrow>
       (case dict_get d ''hosts'' JNull of
          JList hosts \<Rightarrow>
            if list_all valid_host hosts then
              (case dict_get d ''data_sources'' JNull of
                 JObj data_sources \<Rightarrow> bind_result (check_entries data_sources) (\<lambda>_. Ok payload)
               | _ \<Rightarrow> Raise (ValidationFailure (quote # ''data_sources'' @ quote # '' must be an object'')))
            else Raise (ValidationFailure (quote # ''hosts'' @ quote # '' must be a list of non-empty strings''))
        | _ \<Rightarrow> Raise (ValidationFailure (quote # ''hosts'' @ quote # '' must be a list of non-empty strings'')))
   | _ \<Rightarrow> Raise (ValidationFailure ''top-level value is not an object''))"

section \<open>Files\<close>

record fentry = lookup_file +
  f_mode :: int

type_synonym fs = "string \<Rightarrow> fentry option"

definition visible :: "fs \<Rightarrow> string \<Rightarrow> lookup_file option" where
  "visible s p = map_option (\<lambda>f. \<lparr>f_text = f_text f, f_mtime = f_mtime f\<rparr>) (s p)"

text \<open>The value of the ETag file; \<open>why\<close> is what the read raises when the file is there but unreadable.\<close>

definition read_etag :: "exn option \<Rightarrow> fs \<Rightarrow> string \<Rightarrow> string option result" where
  "read_etag why s etag_file = (case s etag_file of
     None \<Rightarrow> Ok None
   | Some f \<Rightarrow> (case why of
       Some e \<Rightarrow> if e = OSError then Ok None else Raise e
     | None \<Rightarrow> Ok (if strip (f_text f) = [] then None else Some (strip (f_text f)))))"

datatype io_call = Mkstemp | Write | Chmod | Replace

record write_env =
  we_random :: string
  we_now :: int
  we_fault :: "(io_call \<times> exn) option"
  we_unlink :: "exn option"
  we_written :: nat

definition fails :: "write_env \<Rightarrow> io_call \<Rightarrow> exn option" where
  "fails w c = (case we_fault w of Some (c', e) \<Rightarrow> if c' = c then Some e else None | None \<Rightarrow> None)"

definition tmp_path :: "string \<Rightarrow> write_env \<Rightarrow> string" where
  "tmp_path target w = target @ ''.'' @ we_random w @ ''.tmp''"

text \<open>
  \<open>except OSError\<close>: the temporary file is removed and the exception raised again, unless the
  removal raises in its turn; any other exception passes. The list is the history so far,
  oldest first.
\<close>

definition give_up :: "write_env \<Rightarrow> string \<Rightarrow> exn \<Rightarrow> fs list \<Rightarrow> unit result \<times> fs list" where
  "give_up w tmp e hist =
    (if e = OSError then (case we_unlink w of
       Some e' \<Rightarrow> (Raise e', hist)
     | None \<Rightarrow> (Raise e, hist @ [(last hist)(tmp := None)]))
     else (Raise e, hist))"

definition write_atomic :: "write_env \<Rightarrow> string \<Rightarrow> string \<Rightarrow> int \<Rightarrow> fs \<Rightarrow> unit result \<times> fs list" where
  "write_atomic w target content mode s =
    (case fails w Mkstemp of
       Some e \<Rightarrow> (Raise e, [])
     | None \<Rightarrow>
         let tmp = tmp_path target w; now = we_now w;
             s1 = s(tmp \<mapsto> \<lparr>f_text = [], f_mtime = now, f_mode = 384\<rparr>) in
         case fails w Write of
           Some e \<Rightarrow> give_up w tmp e [s1, s1(tmp \<mapsto> \<lparr>f_text = take (we_written w) content, f_mtime = now, f_mode = 384\<rparr>)]
         | None \<Rightarrow>
             let s2 = s1(tmp \<mapsto> \<lparr>f_text = content, f_mtime = now, f_mode = 384\<rparr>) in
             case fails w Chmod of
               Some e \<Rightarrow> give_up w tmp e [s1, s2]
             | None \<Rightarrow>
                 let s3 = s2(tmp \<mapsto> \<lparr>f_text = content, f_mtime = now, f_mode = mode\<rparr>) in
                 case fails w Replace of
                   Some e \<Rightarrow> give_up w tmp e [s1, s2, s3]
                 | None \<Rightarrow> (Ok (), [s1, s2, s3, s3(tmp := None, target := s3 tmp)]))"

definition final :: "fs \<Rightarrow> fs list \<Rightarrow> fs" where
  "final s hist = last (s # hist)"

section \<open>One synchronisation\<close>

datatype get_outcome =
    Get_Timeout
  | Get_Http_Error
  | Get_Raises exn
  | Get_Response int string "string option"

text \<open>The interpreter's limits, and the exceptions they raise.\<close>

datatype limit = Too_Many_Digits | Too_Deep

definition limit_exn :: "limit \<Rightarrow> exn" where
  "limit_exn l = (case l of Too_Many_Digits \<Rightarrow> ValueError | Too_Deep \<Rightarrow> OtherError ''RecursionError'')"

record sync_env =
  se_get :: "string \<Rightarrow> (string \<times> string) list \<Rightarrow> get_outcome"
  se_etag_read :: "exn option"
  se_loads_limit :: "string \<Rightarrow> limit option"
  se_dumps_limit :: "json \<Rightarrow> limit option"
  se_lookup_write :: write_env
  se_etag_write :: write_env

definition etag_path :: "string \<Rightarrow> string" where
  "etag_path lookup = lookup @ ''.etag''"

definition request_headers :: "lookup_sync_config \<Rightarrow> string option \<Rightarrow> (string \<times> string) list" where
  "request_headers sync etag =
     [(''Authorization'', ''Bearer '' @ ls_api_key sync), (''Accept'', ''application/json'')] @
     (case etag of None \<Rightarrow> [] | Some t \<Rightarrow> [(''If-None-Match'', t)])"

definition document :: "json \<Rightarrow> string" where
  "document payload = json_dumps payload @ [CHR 0x0A]"

text \<open>The log lines of a run: the event and its \<open>reason\<close>, if it has one.\<close>

type_synonym log_lines = "(string \<times> string) list"

definition failed :: "string \<Rightarrow> int result \<times> log_lines \<times> fs list" where
  "failed reason = (Ok 0, [(''lookup_sync_failed'', reason)], [])"

text \<open>The document, the two writes and the exit code they give.\<close>

definition store :: "sync_env \<Rightarrow> string \<Rightarrow> json \<Rightarrow> string option \<Rightarrow> fs \<Rightarrow> int result \<times> log_lines \<times> fs list" where
  "store env lookup payload etag s =
    (let warn = (if truthy (dict_get (case payload of JObj d \<Rightarrow> d | _ \<Rightarrow> []) ''data_sources'' JNull) then []
           else [(''lookup_sync_empty_data_sources'', '''')]) in
     case se_dumps_limit env payload of
       Some l \<Rightarrow> (Raise (limit_exn l), warn, [])
     | None \<Rightarrow>
      (let (r1, h1) = write_atomic (se_lookup_write env) lookup (document payload) 384 s;
         (r2, h2) = (case r1 of Inl e \<Rightarrow> (Raise e, h1)
           | Inr _ \<Rightarrow> (let (r2, h2) = write_atomic (se_etag_write env) (etag_path lookup)
                 ((case etag of None \<Rightarrow> [] | Some t \<Rightarrow> t) @ [CHR 0x0A]) 384 (final s h1) in (r2, h1 @ h2))) in
       case r2 of
         Inl e \<Rightarrow> if e = OSError then (Ok 1, warn @ [(''lookup_sync_write_failed'', '''')], h2) else (Raise e, warn, h2)
       | Inr _ \<Rightarrow> (Ok 0, warn @ [(''lookup_sync_updated'', '''')], h2)))"

text \<open>\<open>json.loads\<close>, up to the limits.\<close>

definition loads_within :: "(string \<Rightarrow> limit option) \<Rightarrow> string \<Rightarrow> json result" where
  "loads_within lim text = (case lim text of Some l \<Rightarrow> Raise (limit_exn l) | None \<Rightarrow> json_loads text)"

definition sync_once :: "sync_env \<Rightarrow> config \<Rightarrow> fs \<Rightarrow> int result \<times> log_lines \<times> fs list" where
  "sync_once env cfg s = (case cf_lookup_sync cfg of
     None \<Rightarrow> (Ok 2, [(''lookup_sync_not_configured'', '''')], [])
   | Some sync \<Rightarrow> (let lookup = lookup_file_path cfg in
       case read_etag (se_etag_read env) s (etag_path lookup) of
         Inl e \<Rightarrow> (Raise e, [], [])
       | Inr etag \<Rightarrow> (case se_get env (ls_url sync) (request_headers sync etag) of
           Get_Timeout \<Rightarrow> failed ''timeout''
         | Get_Http_Error \<Rightarrow> failed ''http_error''
         | Get_Raises e \<Rightarrow> (Raise e, [], [])
         | Get_Response status text new_etag \<Rightarrow>
             if status = 304 then (Ok 0, [(''lookup_sync_unchanged'', '''')], [])
             else if status \<noteq> 200 then failed ''unexpected_status''
             else (case loads_within (se_loads_limit env) text of
                 Inl e \<Rightarrow> if e = JSONDecodeError then failed ''invalid_json'' else (Raise e, [], [])
               | Inr v \<Rightarrow> (case validate_payload v of
                   Inl (ValidationFailure m) \<Rightarrow> failed ''invalid_payload''
                 | Inl e \<Rightarrow> (Raise e, [], [])
                 | Inr payload \<Rightarrow> store env lookup payload new_etag s)))))"

section \<open>The atomic write\<close>

named_theorems sync_defs \<open>definitions of the synchronisation's system calls\<close>

declare fails_def [sync_defs] tmp_path_def [sync_defs] give_up_def [sync_defs] final_def [sync_defs]

lemma tmp_not_target [simp]: "tmp_path target w \<noteq> target" "target \<noteq> tmp_path target w"
  by (simp_all add: tmp_path_def)

lemma last_char_neq: "last xs \<noteq> last ys \<Longrightarrow> xs \<noteq> [] \<Longrightarrow> ys \<noteq> [] \<Longrightarrow> p @ xs \<noteq> q @ ys"
  by (metis last_appendR)

lemma etag_not_lookup [simp]: "etag_path lookup \<noteq> lookup" "lookup \<noteq> etag_path lookup"
  by (simp_all add: etag_path_def)

lemma tmp_not_etag [simp]: "tmp_path lookup w \<noteq> etag_path lookup" "etag_path lookup \<noteq> tmp_path lookup w"
  using last_char_neq [of "''.tmp''" "''.etag''" "lookup @ ''.'' @ we_random w" lookup]
  by (auto simp: tmp_path_def etag_path_def)

lemma etag_tmp_not_lookup [simp]: "tmp_path (etag_path lookup) w \<noteq> lookup" "lookup \<noteq> tmp_path (etag_path lookup) w"
  by (simp_all add: tmp_path_def etag_path_def)

lemma etag_tmp_neq: "tmp_path (etag_path lookup) w \<noteq> tmp_path lookup w' \<longleftrightarrow>
    ''.etag'' @ ''.'' @ we_random w \<noteq> ''.'' @ we_random w'"
  by (auto simp: tmp_path_def etag_path_def)

text \<open>The five ways a write can go, and what each shows of the file system.\<close>

lemma write_atomic_cases:
  assumes "write_atomic w target content mode s = (r, h)"
  shows "(\<exists>e. r = Raise e \<and> (\<forall>t \<in> set h. t target = s target)) \<or>
    (r = Ok () \<and> h \<noteq> [] \<and> final s h = s(tmp_path target w := None, target \<mapsto> \<lparr>f_text = content, f_mtime = we_now w, f_mode = mode\<rparr>) \<and>
     (\<forall>t \<in> set h. t target = s target \<or> t target = Some \<lparr>f_text = content, f_mtime = we_now w, f_mode = mode\<rparr>))"
  using assms unfolding write_atomic_def give_up_def Let_def
  by (auto simp: final_def split: option.splits if_splits)

lemma write_atomic_frame:
  assumes "write_atomic w target content mode s = (r, h)" and "t \<in> set h" and "p \<noteq> target" and "p \<noteq> tmp_path target w"
  shows "t p = s p"
  using assms unfolding write_atomic_def give_up_def Let_def
  by (auto split: option.splits if_splits)

lemma write_atomic_tidy:
  assumes "write_atomic w target content mode s = (r, h)" and "s (tmp_path target w) = None" and "r = Ok () \<or> r = Raise OSError"
    and "r \<noteq> Ok () \<Longrightarrow> we_unlink w = None"
  shows "final s h (tmp_path target w) = None"
  using assms unfolding write_atomic_def give_up_def Let_def
  by (auto simp: final_def split: option.splits if_splits)

lemma final_in: "final s h = s \<or> final s h \<in> set h"
  by (cases h) (auto simp: final_def)

lemma final_append: "final s (h1 @ h2) = final (final s h1) h2"
  by (cases h2) (auto simp: final_def)

lemma write_atomic_raises:
  assumes "write_atomic w target content mode s = (Raise e, h)"
  shows "(\<exists>c. we_fault w = Some (c, e) \<or> we_fault w = Some (c, OSError) \<and> we_unlink w = Some e) \<and> final s h target = s target"
proof -
  have "\<exists>c. we_fault w = Some (c, e) \<or> we_fault w = Some (c, OSError) \<and> we_unlink w = Some e"
    using assms unfolding write_atomic_def give_up_def Let_def
    by (auto simp: fails_def split: option.splits if_splits)
  moreover have "final s h target = s target"
    using write_atomic_cases [OF assms] final_in [of s h] by auto
  ultimately show ?thesis by blast
qed

text \<open>The two writes together.\<close>

lemma store_cases:
  assumes "store env lookup payload etag s = (r, lg, h)"
  obtains (refused) l where "se_dumps_limit env payload = Some l" "r = Raise (limit_exn l)" "h = []"
  | (first_fails) e where "write_atomic (se_lookup_write env) lookup (document payload) 384 s = (Raise e, h)"
      "r = (if e = OSError then Ok 1 else Raise e)"
  | (second_fails) e h1 h2 where "write_atomic (se_lookup_write env) lookup (document payload) 384 s = (Ok (), h1)"
      "write_atomic (se_etag_write env) (etag_path lookup) ((case etag of None \<Rightarrow> [] | Some t \<Rightarrow> t) @ [CHR 0x0A]) 384 (final s h1) = (Raise e, h2)"
      "h = h1 @ h2" "r = (if e = OSError then Ok 1 else Raise e)"
  | (both_done) h1 h2 where "write_atomic (se_lookup_write env) lookup (document payload) 384 s = (Ok (), h1)"
      "write_atomic (se_etag_write env) (etag_path lookup) ((case etag of None \<Rightarrow> [] | Some t \<Rightarrow> t) @ [CHR 0x0A]) 384 (final s h1) = (Ok (), h2)"
      "h = h1 @ h2" "r = Ok 0"
proof -
  obtain r1 h1 where w1: "write_atomic (se_lookup_write env) lookup (document payload) 384 s = (r1, h1)" by fastforce
  obtain r2 h2 where w2: "write_atomic (se_etag_write env) (etag_path lookup)
      ((case etag of None \<Rightarrow> [] | Some t \<Rightarrow> t) @ [CHR 0x0A]) 384 (final s h1) = (r2, h2)" by fastforce
  show thesis
  proof (cases "se_dumps_limit env payload")
    case (Some l)
    with assms refused show thesis by (auto simp: store_def Let_def)
  next
    case None
    note st = assms [unfolded store_def None option.case Let_def]
    show thesis
    proof (cases r1)
      case (Inl e)
      with st w1 have "h = h1" "r = (if e = OSError then Ok 1 else Raise e)" by (auto split: if_splits)
      with w1 Inl first_fails show thesis by blast
    next
      case (Inr u)
      show thesis
      proof (cases r2)
        case (Inl e)
        with st w1 w2 \<open>r1 = Inr u\<close> have "h = h1 @ h2" "r = (if e = OSError then Ok 1 else Raise e)" by (auto split: if_splits)
        with w1 w2 Inl \<open>r1 = Inr u\<close> second_fails show thesis by simp
      next
        case (Inr u2)
        with st w1 w2 \<open>r1 = Inr u\<close> have "h = h1 @ h2" "r = Ok 0" by auto
        with w1 w2 Inr \<open>r1 = Inr u\<close> both_done show thesis by simp
      qed
    qed
  qed
qed

section \<open>What the live lookup can see\<close>

lemma store_lookup_states:
  assumes "store env lookup payload etag s = (r, lg, h)" and "t \<in> set h"
  shows "t lookup = s lookup \<or>
    t lookup = Some \<lparr>f_text = document payload, f_mtime = we_now (se_lookup_write env), f_mode = 384\<rparr>"
  using assms(1)
proof (cases rule: store_cases)
  case (refused l)
  with assms(2) show ?thesis by simp
next
  case (first_fails e)
  with write_atomic_cases [OF first_fails(1)] assms(2) show ?thesis by auto
next
  case (second_fails e h1 h2)
  then have "t lookup = final s h1 lookup" if "t \<in> set h2"
    using write_atomic_frame [OF second_fails(2) that] by simp
  then show ?thesis using write_atomic_cases [OF second_fails(1)] assms(2) second_fails(3) by auto
next
  case (both_done h1 h2)
  then have "t lookup = final s h1 lookup" if "t \<in> set h2"
    using write_atomic_frame [OF both_done(2) that] by simp
  then show ?thesis using write_atomic_cases [OF both_done(1)] assms(2) both_done(3) by auto
qed

text \<open>A run that writes anything has stored a validated document.\<close>

lemma sync_once_store:
  assumes "sync_once env cfg s = (r, lg, h)" and "h \<noteq> []"
  obtains sync etag doc tag v where "cf_lookup_sync cfg = Some sync"
    "read_etag (se_etag_read env) s (etag_path (lookup_file_path cfg)) = Ok etag"
    "se_get env (ls_url sync) (request_headers sync etag) = Get_Response 200 doc tag"
    "json_loads doc = Ok v" "validate_payload v = Ok v"
    "store env (lookup_file_path cfg) v tag s = (r, lg, h)"
proof -
  have same: "p = v" if "validate_payload v = Ok p" for v p
    using that by (auto simp: validate_payload_def split: json.splits if_splits)
  have loads: "json_loads doc = Ok v" if "loads_within lim doc = Ok v" for lim doc v
    using that by (simp add: loads_within_def split: option.splits)
  from assms show thesis
    by (auto simp: sync_once_def failed_def Let_def intro: that dest: same loads
        split: option.splits sum.splits get_outcome.splits if_splits exn.splits)
qed

text \<open>C17 - safety: the lookup file is never torn. In every file system that a run leaves or
  passes through, the lookup file is the one before the run or the complete document of a
  payload that a response with status 200 carried and that passed validation, with mode 0600.\<close>

theorem lookup_never_torn:
  assumes "sync_once env cfg s = (r, lg, h)" and "t \<in> set h"
  shows "t (lookup_file_path cfg) = s (lookup_file_path cfg) \<or>
    (\<exists>sync headers doc tag v. cf_lookup_sync cfg = Some sync \<and> se_get env (ls_url sync) headers = Get_Response 200 doc tag \<and>
       json_loads doc = Ok v \<and> validate_payload v = Ok v \<and>
       t (lookup_file_path cfg) = Some \<lparr>f_text = document v, f_mtime = we_now (se_lookup_write env), f_mode = 384\<rparr>)"
proof -
  have "h \<noteq> []" using assms(2) by auto
  with assms(1) obtain sync etag doc tag v where *: "cf_lookup_sync cfg = Some sync"
    "se_get env (ls_url sync) (request_headers sync etag) = Get_Response 200 doc tag"
    "json_loads doc = Ok v" "validate_payload v = Ok v"
    "store env (lookup_file_path cfg) v tag s = (r, lg, h)"
    by (elim sync_once_store)
  with store_lookup_states [OF *(5) assms(2)] show ?thesis by blast
qed

section \<open>Validation protects the live lookup\<close>

text \<open>The file's text as a codec of JSON values.\<close>

definition read_document :: "string \<Rightarrow> json option" where
  "read_document t = (case json_loads t of Inl _ \<Rightarrow> None | Inr v \<Rightarrow> Some v)"

interpretation json_file: text_codec document read_document json_ok
  by unfold_locales (simp add: document_def read_document_def loads_dumps)

definition hosts_of :: "json \<Rightarrow> string set" where
  "hosts_of v = (case v of JObj d \<Rightarrow> (case dict_get d ''hosts'' JNull of
     JList hs \<Rightarrow> {h. JStr h \<in> set hs} | _ \<Rightarrow> {}) | _ \<Rightarrow> {})"

definition sources_of :: "json \<Rightarrow> (string \<times> json) list" where
  "sources_of v = (case v of JObj d \<Rightarrow> (case dict_get d ''data_sources'' JNull of JObj e \<Rightarrow> e | _ \<Rightarrow> []) | _ \<Rightarrow> [])"

lemma valid_host_str: "valid_host h \<Longrightarrow> \<exists>s. h = JStr s"
  by (cases h) (simp_all add: valid_host_def)

lemma lower_hosts_valid:
  "list_all valid_host hs \<Longrightarrow> lower_hosts hs = Ok (py_lower ` {h. JStr h \<in> set hs})"
proof (induction hs)
  case (Cons h hs)
  then obtain s where "h = JStr s" using valid_host_str by auto
  moreover have "{u. u = s \<or> JStr u \<in> set hs} = insert s {u. JStr u \<in> set hs}" by auto
  ultimately show ?case using Cons by (simp add: json_lower_def)
qed simp

lemma check_fields_present:
  "check_fields key d fs = Ok () \<Longrightarrow> f \<in> set fs \<Longrightarrow> \<exists>s. map_of d f = Some (JStr s) \<and> strip s \<noteq> []"
proof (induction key d fs rule: check_fields.induct)
  case (2 key entry field rest)
  then show ?case
    by (auto simp: dict_get_def valid_host_def split: if_splits option.splits json.splits)
qed simp

lemma load_sources_valid:
  "check_entries es = Ok () \<Longrightarrow> \<exists>m'. load_sources m es = Ok m' \<and>
     (\<forall>k. m' k \<noteq> None \<longleftrightarrow> m k \<noteq> None \<or> k \<in> py_lower ` fst ` set es)"
proof (induction m es rule: load_sources.induct)
  case (2 m key entry es)
  from "2.prems" obtain d where d: "entry = JObj d" "check_fields key d [''api_url'', ''api_token''] = Ok ()"
    "check_entries es = Ok ()"
    by (auto split: json.splits)
  obtain u t where ut: "map_of d ''api_url'' = Some (JStr u)" "map_of d ''api_token'' = Some (JStr t)"
    using check_fields_present [OF d(2), of "''api_url''"] check_fields_present [OF d(2), of "''api_token''"] by auto
  then obtain c where c: "ds_entry key entry = Ok c"
    by (simp add: ds_entry_def d(1) subscript_def rstrip_slash_def)
  from "2.IH" [OF d(3), of c] obtain m' where
    "load_sources (m(py_lower key \<mapsto> c)) es = Ok m'"
    "\<forall>k. m' k \<noteq> None \<longleftrightarrow> (m(py_lower key \<mapsto> c)) k \<noteq> None \<or> k \<in> py_lower ` fst ` set es"
    by blast
  then show ?case by (intro exI [of _ m']) (auto simp: c)
qed simp

lemma validated_shape:
  assumes "validate_payload v = Ok v'"
  obtains d hosts sources where "v = JObj d" "v' = v" "map_of d ''hosts'' = Some (JList hosts)" "list_all valid_host hosts"
    "map_of d ''data_sources'' = Some (JObj sources)" "check_entries sources = Ok ()"
  using assms by (auto simp: validate_payload_def dict_get_def split: json.splits if_splits option.splits)

lemma validated_loads:
  assumes "json_loads doc = Ok v" and "validate_payload v = Ok v"
  shows "\<exists>data. parse_lookup (document v) = Ok (py_lower ` hosts_of v, data) \<and>
    (\<forall>k. data k \<noteq> None \<longleftrightarrow> k \<in> py_lower ` fst ` set (sources_of v))"
proof -
  from assms(2) obtain d hosts sources where d: "v = JObj d" "map_of d ''hosts'' = Some (JList hosts)" "list_all valid_host hosts"
    "map_of d ''data_sources'' = Some (JObj sources)" "check_entries sources = Ok ()"
    by (rule validated_shape)
  have reread: "json_loads (document v) = Ok v"
    using json_file.dec_enc [OF loads_ok [OF assms(1)]] by (simp add: read_document_def split: sum.splits)
  obtain data where "load_sources Map.empty sources = Ok data"
    "\<forall>k. data k \<noteq> None \<longleftrightarrow> k \<in> py_lower ` fst ` set sources"
    using load_sources_valid [OF d(5), of Map.empty] by auto
  then show ?thesis
    using reread d(2-4) lower_hosts_valid [OF d(3)]
    by (cases sources) (auto simp: d(1) parse_lookup_def get_default_def py_get_def dict_get_def py_iter_def hosts_of_def sources_of_def)
qed

text \<open>C18 - equivalence: a document that passes validation loads. The live lookup reads the
  file that the run writes for it without an error; the table then serves exactly the
  document's hosts and exactly its data sources, in lower case.\<close>

theorem validated_document_loads:
  assumes "json_loads doc = Ok v" and "validate_payload v = Ok v"
  shows "\<exists>data. parse_lookup (document v) = Ok (py_lower ` hosts_of v, data) \<and>
    (\<forall>k. data k \<noteq> None \<longleftrightarrow> k \<in> py_lower ` fst ` set (sources_of v))"
  using validated_loads [OF assms] .

section \<open>Trouble\<close>

lemma check_fields_raises: "check_fields key d fs = Raise e \<Longrightarrow> \<exists>m. e = ValidationFailure m"
  by (induction key d fs rule: check_fields.induct) (auto split: if_splits)

lemma check_entries_raises: "check_entries es = Raise e \<Longrightarrow> \<exists>m. e = ValidationFailure m"
proof (induction es rule: check_entries.induct)
  case (2 key entry es)
  show ?case
  proof (cases entry)
    case (JObj d)
    with 2 show ?thesis
      by (cases "check_fields key d [''api_url'', ''api_token'']")
        (auto dest: check_fields_raises simp del: check_fields.simps)
  qed (use 2 in auto)
qed simp

lemma validate_raises: "validate_payload v = Raise e \<Longrightarrow> \<exists>m. e = ValidationFailure m"
  unfolding validate_payload_def
  by (auto split: json.splits if_splits dest: check_entries_raises simp: bind_result_def split: sum.splits)

lemma json_loads_raises: "json_loads s = Raise e \<Longrightarrow> e = JSONDecodeError"
  by (auto simp: json_loads_def simp del: scan_value.simps split: option.splits if_splits)

text \<open>
  What a run makes of an answer: a payload that it can store, or nothing (\<open>Ok None\<close>), or an
  exception that is not caught: of the HTTP client or of the interpreter's limits.
\<close>

definition payload_of :: "sync_env \<Rightarrow> get_outcome \<Rightarrow> json option result" where
  "payload_of env a = (case a of
     Get_Response status body tag \<Rightarrow> if status \<noteq> 200 then Ok None else
       (case se_loads_limit env body of
          Some l \<Rightarrow> Raise (limit_exn l)
        | None \<Rightarrow> (case json_loads body of
            Inl _ \<Rightarrow> Ok None
          | Inr v \<Rightarrow> (case validate_payload v of
              Inl _ \<Rightarrow> Ok None
            | Inr _ \<Rightarrow> (case se_dumps_limit env v of Some l \<Rightarrow> Raise (limit_exn l) | None \<Rightarrow> Ok (Some v)))))
   | Get_Raises e \<Rightarrow> Raise e
   | _ \<Rightarrow> Ok None)"


text \<open>C21 - error: exit code 1. It stands for an \<open>OSError\<close> of one of the two writes; the lookup
  file is then the old one or the complete new one, and the ETag file is unchanged (so that the
  next run asks again). The temporary files are gone, unless the removal of one failed in its turn.\<close>

theorem write_failure_is_clean:
  assumes "sync_once env cfg s = (Ok 1, lg, h)"
    and "s (tmp_path (lookup_file_path cfg) (se_lookup_write env)) = None"
    and "s (tmp_path (etag_path (lookup_file_path cfg)) (se_etag_write env)) = None"
    and "tmp_path (etag_path (lookup_file_path cfg)) (se_etag_write env) \<noteq> tmp_path (lookup_file_path cfg) (se_lookup_write env)"
  shows "(final s h (lookup_file_path cfg) = s (lookup_file_path cfg) \<or>
      (\<exists>v. validate_payload v = Ok v \<and> final s h (lookup_file_path cfg) =
        Some \<lparr>f_text = document v, f_mtime = we_now (se_lookup_write env), f_mode = 384\<rparr>)) \<and>
    final s h (etag_path (lookup_file_path cfg)) = s (etag_path (lookup_file_path cfg)) \<and>
    (we_unlink (se_lookup_write env) = None \<longrightarrow> final s h (tmp_path (lookup_file_path cfg) (se_lookup_write env)) = None) \<and>
    (we_unlink (se_etag_write env) = None \<longrightarrow> final s h (tmp_path (etag_path (lookup_file_path cfg)) (se_etag_write env)) = None) \<and>
    (\<exists>c. we_fault (se_lookup_write env) = Some (c, OSError) \<or> we_fault (se_etag_write env) = Some (c, OSError))"
proof -
  let ?L = "lookup_file_path cfg" and ?w1 = "se_lookup_write env" and ?w2 = "se_etag_write env"
  have same: "p = v" if "validate_payload v = Ok p" for v p
    using that by (auto simp: validate_payload_def split: json.splits if_splits)
  have "\<exists>v tag. validate_payload v = Ok v \<and> store env ?L v tag s = (Ok 1, lg, h)"
    using assms(1) by (auto simp: sync_once_def failed_def Let_def dest: same
        split: option.splits sum.splits get_outcome.splits if_splits exn.splits)
  then obtain v tag where valid: "validate_payload v = Ok v" and st: "store env ?L v tag s = (Ok 1, lg, h)" by blast
  have "final s h ?L = s ?L \<or> final s h ?L = Some \<lparr>f_text = document v, f_mtime = we_now ?w1, f_mode = 384\<rparr>"
    using final_in [of s h] store_lookup_states [OF st] by auto
  with valid have lookup: "final s h ?L = s ?L \<or> (\<exists>v. validate_payload v = Ok v \<and>
      final s h ?L = Some \<lparr>f_text = document v, f_mtime = we_now ?w1, f_mode = 384\<rparr>)"
    by blast
  from st have "final s h (etag_path ?L) = s (etag_path ?L) \<and>
    (we_unlink ?w1 = None \<longrightarrow> final s h (tmp_path ?L ?w1) = None) \<and>
    (we_unlink ?w2 = None \<longrightarrow> final s h (tmp_path (etag_path ?L) ?w2) = None) \<and>
    (\<exists>c. we_fault ?w1 = Some (c, OSError) \<or> we_fault ?w2 = Some (c, OSError))"
  proof (cases rule: store_cases)
    case (first_fails e)
    then have e: "e = OSError" by (simp split: if_splits)
    from final_in [of s h] show ?thesis
      using write_atomic_raises [OF first_fails(1)] write_atomic_tidy [OF first_fails(1) assms(2)]
        write_atomic_frame [OF first_fails(1)] assms(3,4) e
      by auto
  next
    case (second_fails e h1 h2)
    then have e: "e = OSError" by (simp split: if_splits)
    let ?s1 = "final s h1"
    have tmp1: "?s1 (tmp_path ?L ?w1) = None" and tmp2: "?s1 (tmp_path (etag_path ?L) ?w2) = None"
      and tag: "?s1 (etag_path ?L) = s (etag_path ?L)"
      using write_atomic_tidy [OF second_fails(1) assms(2)] write_atomic_frame [OF second_fails(1)]
        final_in [of s h1] assms(3,4) by auto
    have "final s h = final ?s1 h2" by (simp add: second_fails(3) final_append)
    with final_in [of ?s1 h2] show ?thesis
      using write_atomic_raises [OF second_fails(2)] write_atomic_tidy [OF second_fails(2) tmp2]
        write_atomic_frame [OF second_fails(2), of _ "tmp_path ?L ?w1"] tmp1 tmp2 tag assms(4) [symmetric] e
      by auto
  qed simp_all
  with lookup show ?thesis by blast
qed

text \<open>The cleanup looks for \<open>OSError\<close> only: any other exception while the file is written (a
  text that the file's encoding cannot hold raises \<open>UnicodeEncodeError\<close>) leaves the temporary
  file behind.\<close>

lemma other_error_leaves_tmp:
  assumes "we_fault w = Some (Write, e)" and "e \<noteq> OSError"
  shows "\<exists>h f. write_atomic w target content mode s = (Raise e, h) \<and> final s h (tmp_path target w) = Some f"
  using assms by (simp add: write_atomic_def sync_defs Let_def)

section \<open>An honest server\<close>

text \<open>The API answers a conditional request for its current tag with 304, any other with the document.\<close>

definition honest :: "string \<Rightarrow> string \<Rightarrow> string \<Rightarrow> (string \<times> string) list \<Rightarrow> get_outcome" where
  "honest tag doc url headers = (if (''If-None-Match'', tag) \<in> set headers then Get_Response 304 [] (Some tag)
     else Get_Response 200 doc (Some tag))"

lemma honest_request:
  "honest tag doc url (request_headers sync etag) =
    (if etag = Some tag then Get_Response 304 [] (Some tag) else Get_Response 200 doc (Some tag))"
  by (auto simp: honest_def request_headers_def split: option.split)

lemma strip_line: "strip t = t \<Longrightarrow> strip (t @ [CHR 0x0A]) = t"
proof -
  assume t: "strip t = t"
  have "is_space (CHR 0x0A)" by code_simp
  moreover have "\<exists>x \<in> set t. \<not> is_space x" if "t \<noteq> []"
  proof (rule ccontr)
    assume "\<not> ?thesis"
    then have "dropWhile is_space t = []" by simp
    with t that show False by (simp add: strip_def strip_by_def rstrip_by_def)
  qed
  ultimately show ?thesis
    using t by (cases "t = []") (auto simp: strip_def strip_by_def rstrip_by_def dropWhile_append split: if_splits)
qed

definition calm_write :: "write_env \<Rightarrow> bool" where
  "calm_write w \<longleftrightarrow> we_fault w = None"

lemma calm_write_atomic:
  assumes "calm_write w"
  obtains h where "write_atomic w target content mode s = (Ok (), h)"
    "final s h = s(tmp_path target w := None, target \<mapsto> \<lparr>f_text = content, f_mtime = we_now w, f_mode = mode\<rparr>)"
  using assms by (simp add: write_atomic_def calm_write_def sync_defs Let_def)

text \<open>C19 - liveness: a run that can write brings the local files up to date and then rests. With
  an honest API, an undisturbed run that does not have the current tag stores the current
  document (if it is within the interpreter's limits) and tag with exit code 0; the next run is
  answered 304 and writes nothing.\<close>

theorem sync_converges:
  assumes "cf_lookup_sync cfg = Some sync" and "se_get env = honest tag doc" and "se_etag_read env = None"
    and "calm_write (se_lookup_write env)" and "calm_write (se_etag_write env)"
    and "json_loads doc = Ok v" and "validate_payload v = Ok v" and "strip tag = tag" and "tag \<noteq> []"
    and "read_etag None s (etag_path (lookup_file_path cfg)) \<noteq> Ok (Some tag)"
    and "se_loads_limit env doc = None" and "se_dumps_limit env v = None"
  shows "\<exists>lg h. sync_once env cfg s = (Ok 0, lg, h) \<and>
    visible (final s h) (lookup_file_path cfg) = Some \<lparr>f_text = document v, f_mtime = we_now (se_lookup_write env)\<rparr> \<and>
    read_etag None (final s h) (etag_path (lookup_file_path cfg)) = Ok (Some tag) \<and>
    sync_once env cfg (final s h) = (Ok 0, [(''lookup_sync_unchanged'', '''')], [])"
proof -
  let ?L = "lookup_file_path cfg"
  obtain etag where etag: "read_etag None s (etag_path ?L) = Ok etag"
    by (cases "s (etag_path ?L)") (auto simp: read_etag_def)
  obtain h1 where h1: "write_atomic (se_lookup_write env) ?L (document v) 384 s = (Ok (), h1)"
    "final s h1 = s(tmp_path ?L (se_lookup_write env) := None,
       ?L \<mapsto> \<lparr>f_text = document v, f_mtime = we_now (se_lookup_write env), f_mode = 384\<rparr>)"
    by (rule calm_write_atomic [OF assms(4)])
  obtain h2 where h2: "write_atomic (se_etag_write env) (etag_path ?L) (tag @ [CHR 0x0A]) 384 (final s h1) = (Ok (), h2)"
    "final (final s h1) h2 = (final s h1)(tmp_path (etag_path ?L) (se_etag_write env) := None,
       etag_path ?L \<mapsto> \<lparr>f_text = tag @ [CHR 0x0A], f_mtime = we_now (se_etag_write env), f_mode = 384\<rparr>)"
    by (rule calm_write_atomic [OF assms(5)])
  obtain lg where st: "store env ?L v (Some tag) s = (Ok 0, lg, h1 @ h2)"
    using h1(1) h2(1) assms(12) by (simp add: store_def Let_def)
  have run: "sync_once env cfg s = (Ok 0, lg, h1 @ h2)"
    using assms(1-3,6,7,10,11) etag st by (simp add: sync_once_def Let_def honest_request loads_within_def)
  have tag_file: "read_etag None (final s (h1 @ h2)) (etag_path ?L) = Ok (Some tag)"
    using h2(2) strip_line [OF assms(8)] assms(9) by (simp add: read_etag_def final_append)
  moreover have "visible (final s (h1 @ h2)) ?L = Some \<lparr>f_text = document v, f_mtime = we_now (se_lookup_write env)\<rparr>"
    using h1(2) h2(2) by (simp add: visible_def final_append)
  moreover have "sync_once env cfg (final s (h1 @ h2)) = (Ok 0, [(''lookup_sync_unchanged'', '''')], [])"
    using assms(1-3) tag_file by (simp add: sync_once_def Let_def honest_request)
  ultimately show ?thesis using run by blast
qed

text \<open>safety: a lookup file that is gone stays gone. The run asks conditionally whenever the
  ETag file is there, whether or not the lookup file is; an honest API then answers 304 for
  the current tag, no run restores the document, and a lookup started now serves nobody.\<close>

theorem not_modified_restores_nothing:
  assumes "cf_lookup_sync cfg = Some sync" and "se_get env = honest tag doc" and "se_etag_read env = None"
    and "read_etag None s (etag_path (lookup_file_path cfg)) = Ok (Some tag)" and "s (lookup_file_path cfg) = None"
  shows "sync_once env cfg s = (Ok 0, [(''lookup_sync_unchanged'', '''')], []) \<and>
    LookupTable_init True (visible s (lookup_file_path cfg)) (visible s (lookup_file_path cfg)) = Ok empty_table"
  using assms by (simp add: sync_once_def Let_def honest_request visible_def LookupTable_init_def load_table_def empty_table_def)

text \<open>C20 - functional: an update reaches the running daemons. After a run that stored a document,
  a lookup table that follows its file, and has not seen that mtime, serves the document's
  hosts, and resolves exactly its data sources.\<close>

theorem update_reaches_lookup:
  assumes "sync_once env cfg s = (Ok 0, lg, h)" and "h \<noteq> []"
    and "lt_auto_reload t" and "lt_mtime t \<noteq> Some (we_now (se_lookup_write env))"
  shows "\<exists>sync headers doc tag v t' ds. cf_lookup_sync cfg = Some sync \<and>
    se_get env (ls_url sync) headers = Get_Response 200 doc tag \<and> json_loads doc = Ok v \<and>
    allowed_domains (quiet (visible (final s h) (lookup_file_path cfg))) t = Ok (py_lower ` hosts_of v, t') \<and>
    resolve (quiet (visible (final s h) (lookup_file_path cfg))) k t = Ok (ds, t') \<and>
    (ds \<noteq> None \<longleftrightarrow> py_lower k \<in> py_lower ` fst ` set (sources_of v))"
proof -
  let ?L = "lookup_file_path cfg"
  obtain sync etag doc tag v where run: "cf_lookup_sync cfg = Some sync"
    "se_get env (ls_url sync) (request_headers sync etag) = Get_Response 200 doc tag"
    "json_loads doc = Ok v" "validate_payload v = Ok v" "store env ?L v tag s = (Ok 0, lg, h)"
    using assms(1,2) by (elim sync_once_store)
  from run(5) have now: "final s h ?L = Some \<lparr>f_text = document v, f_mtime = we_now (se_lookup_write env), f_mode = 384\<rparr>"
  proof (cases rule: store_cases)
    case (both_done h1 h2)
    have "final s h1 ?L = Some \<lparr>f_text = document v, f_mtime = we_now (se_lookup_write env), f_mode = 384\<rparr>"
      using write_atomic_cases [OF both_done(1)] by auto
    then show ?thesis
      using final_in [of "final s h1" h2] write_atomic_frame [OF both_done(2), of _ ?L] both_done(3)
      by (auto simp: final_append)
  qed (auto split: if_splits)
  obtain data where data: "parse_lookup (document v) = Ok (py_lower ` hosts_of v, data)"
    "\<forall>k. data k \<noteq> None \<longleftrightarrow> k \<in> py_lower ` fst ` set (sources_of v)"
    using validated_loads [OF run(3,4)] by blast
  define t' where "t' = t\<lparr>lt_hosts := py_lower ` hosts_of v, lt_data := data, lt_mtime := Some (we_now (se_lookup_write env))\<rparr>"
  have seen: "allowed_domains (quiet (visible (final s h) ?L)) t = Ok (py_lower ` hosts_of v, t')"
    "resolve (quiet (visible (final s h) ?L)) k t = Ok (data (py_lower k), t')"
    using data(1) assms(3,4)
    by (simp_all add: allowed_domains_def resolve_def refresh_def maybe_reload_def quiet_def visible_def now
        load_table_def find_ds_def t'_def)
  show ?thesis
    by (intro exI conjI) (rule run(1), rule run(2), rule run(3), rule seen(1), rule seen(2), rule data(2) [rule_format])
qed

section \<open>A run on a concrete file system\<close>

definition toy_payload :: json where
  "toy_payload = JObj [(''hosts'', JList [JStr ''Shipard.Email'']),
     (''data_sources'', JObj [(''Firma-xyz'', JObj [(''api_url'', JStr ''https://h/''), (''api_token'', JStr ''t'')])])]"

definition toy_sync_config :: config where
  "toy_sync_config = \<lparr>policy_socket = ''p'', lmtp_socket = ''l'', queue_db = ''q'', lookup_file_path = ''j'',
     lookup_reload = True, cf_worker = default_worker_config, cf_alerts = default_alerts_config,
     cf_lookup_sync = Some \<lparr>ls_url = ''u'', ls_api_key = ''k'', ls_timeout = Dec 10 0\<rparr>, log_level = ''INFO''\<rparr>"

definition toy_write :: "(io_call \<times> exn) option \<Rightarrow> write_env" where
  "toy_write fault = \<lparr>we_random = ''r'', we_now = 5, we_fault = fault, we_unlink = None, we_written = 3\<rparr>"

definition toy_sync_env :: "(io_call \<times> exn) option \<Rightarrow> sync_env" where
  "toy_sync_env fault = \<lparr>se_get = honest ''7'' sample_text, se_etag_read = None,
     se_loads_limit = (\<lambda>_. None), se_dumps_limit = (\<lambda>_. None),
     se_lookup_write = toy_write None, se_etag_write = toy_write fault\<rparr>"

lemma toy_payload_text: "json_loads sample_text = Ok toy_payload"
  unfolding sample_text_def toy_payload_def by code_simp

lemma toy_payload_valid: "validate_payload toy_payload = Ok toy_payload"
  unfolding toy_payload_def by code_simp

lemma toy_sync_simps [simp]:
  "cf_lookup_sync toy_sync_config = Some \<lparr>ls_url = ''u'', ls_api_key = ''k'', ls_timeout = Dec 10 0\<rparr>"
  "lookup_file_path toy_sync_config = ''j''" "se_get (toy_sync_env f) = honest ''7'' sample_text"
  "se_etag_read (toy_sync_env f) = None" "se_loads_limit (toy_sync_env f) doc = None" "se_dumps_limit (toy_sync_env f) v = None"
  "we_unlink (toy_write f) = None" "se_lookup_write (toy_sync_env f) = toy_write None"
  "se_etag_write (toy_sync_env f) = toy_write f" "we_now (toy_write f) = 5" "we_fault (toy_write f) = f"
  "we_random (toy_write f) = ''r''"
  by (simp_all add: toy_sync_config_def toy_sync_env_def toy_write_def)

lemma toy_sync_run:
  "sync_once (toy_sync_env f) toy_sync_config Map.empty = store (toy_sync_env f) ''j'' toy_payload (Some ''7'') Map.empty"
  by (simp add: sync_once_def read_etag_def Let_def honest_request toy_payload_text toy_payload_valid loads_within_def)

theorem validated_document_loads_witness:
  "\<exists>data. parse_lookup (document toy_payload) = Ok (py_lower ` hosts_of toy_payload, data) \<and> data ''firma-xyz'' \<noteq> None"
proof -
  have "''firma-xyz'' \<in> py_lower ` fst ` set (sources_of toy_payload)"
    unfolding toy_payload_def by code_simp
  with validated_document_loads [OF toy_payload_text toy_payload_valid] show ?thesis by blast
qed

theorem sync_converges_witness:
  "\<exists>lg h. sync_once (toy_sync_env None) toy_sync_config Map.empty = (Ok 0, lg, h) \<and>
    visible (final Map.empty h) ''j'' = Some \<lparr>f_text = document toy_payload, f_mtime = 5\<rparr> \<and>
    sync_once (toy_sync_env None) toy_sync_config (final Map.empty h) = (Ok 0, [(''lookup_sync_unchanged'', '''')], [])"
proof -
  have "strip ''7'' = ''7''" by code_simp
  then have "\<exists>lg h. sync_once (toy_sync_env None) toy_sync_config Map.empty = (Ok 0, lg, h) \<and>
    visible (final Map.empty h) (lookup_file_path toy_sync_config) =
      Some \<lparr>f_text = document toy_payload, f_mtime = we_now (se_lookup_write (toy_sync_env None))\<rparr> \<and>
    read_etag None (final Map.empty h) (etag_path (lookup_file_path toy_sync_config)) = Ok (Some ''7'') \<and>
    sync_once (toy_sync_env None) toy_sync_config (final Map.empty h) = (Ok 0, [(''lookup_sync_unchanged'', '''')], [])"
    by (intro sync_converges [where doc = sample_text])
      (simp_all add: calm_write_def toy_payload_text toy_payload_valid read_etag_def)
  then show ?thesis by auto
qed

theorem not_modified_restores_nothing_witness:
  "sync_once (toy_sync_env None) toy_sync_config [''j.etag'' \<mapsto> \<lparr>f_text = ''7'', f_mtime = 1, f_mode = 384\<rparr>] =
     (Ok 0, [(''lookup_sync_unchanged'', '''')], [])"
proof -
  have "strip ''7'' = ''7''" by code_simp
  then show ?thesis
    using not_modified_restores_nothing [of toy_sync_config _ "toy_sync_env None" "''7''" sample_text
        "[''j.etag'' \<mapsto> \<lparr>f_text = ''7'', f_mtime = 1, f_mode = 384\<rparr>]"]
    by (simp add: read_etag_def etag_path_def)
qed

theorem lookup_never_torn_witness:
  "\<exists>r lg h t. sync_once (toy_sync_env None) toy_sync_config Map.empty = (r, lg, h) \<and> t \<in> set h \<and>
     (t ''j'' = None \<or> (\<exists>v. json_loads sample_text = Ok v \<and> t ''j'' = Some \<lparr>f_text = document v, f_mtime = 5, f_mode = 384\<rparr>))"
proof -
  obtain r lg h where run: "sync_once (toy_sync_env None) toy_sync_config Map.empty = (r, lg, h)" "h \<noteq> []"
    unfolding toy_sync_run
    by (simp add: store_def write_atomic_def fails_def give_up_def final_def Let_def etag_path_def tmp_path_def)
  then have "hd h \<in> set h" by simp
  with lookup_never_torn [OF run(1) this] have "hd h ''j'' = None \<or> (\<exists>v. json_loads sample_text = Ok v \<and>
      hd h ''j'' = Some \<lparr>f_text = document v, f_mtime = 5, f_mode = 384\<rparr>)"
    by (auto simp: honest_def split: if_splits)
  with run(1) \<open>hd h \<in> set h\<close> show ?thesis by blast
qed


theorem write_failure_is_clean_witness:
  "\<exists>lg h. sync_once (toy_sync_env (Some (Chmod, OSError))) toy_sync_config Map.empty = (Ok 1, lg, h) \<and>
     final Map.empty h ''j.etag'' = None \<and> final Map.empty h ''j'' \<noteq> None"
proof -
  have "\<exists>lg h. sync_once (toy_sync_env (Some (Chmod, OSError))) toy_sync_config Map.empty = (Ok 1, lg, h) \<and>
      final Map.empty h ''j'' \<noteq> None"
    unfolding toy_sync_run
    by (simp add: store_def write_atomic_def fails_def give_up_def final_def Let_def etag_path_def tmp_path_def)
  then obtain lg h where run: "sync_once (toy_sync_env (Some (Chmod, OSError))) toy_sync_config Map.empty = (Ok 1, lg, h)"
    "final Map.empty h ''j'' \<noteq> None" by blast
  from write_failure_is_clean [OF run(1)] run show ?thesis by (auto simp: etag_path_def tmp_path_def)
qed

theorem update_reaches_lookup_witness:
  "\<exists>h t' ds. allowed_domains (quiet (visible (final Map.empty h) ''j'')) empty_table = Ok (py_lower ` hosts_of toy_payload, t') \<and>
     resolve (quiet (visible (final Map.empty h) ''j'')) ''FIRMA-XYZ'' empty_table = Ok (Some ds, t')"
proof -
  obtain lg h where run: "sync_once (toy_sync_env None) toy_sync_config Map.empty = (Ok 0, lg, h)" "h \<noteq> []"
    unfolding toy_sync_run
    by (simp add: store_def write_atomic_def fails_def give_up_def final_def Let_def etag_path_def tmp_path_def)
  have key: "py_lower ''FIRMA-XYZ'' \<in> py_lower ` fst ` set (sources_of toy_payload)"
    unfolding toy_payload_def by code_simp
  have t: "lt_auto_reload empty_table" "lt_mtime empty_table \<noteq> Some (we_now (se_lookup_write (toy_sync_env None)))"
    by (simp_all add: empty_table_def)
  from update_reaches_lookup [OF run t, of "''FIRMA-XYZ''"] obtain sync :: lookup_sync_config and headers doc tag v t' ds where
    "se_get (toy_sync_env None) (ls_url sync) headers = Get_Response 200 doc tag" "json_loads doc = Ok v"
    "allowed_domains (quiet (visible (final Map.empty h) ''j'')) empty_table = Ok (py_lower ` hosts_of v, t')"
    "resolve (quiet (visible (final Map.empty h) ''j'')) ''FIRMA-XYZ'' empty_table = Ok (ds, t')"
    "ds \<noteq> None \<longleftrightarrow> py_lower ''FIRMA-XYZ'' \<in> py_lower ` fst ` set (sources_of v)"
    unfolding toy_sync_simps(2) by (elim exE conjE) (rule that)
  moreover from this(1) have "doc = sample_text" by (auto simp: honest_def split: if_splits)
  ultimately show ?thesis using key by (auto simp: toy_payload_text)
qed

end
