(* ===== verification/Server.thy ===== *)
theory Server
  imports Prelude
begin

text \<open>
  The life cycles of \<open>PolicyServer\<close> (\<open>mail_router/policy.py\<close>) and \<open>LMTPReceiver\<close>
  (\<open>mail_router/receiver.py\<close>), and the contract that both meet: \<open>start\<close> binds a Unix socket, \<open>stop\<close> removes it. A path is
  the list of its components, the empty list the directory that resolution starts from; the file system maps paths to nodes. Every operation returns
  the file systems that can be observed one after the other. The listener of a socket is
  the process that bound it.
\<close>

section \<open>Nodes and paths\<close>

datatype node = Directory | Plain_File | Socket int nat

type_synonym path = "string list"
type_synonym nodes = "path \<Rightarrow> node option"

text \<open>The proper prefixes of a path: its directories, the root first.\<close>

definition dirs_of :: "path \<Rightarrow> path list" where
  "dirs_of p = map (\<lambda>n. take n p) [0..<length p]"

text \<open>\<open>parent.mkdir(parents=True, exist_ok=True)\<close>: raises when a directory's place is taken.\<close>

definition mkdirs :: "path \<Rightarrow> nodes \<Rightarrow> nodes result" where
  "mkdirs p s = (if \<exists>q \<in> set (dirs_of p). s q \<noteq> None \<and> s q \<noteq> Some Directory then Raise OSError
     else Ok (\<lambda>q. if q \<in> set (dirs_of p) then Some Directory else s q))"

text \<open>\<open>unlink\<close> with \<open>FileNotFoundError\<close> suppressed; a directory cannot be unlinked.\<close>

definition unlink_quiet :: "path \<Rightarrow> nodes \<Rightarrow> nodes result" where
  "unlink_quiet p s = (if s p = Some Directory then Raise OSError else Ok (s(p := None)))"

section \<open>The policy server\<close>

record server =
  sv_socket_path :: path
  sv_socket_mode :: int
  sv_server :: "nat option"

definition server_init :: "path \<Rightarrow> server" where
  "server_init p = \<lparr>sv_socket_path = p, sv_socket_mode = 432, sv_server = None\<rparr>"

text \<open>
  \<open>start\<close> of process \<open>pid\<close>: the socket first has the mode that the process' umask leaves,
  then the configured one. Binding fails when the place is taken again in between, which the
  argument \<open>taken\<close> decides.
\<close>

definition start_server :: "nat \<Rightarrow> int \<Rightarrow> bool \<Rightarrow> server \<Rightarrow> nodes \<Rightarrow> server result \<times> nodes list" where
  "start_server pid umask_mode taken sv s =
    (let p = sv_socket_path sv in
     case mkdirs p s of
       Inl e \<Rightarrow> (Raise e, [])
     | Inr s1 \<Rightarrow> (case unlink_quiet p s1 of
         Inl e \<Rightarrow> (Raise e, [s1])
       | Inr s2 \<Rightarrow>
           if taken then (Raise OSError, [s1, s2])
           else (Ok (sv\<lparr>sv_server := Some pid\<rparr>),
             [s1, s2, s2(p \<mapsto> Socket umask_mode pid), s2(p \<mapsto> Socket (sv_socket_mode sv) pid)])))"

text \<open>\<open>serve_forever\<close> asserts that the server was started.\<close>

definition serve_forever :: "server \<Rightarrow> nat result" where
  "serve_forever sv = (case sv_server sv of None \<Rightarrow> Raise (OtherError ''AssertionError'') | Some pid \<Rightarrow> Ok pid)"

definition stop_server :: "server \<Rightarrow> nodes \<Rightarrow> unit result \<times> nodes" where
  "stop_server sv s = (case sv_server sv of
     None \<Rightarrow> (Ok (), s)
   | Some pid \<Rightarrow> (case unlink_quiet (sv_socket_path sv) s of Inl e \<Rightarrow> (Raise e, s) | Inr s' \<Rightarrow> (Ok (), s')))"

section \<open>The LMTP server\<close>

record lmtp_server =
  lm_socket_path :: path
  lm_socket_mode :: int
  lm_server :: "nat option"

definition lmtp_init :: "path \<Rightarrow> lmtp_server" where
  "lmtp_init p = \<lparr>lm_socket_path = p, lm_socket_mode = 432, lm_server = None\<rparr>"

definition lmtp_start :: "nat \<Rightarrow> int \<Rightarrow> bool \<Rightarrow> lmtp_server \<Rightarrow> nodes \<Rightarrow> lmtp_server result \<times> nodes list" where
  "lmtp_start pid umask_mode taken lm s =
    (let p = lm_socket_path lm in
     case mkdirs p s of
       Inl e \<Rightarrow> (Raise e, [])
     | Inr s1 \<Rightarrow> (case unlink_quiet p s1 of
         Inl e \<Rightarrow> (Raise e, [s1])
       | Inr s2 \<Rightarrow>
           if taken then (Raise OSError, [s1, s2])
           else (Ok (lm\<lparr>lm_server := Some pid\<rparr>),
             [s1, s2, s2(p \<mapsto> Socket umask_mode pid), s2(p \<mapsto> Socket (lm_socket_mode lm) pid)])))"

definition lmtp_serve :: "lmtp_server \<Rightarrow> nat result" where
  "lmtp_serve lm = (case lm_server lm of None \<Rightarrow> Raise (OtherError ''AssertionError'') | Some pid \<Rightarrow> Ok pid)"

definition lmtp_stop :: "lmtp_server \<Rightarrow> nodes \<Rightarrow> unit result \<times> nodes" where
  "lmtp_stop lm s = (case lm_server lm of
     None \<Rightarrow> (Ok (), s)
   | Some pid \<Rightarrow> (case unlink_quiet (lm_socket_path lm) s of Inl e \<Rightarrow> (Raise e, s) | Inr s' \<Rightarrow> (Ok (), s')))"

section \<open>The owner of the socket\<close>

text \<open>
  \<open>_mask_owning_group\<close>: owner, group and mode of a path. The group database is an argument;
  \<open>chown_ok\<close> and \<open>chmod_ok\<close> say whether the system permits the calls.
\<close>

record meta =
  mt_uid :: int
  mt_gid :: int
  mt_mode :: int

definition mask_owning_group :: "(string \<Rightarrow> int option) \<Rightarrow> bool \<Rightarrow> bool \<Rightarrow> path \<Rightarrow> string option \<Rightarrow> (path \<Rightarrow> meta option) \<Rightarrow>
    unit result \<times> (path \<Rightarrow> meta option)" where
  "mask_owning_group getgrnam chown_ok chmod_ok p grp s =
    (case grp of
       None \<Rightarrow> (Ok (), s)
     | Some g \<Rightarrow>
       if g = [] then (Ok (), s)
       else (case getgrnam g of
         None \<Rightarrow> (Ok (), s)
       | Some gid \<Rightarrow> (case s p of
           None \<Rightarrow> (Raise OSError, s)
         | Some st \<Rightarrow>
             if \<not> chown_ok then (Raise OSError, s)
             else (let owned = st\<lparr>mt_uid := mt_uid st, mt_gid := gid\<rparr> in
               if \<not> chmod_ok then (Raise OSError, s(p \<mapsto> owned))
               else (Ok (), s(p \<mapsto> owned\<lparr>mt_mode := 256 + 128 + 32 + 16\<rparr>))))))"

section \<open>The contract of a socket service\<close>

text \<open>What a client that connects to a path reaches.\<close>

definition reaches :: "nodes \<Rightarrow> path \<Rightarrow> nat option" where
  "reaches s p = (case s p of Some (Socket _ pid) \<Rightarrow> Some pid | _ \<Rightarrow> None)"

text \<open>A path where a socket can be bound: the directories are there or can be made, and the
  place itself holds no directory (a socket that a crash left behind is fine).\<close>

definition bindable :: "path \<Rightarrow> nodes \<Rightarrow> bool" where
  "bindable p s \<longleftrightarrow> list_all (\<lambda>q. s q = None \<or> s q = Some Directory) (dirs_of p) \<and> s p \<noteq> Some Directory"

text \<open>The file system with the directories of a path and a node at its place.\<close>

definition with_node :: "path \<Rightarrow> node option \<Rightarrow> nodes \<Rightarrow> nodes" where
  "with_node p n s = (\<lambda>q. if q = p then n else if q \<in> set (dirs_of p) then Some Directory else s q)"

lemma not_own_dir: "p \<notin> set (dirs_of p)"
proof
  assume "p \<in> set (dirs_of p)"
  then obtain n where "n < length p" "p = take n p" by (auto simp: dirs_of_def)
  then show False by (metis length_take less_not_refl min_less_iff_conj)
qed

lemma with_node_again [simp]:
  "with_node p n (with_node p m s) = with_node p n s" "(with_node p n s)(p := m) = with_node p m s"
  "with_node p n s p = n" "reaches (with_node p n s) p = (case n of Some (Socket _ pid) \<Rightarrow> Some pid | _ \<Rightarrow> None)"
  by (auto simp: with_node_def reaches_def fun_eq_iff)

lemma bindable_with_node: "n \<noteq> Some Directory \<Longrightarrow> bindable p (with_node p n s)"
  by (auto simp: bindable_def with_node_def list_all_iff not_own_dir)

lemma bindable_place: "bindable p s \<Longrightarrow> s p \<noteq> Some Directory"
  by (simp add: bindable_def)

lemma bind_steps:
  assumes "bindable p s"
  shows "mkdirs p s = Ok (with_node p (s p) s)" "unlink_quiet p (with_node p (s p) s) = Ok (with_node p None s)"
  using assms not_own_dir [of p]
  by (auto simp: bindable_def list_all_iff mkdirs_def unlink_quiet_def with_node_def fun_eq_iff)

locale socket_service =
  fixes place :: "'v \<Rightarrow> path"
    and mode :: "'v \<Rightarrow> int"
    and start :: "nat \<Rightarrow> int \<Rightarrow> bool \<Rightarrow> 'v \<Rightarrow> nodes \<Rightarrow> 'v result \<times> nodes list"
    and serve :: "'v \<Rightarrow> nat result"
    and stop :: "'v \<Rightarrow> nodes \<Rightarrow> unit result \<times> nodes"
  assumes start_ok: "bindable (place v) s \<Longrightarrow>
      \<exists>v' h. start pid um False v s = (Ok v', h) \<and> place v' = place v \<and> serve v' = Ok pid \<and>
        last (s # h) = with_node (place v) (Some (Socket (mode v) pid)) s"
    and stop_ok: "serve v = Ok pid \<Longrightarrow> s (place v) \<noteq> Some Directory \<Longrightarrow>
      stop v s = (Ok (), s(place v := None))"
begin

text \<open>A process from its start to its stop, with nobody else at its place.\<close>

lemma life:
  assumes "bindable (place v) s"
  shows "\<exists>v' h. start pid um False v s = (Ok v', h) \<and> serve v' = Ok pid \<and>
    last (s # h) = with_node (place v) (Some (Socket (mode v) pid)) s \<and>
    stop v' (last (s # h)) = (Ok (), with_node (place v) None s)"
proof -
  obtain v' h where v: "start pid um False v s = (Ok v', h)" "place v' = place v" "serve v' = Ok pid"
    "last (s # h) = with_node (place v) (Some (Socket (mode v) pid)) s"
    using start_ok [OF assms] by metis
  moreover have "stop v' (last (s # h)) = (Ok (), with_node (place v) None s)"
    using stop_ok [OF v(3), of "last (s # h)"] by (simp only: v(2,4)) simp
  ultimately show ?thesis by blast
qed

text \<open>A second process takes the socket over from a first one that never stopped.\<close>

lemma takes_over:
  assumes "bindable (place v) s" and "place w = place v"
  shows "\<exists>v' h w' h'. start pid um False v s = (Ok v', h) \<and> start pid' um' False w (last (s # h)) = (Ok w', h') \<and>
    reaches (last (s # h)) (place v) = Some pid \<and> reaches (last (last (s # h) # h')) (place v) = Some pid' \<and>
    stop w' (last (last (s # h) # h')) = (Ok (), with_node (place v) None s)"
proof -
  obtain v' h where v: "start pid um False v s = (Ok v', h)"
    "last (s # h) = with_node (place v) (Some (Socket (mode v) pid)) s"
    using life [OF assms(1)] by metis
  define t where "t = last (s # h)"
  have t: "t = with_node (place v) (Some (Socket (mode v) pid)) s" by (simp only: t_def v(2))
  have "bindable (place w) t" by (simp add: t assms(2) bindable_with_node)
  from life [OF this] obtain w' h' where w: "start pid' um' False w t = (Ok w', h')"
    "last (t # h') = with_node (place w) (Some (Socket (mode w) pid')) t"
    "stop w' (last (t # h')) = (Ok (), with_node (place w) None t)"
    by blast
  have "reaches t (place v) = Some pid" by (simp add: t)
  moreover have "reaches (last (t # h')) (place v) = Some pid'" unfolding w(2) by (simp add: t assms(2))
  moreover have "with_node (place w) None t = with_node (place v) None s" by (simp add: t assms(2))
  ultimately show ?thesis using v(1) w(1,3) unfolding t_def by metis
qed

text \<open>The removal goes by the path alone: a late stop takes the next process' socket away.\<close>

lemma late_stop:
  assumes "bindable (place v) s" and "place w = place v"
  shows "\<exists>v' h w' h'. start pid um False v s = (Ok v', h) \<and> start pid' um' False w (last (s # h)) = (Ok w', h') \<and>
    serve w' = Ok pid' \<and> fst (stop v' (last (last (s # h) # h'))) = Ok () \<and>
    reaches (snd (stop v' (last (last (s # h) # h')))) (place v) = None"
proof -
  obtain v' h where v: "start pid um False v s = (Ok v', h)" "place v' = place v" "serve v' = Ok pid"
    "last (s # h) = with_node (place v) (Some (Socket (mode v) pid)) s"
    using start_ok [OF assms(1)] by metis
  define t where "t = last (s # h)"
  have t: "t = with_node (place v) (Some (Socket (mode v) pid)) s" by (simp only: t_def v(4))
  have "bindable (place w) t" by (simp add: t assms(2) bindable_with_node)
  from start_ok [OF this] obtain w' h' where w: "start pid' um' False w t = (Ok w', h')" "serve w' = Ok pid'"
    "last (t # h') = with_node (place w) (Some (Socket (mode w) pid')) t"
    by blast
  define u where "u = last (t # h')"
  have u: "u = with_node (place v) (Some (Socket (mode w) pid')) s" unfolding u_def w(3) by (simp add: t assms(2))
  have "stop v' u = (Ok (), with_node (place v) None s)" using stop_ok [OF v(3), of u] by (simp add: u v(2))
  then have "fst (stop v' u) = Ok ()" "reaches (snd (stop v' u)) (place v) = None"
    by simp_all
  with v(1) w(1,2) show ?thesis unfolding u_def t_def by blast
qed

end

lemma start_server_ok: "bindable (sv_socket_path sv) s \<Longrightarrow>
  start_server pid um False sv s = (Ok (sv\<lparr>sv_server := Some pid\<rparr>),
    map (\<lambda>n. with_node (sv_socket_path sv) n s)
      [s (sv_socket_path sv), None, Some (Socket um pid), Some (Socket (sv_socket_mode sv) pid)])"
  by (simp add: start_server_def bind_steps Let_def)

lemma lmtp_start_ok: "bindable (lm_socket_path lm) s \<Longrightarrow>
  lmtp_start pid um False lm s = (Ok (lm\<lparr>lm_server := Some pid\<rparr>),
    map (\<lambda>n. with_node (lm_socket_path lm) n s)
      [s (lm_socket_path lm), None, Some (Socket um pid), Some (Socket (lm_socket_mode lm) pid)])"
  by (simp add: lmtp_start_def bind_steps Let_def)

interpretation policy_service: socket_service sv_socket_path sv_socket_mode start_server serve_forever stop_server
  by unfold_locales (simp_all add: start_server_ok serve_forever_def stop_server_def unlink_quiet_def split: option.splits)

interpretation lmtp_service: socket_service lm_socket_path lm_socket_mode lmtp_start lmtp_serve lmtp_stop
  by unfold_locales (simp_all add: lmtp_start_ok lmtp_serve_def lmtp_stop_def unlink_quiet_def split: option.splits)

section \<open>Restarts\<close>

text \<open>functional: a restart takes the socket over. Where the directories exist or can be
  created and the socket's place holds anything but a directory (a socket that a crash left
  behind included), a start ends with a socket of the configured mode at the path that
  reaches the new process, and touches nothing but that path and its missing directories;
  stopping that server removes the socket again. This holds of the policy server and of the
  LMTP server.\<close>

theorem restart_takes_over:
  assumes "bindable p s"
  shows "\<exists>sv h lm h'. start_server pid um False (server_init p) s = (Ok sv, h) \<and>
    lmtp_start pid um False (lmtp_init p) s = (Ok lm, h') \<and>
    serve_forever sv = Ok pid \<and> lmtp_serve lm = Ok pid \<and>
    last (s # h) = with_node p (Some (Socket 432 pid)) s \<and> last (s # h') = last (s # h) \<and>
    stop_server sv (last (s # h)) = (Ok (), with_node p None s) \<and>
    lmtp_stop lm (last (s # h')) = (Ok (), with_node p None s)"
  using policy_service.life [of "server_init p" s pid um] lmtp_service.life [of "lmtp_init p" s pid um] assms
  unfolding server_init_def lmtp_init_def by fastforce

theorem restart_takes_over_witness:
  "reaches (last (snd (lmtp_start 8 493 False (lmtp_init [''run'', ''p.sock'']) [[] \<mapsto> Directory, [''run'', ''p.sock''] \<mapsto> Socket 432 7])))
     [''run'', ''p.sock''] = Some 8"
proof -
  have dirs: "dirs_of [''run'', ''p.sock''] = [[], [''run'']]" by code_simp
  let ?s = "[[] \<mapsto> Directory, [''run'', ''p.sock''] \<mapsto> Socket 432 7]"
  have "bindable [''run'', ''p.sock''] ?s" by (simp add: bindable_def dirs)
  from restart_takes_over [OF this, of 8 493] obtain lm h where
    "lmtp_start 8 493 False (lmtp_init [''run'', ''p.sock'']) ?s = (Ok lm, h)"
    "last (?s # h) = with_node [''run'', ''p.sock''] (Some (Socket 432 8)) ?s"
    by metis
  then show ?thesis
    by (cases h) (auto simp: reaches_def lmtp_start_def Let_def split: sum.splits)
qed

text \<open>
  The removal at the stop goes by the path alone. When the next process has started before
  the old one stops, the old one's \<open>stop\<close> takes the new socket away, and no client reaches
  the process that still listens on it.
\<close>

lemma late_stop_removes_socket:
  assumes "bindable p s"
  shows "\<exists>old h new h'. start_server pid um False (server_init p) s = (Ok old, h) \<and>
    start_server pid' um' False (server_init p) (last (s # h)) = (Ok new, h') \<and> serve_forever new = Ok pid' \<and>
    fst (stop_server old (last (last (s # h) # h'))) = Ok () \<and>
    reaches (snd (stop_server old (last (last (s # h) # h')))) p = None"
  using policy_service.late_stop [of "server_init p" s "server_init p" pid um pid' um'] assms
  by (simp add: server_init_def)

text \<open>
  \<open>_mask_owning_group\<close> is best effort only for the group: without one, or with an unknown one,
  it does nothing; with a known group the path must exist and both calls must be permitted.
\<close>

lemma mask_owning_group_cases:
  "mask_owning_group getgrnam own_ok mode_ok p grp s =
    (case Option.bind grp (\<lambda>g. if g = [] then None else getgrnam g) of
       None \<Rightarrow> (Ok (), s)
     | Some gid \<Rightarrow> (case s p of
         None \<Rightarrow> (Raise OSError, s)
       | Some st \<Rightarrow> if own_ok \<and> mode_ok
           then (Ok (), s(p \<mapsto> \<lparr>mt_uid = mt_uid st, mt_gid = gid, mt_mode = 432\<rparr>))
           else (Raise OSError, if own_ok then s(p \<mapsto> st\<lparr>mt_gid := gid\<rparr>) else s)))"
  by (auto simp: mask_owning_group_def Let_def split: option.splits)

end
