(* ===== verification/Logging.thy ===== *)
theory Logging
  imports Json_Text Config
begin

text \<open>
  \<open>mail_router/logging_setup.py\<close>: one JSON object per log record, on one line. A record is
  what \<open>logging\<close> hands the formatter: the time, the level, the logger's name, the message
  with its arguments filled in, the traceback's text if there is one, and the attributes of
  the record object in their order (the standard ones and those of \<open>extra\<close>). A value that is
  no JSON value is given as the string that \<open>default=str\<close> makes of it.
\<close>

section \<open>\<open>json.dumps\<close> on one line\<close>

fun dump_line :: "json \<Rightarrow> string" where
  "dump_line JNull = ''null''"
| "dump_line (JBool b) = (if b then ''true'' else ''false'')"
| "dump_line (JInt i) = int_str i"
| "dump_line (JFloat t) = dump 0 (JFloat t)"
| "dump_line (JStr s) = dump_str s"
| "dump_line (JList xs) = ''['' @ join '', '' (map dump_line xs) @ '']''"
| "dump_line (JObj d) = ''{'' @ join '', '' (map (\<lambda>(n, v). dump_str n @ '': '' @ dump_line v) d) @ ''}''"

section \<open>The formatter\<close>

record log_record =
  lr_created :: datetime
  lr_levelname :: string
  lr_name :: string
  lr_message :: string
  lr_exc :: "string option"
  lr_dict :: "(string \<times> json) list"

definition standard_attributes :: "string list" where
  "standard_attributes = [''args'', ''asctime'', ''created'', ''exc_info'', ''exc_text'', ''filename'',
     ''funcName'', ''levelname'', ''levelno'', ''lineno'', ''message'', ''module'', ''msecs'', ''msg'', ''name'',
     ''pathname'', ''process'', ''processName'', ''relativeCreated'', ''stack_info'', ''thread'', ''threadName'',
     ''taskName'']"

definition base_payload :: "log_record \<Rightarrow> (string \<times> json) list" where
  "base_payload rec = [(''ts'', JStr (isoformat (CHR ''T'') (lr_created rec))), (''level'', JStr (lr_levelname rec)),
     (''logger'', JStr (lr_name rec)), (''msg'', JStr (lr_message rec))] @
     (case lr_exc rec of None \<Rightarrow> [] | Some e \<Rightarrow> [(''exc'', JStr e)])"

fun add_extras :: "(string \<times> json) list \<Rightarrow> (string \<times> json) list \<Rightarrow> (string \<times> json) list" where
  "add_extras payload [] = payload"
| "add_extras payload ((key, v) # rest) =
    (if key \<in> set standard_attributes then add_extras payload rest
     else add_extras (dict_set payload key v) rest)"

definition log_payload :: "log_record \<Rightarrow> (string \<times> json) list" where
  "log_payload rec = add_extras (base_payload rec) (lr_dict rec)"

definition format_record :: "log_record \<Rightarrow> string" where
  "format_record rec = dump_line (JObj (log_payload rec))"

section \<open>The root logger\<close>

datatype handler = Json_Stderr | Other_Handler string

record root_logger =
  lg_handlers :: "handler list"
  lg_level :: int

text \<open>The loop over a copy of the handlers; \<open>removeHandler\<close> takes the first occurrence.\<close>

fun remove_handlers :: "handler list \<Rightarrow> root_logger \<Rightarrow> root_logger" where
  "remove_handlers [] root = root"
| "remove_handlers (h # hs) root = remove_handlers hs (root\<lparr>lg_handlers := remove1 h (lg_handlers root)\<rparr>)"

text \<open>\<open>setLevel\<close> with a name: the levels of \<open>logging\<close>; any other name is a \<open>ValueError\<close>.\<close>

definition level_number :: "string \<Rightarrow> int option" where
  "level_number = map_of [(''CRITICAL'', 50), (''FATAL'', 50), (''ERROR'', 40), (''WARN'', 30), (''WARNING'', 30),
     (''INFO'', 20), (''DEBUG'', 10), (''NOTSET'', 0)]"

definition configure :: "string \<Rightarrow> root_logger \<Rightarrow> unit result \<times> root_logger" where
  "configure level root =
    (let root1 = remove_handlers (lg_handlers root) root;
         root2 = root1\<lparr>lg_handlers := lg_handlers root1 @ [Json_Stderr]\<rparr> in
     case level_number (py_upper level) of
       None \<Rightarrow> (Raise ValueError, root2)
     | Some n \<Rightarrow> (Ok (), root2\<lparr>lg_level := n\<rparr>))"

text \<open>The lines a record of a level puts on the error stream: one per handler of ours.\<close>

definition stderr_lines :: "root_logger \<Rightarrow> int \<Rightarrow> log_record \<Rightarrow> string list" where
  "stderr_lines root lvl rec = (if lg_level root \<le> lvl
     then map (\<lambda>h. format_record rec) (filter (\<lambda>h. h = Json_Stderr) (lg_handlers root)) else [])"

lemma remove_handlers_all: "remove_handlers (lg_handlers root) root = root\<lparr>lg_handlers := []\<rparr>"
proof -
  have "remove_handlers hs (root\<lparr>lg_handlers := hs\<rparr>) = root\<lparr>lg_handlers := []\<rparr>" for hs and root :: root_logger
    by (induction hs) simp_all
  from this [of "lg_handlers root" root] show ?thesis by simp
qed

lemma configure_alt:
  "configure level root = (case level_number (py_upper level) of
     None \<Rightarrow> (Raise ValueError, root\<lparr>lg_handlers := [Json_Stderr]\<rparr>)
   | Some n \<Rightarrow> (Ok (), root\<lparr>lg_handlers := [Json_Stderr], lg_level := n\<rparr>))"
  by (simp add: configure_def remove_handlers_all Let_def split: option.split)

section \<open>One record, one line\<close>

text \<open>
  No character below the space: no newline, no carriage return, no other control character of
  ASCII but DEL. The codes from DEL to \<open>U+009F\<close> are written as they are.
\<close>

definition no_low_controls :: "string \<Rightarrow> bool" where
  "no_low_controls s \<longleftrightarrow> (\<forall>c \<in> set s. 32 \<le> (of_char c :: nat))"

lemma no_low_controls_simps [simp]: "no_low_controls []" "no_low_controls (c # s) \<longleftrightarrow> 32 \<le> (of_char c :: nat) \<and> no_low_controls s"
  "no_low_controls (s @ t) \<longleftrightarrow> no_low_controls s \<and> no_low_controls t"
  by (auto simp: no_low_controls_def)

lemma no_low_controls_join: "no_low_controls sep \<Longrightarrow> \<forall>x \<in> set xs. no_low_controls x \<Longrightarrow> no_low_controls (join sep xs)"
  by (induction sep xs rule: join.induct) auto

lemma no_low_controls_digits: "list_all is_digit s \<Longrightarrow> no_low_controls s"
  by (auto simp: no_low_controls_def list_all_iff is_digit_def)

lemma no_low_controls_int: "no_low_controls (int_str i)"
  using no_low_controls_digits [OF nat_str_digits] by (simp add: int_str_def)

lemma no_low_controls_dump_char: "no_low_controls (dump_char c)"
proof -
  have "no_low_controls (hex2 n)" if "n < 32" for n
  proof -
    have "n div 16 < 16" "n mod 16 < 16" using that by simp_all
    then show ?thesis by (simp add: hex2_def hex_digit_def of_char_of)
  qed
  then show ?thesis by (simp add: dump_char_def Let_def backslash_def)
qed

lemma no_low_controls_dump_str: "no_low_controls (dump_str s)"
proof -
  have "no_low_controls (concat (map dump_char s))" by (induction s) (simp_all add: no_low_controls_dump_char)
  then show ?thesis by (simp add: dump_str_def)
qed

lemma no_low_controls_scan:
  assumes "scan_number t = Some (JFloat t, [])"
  shows "no_low_controls t"
proof -
  let ?neg = "startswith t ''-''"
  obtain i r1 where i: "scan_int (if ?neg then tl t else t) = Some (i, r1)"
    using assms by (auto simp: scan_number_alt Let_def split: option.splits)
  let ?f = "fst (scan_frac r1)" and ?e = "fst (scan_exp (snd (scan_frac r1)))"
  have t: "t = (if ?neg then ''-'' else []) @ i @ ?f @ ?e"
    using assms i by (auto simp: scan_number_alt Let_def split: if_splits)
  have "no_low_controls i"
    using i scan_digits_taken by (cases "if ?neg then tl t else t") (auto simp: scan_int_def scan_digits_def is_digit_def
        intro: no_low_controls_digits split: if_splits)
  moreover have "no_low_controls ?f"
    using no_low_controls_digits [OF scan_digits_taken] by (cases r1) (auto simp: scan_frac_def)
  moreover have "no_low_controls ?e"
    using scan_exp_shape [of "snd (scan_frac r1)"] no_low_controls_digits by (auto simp: no_low_controls_def)
  ultimately show ?thesis by (subst t) simp
qed

lemma no_low_controls_dump_line: "json_ok v \<Longrightarrow> no_low_controls (dump_line v)"
proof (induction v)
  case (JFloat t)
  then show ?case using no_low_controls_scan [of t] by (auto simp: float_text_def)
next
  case (JList xs)
  then show ?case by (auto simp: list_all_iff intro!: no_low_controls_join)
next
  case (JObj d)
  have "no_low_controls (dump_line v)" if "(k, v) \<in> set d" for k v
    using JObj.IH [OF that, of v] JObj.prems that by (auto simp: list_all_iff)
  then show ?case by (auto simp: no_low_controls_dump_str intro!: no_low_controls_join)
qed (simp_all add: no_low_controls_int no_low_controls_dump_str)

text \<open>A line is read back as the value it was made of.\<close>

lemma line_reads: "json_ok v \<Longrightarrow> reads_as v (dump_line v)"
proof (induction v)
  case (JFloat t)
  then show ?case using reads_leaves(4) [of t] by simp
next
  case (JList xs)
  have "list_all2 reads_as xs (map dump_line xs)"
    using JList by (auto simp: list_all2_map2 list_all2_same list_all_iff)
  from reads_list [OF this, of "[]" "'' ''" "[]"] show ?case
    using reads_empty by (cases "xs = []") simp_all
next
  case (JObj d)
  let ?f = "\<lambda>(n, v). dump_str n @ '': '' @ dump_line v"
  have "member_text (n, v) (?f (n, v))" if "(n, v) \<in> set d" for n v
  proof -
    have "json_ok v" using JObj.prems that by (fastforce simp: list_all_iff)
    with JObj.IH [OF that] have "reads_as v (dump_line v)" by simp
    with str_text_dump [of n] show ?thesis
      unfolding member_text_def by (intro exI [of _ "dump_str n"] exI [of _ "dump_line v"]) simp
  qed
  then have "list_all2 member_text d (map ?f d)" by (auto simp: list_all2_map2 list_all2_same)
  from reads_obj [OF this, of "[]" "'' ''" "[]"] show ?case
    using reads_empty JObj.prems by (cases "d = []") simp_all
qed (use reads_leaves str_text_dump in simp_all)

lemma loads_line: "json_ok v \<Longrightarrow> json_loads (dump_line v) = Inr v"
  using loads_text [OF line_reads, of v "[]"] by simp

lemma json_ok_payload:
  "json_ok (JObj payload) \<Longrightarrow> list_all (\<lambda>(k, v). json_ok v) attrs \<Longrightarrow> json_ok (JObj (add_extras payload attrs))"
proof (induction payload attrs rule: add_extras.induct)
  case (2 payload key v rest)
  then show ?case using json_ok_dict_set [of payload v key] by (simp del: json_ok.simps)
qed simp

text \<open>No log injection. Whatever the message, the traceback and the attributes of a
  record contain (newlines, control characters and quotes included), its line holds no
  character below the space and is read back as the payload. An attribute of \<open>extra\<close> is in
  the payload with its value.\<close>

lemma record_is_one_line:
  assumes "list_all (\<lambda>(k, v). json_ok v) (lr_dict rec)"
  shows "no_low_controls (format_record rec)" and "json_loads (format_record rec) = Ok (JObj (log_payload rec))"
proof -
  have "json_ok (JObj (base_payload rec))" by (simp add: base_payload_def split: option.split)
  then have "json_ok (JObj (log_payload rec))"
    unfolding log_payload_def using assms by (rule json_ok_payload)
  then show "no_low_controls (format_record rec)" "json_loads (format_record rec) = Ok (JObj (log_payload rec))"
    unfolding format_record_def by (blast intro: no_low_controls_dump_line loads_line)+
qed

lemma map_of_extras: "distinct (map fst attrs) \<Longrightarrow> map_of (add_extras payload attrs) k =
    (case if k \<in> set standard_attributes then None else map_of attrs k of Some v \<Rightarrow> Some v | None \<Rightarrow> map_of payload k)"
proof (induction payload attrs rule: add_extras.induct)
  case (2 payload key v rest)
  then have "map_of rest key = None" by (simp add: map_of_eq_None_iff)
  with 2 show ?case by (auto split: option.split)
qed simp

text \<open>C25 - safety: the log of a process. Once the logging is configured, whatever handlers were
  installed before, a record of the configured level or above is exactly one line of the error
  stream, and one below it none; the line holds no character below the space, so no line feed or carriage return,
  whatever the message, the traceback and the attributes contain (DEL and the controls above it pass as they are);
  \<open>json.loads\<close> of the line gives an object back in which every attribute of \<open>extra\<close> has its
  value, and the time, level, logger, message and traceback have theirs unless an attribute has that name.\<close>

theorem configured_log_lines:
  assumes "configure level root = (Ok (), root')" and "list_all (\<lambda>(k, v). json_ok v) (lr_dict rec)"
    and "distinct (map fst (lr_dict rec))"
  shows "\<exists>n d. level_number (py_upper level) = Some n \<and>
    stderr_lines root' lvl rec = (if n \<le> lvl then [format_record rec] else []) \<and>
    (\<forall>c \<in> set (format_record rec). 32 \<le> (of_char c :: nat)) \<and>
    json_loads (format_record rec) = Ok (JObj d) \<and>
    (\<forall>k. map_of d k = (case if k \<in> set standard_attributes then None else map_of (lr_dict rec) k of
        Some v \<Rightarrow> Some v
      | None \<Rightarrow> if k = ''ts'' then Some (JStr (isoformat (CHR ''T'') (lr_created rec)))
          else if k = ''level'' then Some (JStr (lr_levelname rec)) else if k = ''logger'' then Some (JStr (lr_name rec))
          else if k = ''msg'' then Some (JStr (lr_message rec)) else if k = ''exc'' then map_option JStr (lr_exc rec) else None))"
proof -
  obtain n where n: "level_number (py_upper level) = Some n" "root' = root\<lparr>lg_handlers := [Json_Stderr], lg_level := n\<rparr>"
    using assms(1) by (auto simp: configure_alt split: option.splits)
  have base: "map_of (base_payload rec) k = (if k = ''ts'' then Some (JStr (isoformat (CHR ''T'') (lr_created rec)))
          else if k = ''level'' then Some (JStr (lr_levelname rec)) else if k = ''logger'' then Some (JStr (lr_name rec))
          else if k = ''msg'' then Some (JStr (lr_message rec)) else if k = ''exc'' then map_option JStr (lr_exc rec) else None)" for k
    by (simp add: base_payload_def split: option.split)
  have "stderr_lines root' lvl rec = (if n \<le> lvl then [format_record rec] else [])" using n(2) by (simp add: stderr_lines_def)
  moreover have "\<forall>c \<in> set (format_record rec). 32 \<le> (of_char c :: nat)"
    using record_is_one_line(1) [OF assms(2)] by (simp add: no_low_controls_def)
  ultimately show ?thesis
    by (intro exI [of _ n] exI [of _ "log_payload rec"] conjI n(1) record_is_one_line(2) [OF assms(2)] allI)
      (simp_all only: log_payload_def map_of_extras [OF assms(3)] base)
qed

theorem configured_log_lines_witness:
  "\<exists>root'. configure ''Info'' \<lparr>lg_handlers = [Json_Stderr, Other_Handler ''syslog''], lg_level = 0\<rparr> = (Ok (), root') \<and>
    length (stderr_lines root' 20 \<lparr>lr_created = \<lparr>dt_us = 0, dt_tz = Some 0\<rparr>, lr_levelname = ''INFO'', lr_name = ''mail_router.cli'',
     lr_message = [CHR ''a'', CHR 0x0A, CHR ''b''], lr_exc = None, lr_dict = [(''sender'', JStr [CHR 0x0D, CHR 0x0A])]\<rparr>) = 1 \<and> stderr_lines root' 10 \<lparr>lr_created = \<lparr>dt_us = 0, dt_tz = Some 0\<rparr>, lr_levelname = ''INFO'', lr_name = ''mail_router.cli'',
     lr_message = [CHR ''a'', CHR 0x0A, CHR ''b''], lr_exc = None, lr_dict = [(''sender'', JStr [CHR 0x0D, CHR 0x0A])]\<rparr> = []"
proof -
  let ?root = "\<lparr>lg_handlers = [Json_Stderr, Other_Handler ''syslog''], lg_level = 0\<rparr>"
  let ?rec = "\<lparr>lr_created = \<lparr>dt_us = 0, dt_tz = Some 0\<rparr>, lr_levelname = ''INFO'', lr_name = ''mail_router.cli'',
     lr_message = [CHR ''a'', CHR 0x0A, CHR ''b''], lr_exc = None, lr_dict = [(''sender'', JStr [CHR 0x0D, CHR 0x0A])]\<rparr>"
  have up: "py_upper ''Info'' = ''INFO''" by code_simp
  then have c: "configure ''Info'' ?root = (Ok (), \<lparr>lg_handlers = [Json_Stderr], lg_level = 20\<rparr>)"
    by (simp add: configure_alt level_number_def)
  have ok: "list_all (\<lambda>(k, v). json_ok v) (lr_dict ?rec)" "distinct (map fst (lr_dict ?rec))" by simp_all
  from configured_log_lines [OF c ok, of 20] configured_log_lines [OF c ok, of 10] up
  have "length (stderr_lines \<lparr>lg_handlers = [Json_Stderr], lg_level = 20\<rparr> 20 ?rec) = 1"
    "stderr_lines \<lparr>lg_handlers = [Json_Stderr], lg_level = 20\<rparr> 10 ?rec = []"
    by (simp_all add: level_number_def)
  with c show ?thesis by blast
qed

text \<open>A level name that \<open>logging\<close> does not know raises after the handlers were replaced.\<close>

lemma configure_unknown_level:
  "level_number (py_upper level) = None \<Longrightarrow> fst (configure level root) = Raise ValueError"
  by (simp add: configure_alt)

end
