(* ===== verification/Cli.thy ===== *)
theory Cli
  imports Worker_Loop Lookup_Sync Server Logging
begin

text \<open>
  \<open>mail_router/cli.py\<close>: the processes as they are started. A command line has been parsed by
  \<open>argparse\<close>, the configuration by \<open>config_load\<close>; what is left is the wiring: which objects
  a process builds from the configuration, in which order, what it prints and with which code
  it exits. The file system of sockets, the database file and the lookup file are arguments.
\<close>

section \<open>Printing\<close>

text \<open>\<open>json.dumps\<close> with its defaults: one line, everything outside printable ASCII escaped.\<close>

definition ascii_char :: "char \<Rightarrow> string" where
  "ascii_char c = (let n = of_char c :: nat in
     if 127 \<le> n then backslash # ''u00'' @ hex2 n else dump_char c)"

definition ascii_str :: "string \<Rightarrow> string" where
  "ascii_str s = CHR 0x22 # concat (map ascii_char s) @ [CHR 0x22]"

definition dump_opt :: "string option \<Rightarrow> string" where
  "dump_opt v = (case v of None \<Rightarrow> ''null'' | Some s \<Rightarrow> ascii_str s)"

definition dump_flat :: "(string \<times> string) list \<Rightarrow> string" where
  "dump_flat d = ''{'' @ join '', '' (map (\<lambda>(k, v). ascii_str k @ '': '' @ v) d) @ ''}''"

section \<open>The admin tool\<close>

datatype admin_cmd = Stats | List_Dlq int | Prune_Delivered int

definition stats_json :: "(qstate \<times> int) list \<Rightarrow> json" where
  "stats_json st = JObj (map (\<lambda>(s, n). (state_name s, JInt n)) st)"

definition dlq_line :: "queue_item \<Rightarrow> string" where
  "dlq_line item = dump_flat
     [(''id'', int_str (qi_id item)),
      (''received_at'', ascii_str (isoformat (CHR ''T'') (qi_received_at item))),
      (''ds_id'', ascii_str (qi_ds_id item)),
      (''recipient'', ascii_str (qi_recipient_email item)),
      (''reason'', dump_opt (qi_dead_letter_reason item)),
      (''attempts'', int_str (qi_attempt_count item))]"

definition print :: "string \<Rightarrow> string" where
  "print s = s @ [CHR 0x0A]"

text \<open>The output, the exit code (or the exception that ends the process) and the queue.\<close>

definition run_admin :: "admin_cmd \<Rightarrow> datetime \<Rightarrow> db option \<Rightarrow> (string \<times> int) result \<times> db" where
  "run_admin cmd now existing = (let queue = Queue_init existing in
     case cmd of
       Stats \<Rightarrow> (Ok (print (json_dumps (stats_json (stats queue))), 0), queue)
     | List_Dlq limit \<Rightarrow> (Ok (concat (map (\<lambda>item. print (dlq_line item)) (list_dead_letters now limit queue)), 0), queue)
     | Prune_Delivered days \<Rightarrow> (case prune_delivered now days queue of
         Inl e \<Rightarrow> (Raise e, queue)
       | Inr (n, q) \<Rightarrow> (Ok (print (''pruned '' @ int_str n @ '' delivered items older than '' @ int_str days @ '' days''), 0), q)))"

section \<open>The lookup synchronisation\<close>

definition not_configured_message :: string where
  "not_configured_message = ''lookup-sync is not configured: add a '' @ quote # ''lookup_sync:'' @ quote #
     '' section (url, api_key) to config.yaml''"

text \<open>What it prints to the error stream, the exit code, the log, the file systems.\<close>

definition run_lookup_sync :: "sync_env \<Rightarrow> config \<Rightarrow> fs \<Rightarrow> string \<times> int result \<times> log_lines \<times> fs list" where
  "run_lookup_sync env cfg s =
    (if cf_lookup_sync cfg = None then (print not_configured_message, Ok 2, [], []) else ('''', sync_once env cfg s))"

section \<open>The daemons\<close>

text \<open>
  The worker: the lookup table (which raises on an unreadable document), the queue, the client
  and the alerter, then the loop until a signal or an exception. \<open>rd\<close> and \<open>st\<close> are the reads
  of the lookup file at the start, \<open>fault\<close> the exception of the recovery statement. The queue is closed in both cases, the code is 0 only after
  a signal.
\<close>

definition start_worker :: "config \<Rightarrow> lookup_file option \<Rightarrow> lookup_file option \<Rightarrow> db option \<Rightarrow> worker result" where
  "start_worker cfg rd st existing =
     bind_result (LookupTable_init (lookup_reload cfg) rd st) (\<lambda>t.
       Ok \<lparr>wk_queue = Queue_init existing, wk_lookup = t, wk_alerter = Alerter_init (cf_alerts cfg)\<rparr>)"

definition run_worker :: "email_lib \<Rightarrow> config \<Rightarrow> lookup_file option \<Rightarrow> lookup_file option \<Rightarrow> exn option \<Rightarrow> tick_env list \<Rightarrow> db option \<Rightarrow> int result \<times> db" where
  "run_worker el cfg rd st fault tes existing = (case start_worker cfg rd st existing of
     Inl e \<Rightarrow> (Raise e, Queue_init existing)
   | Inr w \<Rightarrow> (case run_forever el (cf_worker cfg) (queue_size_threshold (cf_alerts cfg)) fault tes w of
       (Inl e, w') \<Rightarrow> (Raise e, wk_queue w')
     | (Inr _, w') \<Rightarrow> (Ok 0, wk_queue w')))"

text \<open>
  The policy server and the receiver: the table, the server's start, then service until a
  signal, then the stop. \<open>served\<close> is the file system at the time of the signal. Both have the
  same shape over their own server's \<open>start\<close> and \<open>stop\<close>.
\<close>

definition until_signal :: "('v result \<times> nodes list) \<Rightarrow> ('v \<Rightarrow> nodes \<Rightarrow> unit result \<times> nodes) \<Rightarrow> (nodes \<Rightarrow> nodes) \<Rightarrow> nodes \<Rightarrow>
    int result \<times> nodes" where
  "until_signal started stop served s = (case started of
     (Inl e, h) \<Rightarrow> (Raise e, last (s # h))
   | (Inr sv, h) \<Rightarrow> (case stop sv (served (last (s # h))) of
       (Inl e, s') \<Rightarrow> (Raise e, s')
     | (Inr _, s') \<Rightarrow> (Ok 0, s')))"

definition run_policy :: "nat \<Rightarrow> int \<Rightarrow> bool \<Rightarrow> config \<Rightarrow> lookup_file option \<Rightarrow> lookup_file option \<Rightarrow> (nodes \<Rightarrow> nodes) \<Rightarrow> nodes \<Rightarrow>
    (int result \<times> nodes) \<times> lookup_table option" where
  "run_policy pid um taken cfg rd st served s = (case LookupTable_init (lookup_reload cfg) rd st of
     Inl e \<Rightarrow> ((Raise e, s), None)
   | Inr t \<Rightarrow> (let server = server_init (split_on (CHR ''/'') (policy_socket cfg)) in
       (until_signal (start_server pid um taken server s) stop_server served s, Some t)))"

definition run_receiver :: "nat \<Rightarrow> int \<Rightarrow> bool \<Rightarrow> config \<Rightarrow> lookup_file option \<Rightarrow> lookup_file option \<Rightarrow> (nodes \<Rightarrow> nodes) \<Rightarrow> nodes \<Rightarrow>
    db option \<Rightarrow> (int result \<times> nodes) \<times> receiver option" where
  "run_receiver pid um taken cfg rd st served s existing = (case LookupTable_init (lookup_reload cfg) rd st of
     Inl e \<Rightarrow> ((Raise e, s), None)
   | Inr t \<Rightarrow> (let queue = Queue_init existing; server = lmtp_init (split_on (CHR ''/'') (lmtp_socket cfg)) in
       (until_signal (lmtp_start pid um taken server s) lmtp_stop served s, Some \<lparr>rc_lookup = t, rc_queue = queue\<rparr>)))"

section \<open>The entry points\<close>

text \<open>
  What every command does first: the configuration (\<open>raw\<close> is the document that the YAML parser
  returns), then the logging. A document that loads with values of other types in its lists
  (\<open>None\<close>) is outside the model. An exception ends the process before anything is built.
\<close>

definition prepare :: "json \<Rightarrow> root_logger \<Rightarrow> config option result \<times> root_logger" where
  "prepare raw root = (case config_load raw of
     Inl e \<Rightarrow> (Raise e, root)
   | Inr None \<Rightarrow> (Ok None, root)
   | Inr (Some cfg) \<Rightarrow> (case configure (log_level cfg) root of
       (Inl e, root') \<Rightarrow> (Raise e, root')
     | (Inr _, root') \<Rightarrow> (Ok (Some cfg), root')))"

definition with_config :: "json \<Rightarrow> root_logger \<Rightarrow> 's \<Rightarrow> (config \<Rightarrow> 'r result \<times> 's) \<Rightarrow> ('r result \<times> 's) option \<times> root_logger" where
  "with_config raw root s body = (case prepare raw root of
     (Inl e, root') \<Rightarrow> (Some (Raise e, s), root')
   | (Inr None, root') \<Rightarrow> (None, root')
   | (Inr (Some cfg), root') \<Rightarrow> (Some (body cfg), root'))"

definition main_policy :: "nat \<Rightarrow> int \<Rightarrow> bool \<Rightarrow> lookup_file option \<Rightarrow> lookup_file option \<Rightarrow> (nodes \<Rightarrow> nodes) \<Rightarrow>
    json \<Rightarrow> root_logger \<Rightarrow> nodes \<Rightarrow> (int result \<times> nodes) option \<times> root_logger" where
  "main_policy pid um taken rd st served raw root s =
     with_config raw root s (\<lambda>cfg. fst (run_policy pid um taken cfg rd st served s))"

definition main_receiver :: "nat \<Rightarrow> int \<Rightarrow> bool \<Rightarrow> lookup_file option \<Rightarrow> lookup_file option \<Rightarrow> (nodes \<Rightarrow> nodes) \<Rightarrow> db option \<Rightarrow>
    json \<Rightarrow> root_logger \<Rightarrow> nodes \<Rightarrow> (int result \<times> nodes) option \<times> root_logger" where
  "main_receiver pid um taken rd st served existing raw root s =
     with_config raw root s (\<lambda>cfg. fst (run_receiver pid um taken cfg rd st served s existing))"

text \<open>A database file that does not exist (\<open>None\<close>) has the rows of the empty one.\<close>

definition main_worker :: "email_lib \<Rightarrow> lookup_file option \<Rightarrow> lookup_file option \<Rightarrow> exn option \<Rightarrow> tick_env list \<Rightarrow>
    json \<Rightarrow> root_logger \<Rightarrow> db option \<Rightarrow> (int result \<times> db) option \<times> root_logger" where
  "main_worker el rd st fault tes raw root existing =
     with_config raw root (Queue_init existing) (\<lambda>cfg. run_worker el cfg rd st fault tes existing)"

definition main_lookup_sync :: "sync_env \<Rightarrow> fs \<Rightarrow>
    json \<Rightarrow> root_logger \<Rightarrow> (int result \<times> string \<times> log_lines \<times> fs list) option \<times> root_logger" where
  "main_lookup_sync env s raw root = with_config raw root ([], [], [])
     (\<lambda>cfg. case run_lookup_sync env cfg s of (err, code, logged, hist) \<Rightarrow> (code, err, logged, hist))"

definition main_admin :: "admin_cmd \<Rightarrow> datetime \<Rightarrow>
    json \<Rightarrow> root_logger \<Rightarrow> db option \<Rightarrow> ((string \<times> int) result \<times> db) option \<times> root_logger" where
  "main_admin cmd now raw root existing =
     with_config raw root (Queue_init existing) (\<lambda>cfg. run_admin cmd now existing)"

section \<open>A run of the worker keeps every mail\<close>

text \<open>The transactions a worker issues, and what they leave alone.\<close>

fun worker_event :: "qevent \<Rightarrow> bool" where
  "worker_event (Enqueue now m) = False"
| "worker_event (Prune now days) = False"
| "worker_event e = True"

definition mails :: "db \<Rightarrow> (int \<times> mail) list" where
  "mails d = map (\<lambda>r. (r_id r, payload r)) (db_rows d)"

lemma mails_update:
  assumes "\<And>r. r_id (f r) = r_id r" and "\<And>r. payload (f r) = payload r"
  shows "mails (update_where P f d) = mails d"
  using assms by (simp add: mails_def update_where_def)

lemma mails_worker_event: "worker_event e \<Longrightarrow> mails (apply_event d e) = mails d"
proof (cases e)
  case (Dequeue tie now limit f)
  have "mails (snd (dequeue_batch tie now limit f d)) = mails d"
    by (auto simp: dequeue_batch_def Let_def payload_def intro!: mails_update)
  then show ?thesis using Dequeue by simp
next
  case (Mark_Retry i n t err)
  have "mails q = mails d" if "mark_retry i n t err d = Ok q" for q
    using that by (auto simp: mark_retry_def payload_def intro!: mails_update)
  then show ?thesis using Mark_Retry by (cases "mark_retry i n t err d") simp_all
qed (auto simp: mark_delivered_def mark_dead_letter_def requeue_in_flight_def payload_def intro!: mails_update)

lemma mails_worker_events: "list_all worker_event es \<Longrightarrow> mails (foldl apply_event d es) = mails d"
  by (induction es arbitrary: d) (simp_all add: mails_worker_event)

lemma db_inv_events: "list_all event_ok es \<Longrightarrow> db_inv d \<Longrightarrow> db_inv (foldl apply_event d es)"
  by (induction es arbitrary: d) (simp_all add: db_inv_apply_event)

lemma outcome_worker_event: "outcome_event cfg env item e \<Longrightarrow> worker_event e"
  by (cases e) simp_all

text \<open>A run of transactions that keeps the schema and the mails.\<close>

definition keeps :: "db \<Rightarrow> db \<Rightarrow> bool" where
  "keeps d q \<longleftrightarrow> mails q = mails d \<and> (db_inv d \<longrightarrow> db_inv q)"

lemma keeps_trans: "keeps d q \<Longrightarrow> keeps q p \<Longrightarrow> keeps d p"
  by (simp add: keeps_def)

lemma keeps_event: "worker_event e \<Longrightarrow> event_ok e \<Longrightarrow> keeps d (apply_event d e)"
  by (simp add: keeps_def mails_worker_event db_inv_apply_event)

lemma tick_keeps:
  assumes "tick_clocks_ok te" and "db_inv (wk_queue w)"
  shows "keeps (wk_queue w) (wk_queue (snd (tick el cfg lim te w)))"
proof -
  obtain r q where dq: "dequeue_batch (tk_tie te) (tk_now te) (batch_size cfg) (tk_fault te) (wk_queue w) = (r, q)"
    by fastforce
  have k: "keeps (wk_queue w) q"
    using keeps_event [of "Dequeue (tk_tie te) (tk_now te) (batch_size cfg) (tk_fault te)" "wk_queue w"] by (simp add: dq)
  show ?thesis
  proof (cases r)
    case (Inl e)
    with dq k show ?thesis by (simp add: tick_def)
  next
    case (Inr batch)
    obtain res w1 where p: "process_all el cfg (tk_items te) 0 batch (w\<lparr>wk_queue := q\<rparr>) = (res, w1)" by fastforce
    from process_all_events [OF p] obtain n evs where evs: "n \<le> length batch" "length evs = n"
      "wk_queue w1 = foldl apply_event q evs"
      "\<forall>j < n. outcome_event cfg (tk_items te j) (batch ! j) (evs ! j)"
      by auto
    have count: "0 \<le> qi_attempt_count (batch ! j)" if "j < n" for j
    proof -
      have "batch ! j \<in> set batch" using that evs(1) by simp
      then obtain x where "x \<in> set (db_rows (wk_queue w))" "batch ! j = row_to_item (tk_now te) x"
        using dq Inr select_due_sub by (fastforce simp: dequeue_batch_def Let_def split: if_splits)
      then show ?thesis using assms(2) by (simp add: db_inv_def row_ok_def row_to_item_def)
    qed
    have "list_all worker_event evs" "list_all event_ok evs"
      using evs(2,4) outcome_worker_event outcome_event_ok assms(1) count
      unfolding list_all_length tick_clocks_ok_def by metis+
    then have "keeps q (wk_queue w1)"
      by (simp add: keeps_def evs(3) mails_worker_events db_inv_events)
    with k have "keeps (wk_queue w) (wk_queue w1)" by (rule keeps_trans)
    then show ?thesis using tick_cases [OF prod.collapse [symmetric] _ p] dq Inr by metis
  qed
qed

lemma ticks_keep:
  "list_all tick_clocks_ok tes \<Longrightarrow> db_inv (wk_queue w) \<Longrightarrow> keeps (wk_queue w) (wk_queue (snd (ticks el cfg lim tes w)))"
proof (induction tes arbitrary: w)
  case (Cons te tes)
  obtain r w1 where t: "tick el cfg lim te w = (r, w1)" by fastforce
  have k: "keeps (wk_queue w) (wk_queue w1)" using tick_keeps [of te w el cfg lim] Cons.prems t by simp
  show ?case
  proof (cases r)
    case (Inl e)
    with t k show ?thesis by simp
  next
    case (Inr u)
    have "db_inv (wk_queue w1)" using k Cons.prems(2) by (simp add: keeps_def)
    with Cons.IH [of w1] Cons.prems(1) k show ?thesis using t Inr keeps_trans by fastforce
  qed
qed (simp add: keeps_def)

text \<open>C5 - safety: a worker process neither loses, adds nor rewrites a mail. Whatever the data
  sources answer, whichever statement or poll raises and however the process ends, the
  database has the same mails with the same identifiers and contents in the same order as
  before, and still satisfies its schema.\<close>

theorem worker_keeps_mails:
  assumes "db_inv d" and "list_all tick_clocks_ok tes" and "run_worker el cfg rd st fault tes (Some d) = (r, q)"
  shows "mails q = mails d \<and> db_inv q"
proof (cases "start_worker cfg rd st (Some d)")
  case (Inl e)
  with assms(1,3) show ?thesis by (simp add: run_worker_def Queue_init_def)
next
  case (Inr w)
  have w: "wk_queue w = d" using Inr by (auto simp: start_worker_def Queue_init_def)
  have "keeps d (snd (requeue_in_flight d))" using keeps_event [of Requeue d] by simp
  moreover from this have "keeps (snd (requeue_in_flight d)) (wk_queue (snd (run_forever el (cf_worker cfg)
      (queue_size_threshold (cf_alerts cfg)) None tes w)))"
    using ticks_keep [OF assms(2), of "w\<lparr>wk_queue := snd (requeue_in_flight d)\<rparr>"] assms(1)
    by (simp add: run_forever_def w keeps_def)
  ultimately have "keeps d (wk_queue (snd (run_forever el (cf_worker cfg) (queue_size_threshold (cf_alerts cfg)) None tes w)))"
    by (rule keeps_trans)
  then have "keeps d (wk_queue (snd (run_forever el (cf_worker cfg) (queue_size_threshold (cf_alerts cfg)) fault tes w)))"
    by (cases fault) (simp_all add: run_forever_def w keeps_def)
  moreover have "q = wk_queue (snd (run_forever el (cf_worker cfg) (queue_size_threshold (cf_alerts cfg)) fault tes w))"
    using assms(3) Inr by (auto simp: run_worker_def split: prod.splits sum.splits)
  ultimately show ?thesis using assms(1) by (simp add: keeps_def)
qed

theorem worker_keeps_mails_witness:
  "mails (snd (run_worker (toy_lib (Ok toy_message)) toy_sync_config None None None [toy_tick] (Some sample_db))) = [(1, sample_mail)]"
proof -
  obtain r q where run: "run_worker (toy_lib (Ok toy_message)) toy_sync_config None None None [toy_tick] (Some sample_db) = (r, q)"
    by fastforce
  have "mails sample_db = [(1, sample_mail)]" by (simp add: sample_db_eq mails_def)
  moreover have "tick_clocks_ok toy_tick" by (simp add: tick_clocks_ok_def toy_tick_def toy_env)
  ultimately show ?thesis using worker_keeps_mails [OF sample_db_inv _ run] run by simp
qed

section \<open>The admin tool\<close>

lemma count_sum:
  "count_where (\<lambda>r. r_state r = Dead_Letter) d + count_where (\<lambda>r. r_state r = Delivered) d +
   count_where (\<lambda>r. r_state r = In_Flight) d + count_where (\<lambda>r. r_state r = Pending) d = int (length (db_rows d))"
proof -
  have "length (filter (\<lambda>r. r_state r = Dead_Letter) rs) + length (filter (\<lambda>r. r_state r = Delivered) rs) +
     length (filter (\<lambda>r. r_state r = In_Flight) rs) + length (filter (\<lambda>r. r_state r = Pending) rs) = length rs"
    for rs :: "row list"
  proof (induction rs)
    case (Cons r rs)
    then show ?case by (cases "r_state r") simp_all
  qed simp
  from this [of "db_rows d"] show ?thesis by (simp add: count_where_def flip: of_nat_add)
qed

lemma stats_ok: "json_ok (stats_json (stats d))"
  by (simp add: stats_json_def stats_def state_name_def comp_def)

lemma stats_get_count: "stats_get (stats d) s = count_where (\<lambda>r. r_state r = s) d"
  by (cases s) (simp_all add: stats_def stats_get_def)

text \<open>The dead letters, as the documents that their lines stand for.\<close>

definition opt_json :: "string option \<Rightarrow> json" where
  "opt_json v = (case v of None \<Rightarrow> JNull | Some s \<Rightarrow> JStr s)"

definition dlq_json :: "queue_item \<Rightarrow> json" where
  "dlq_json item = JObj
     [(''id'', JInt (qi_id item)),
      (''received_at'', JStr (isoformat (CHR ''T'') (qi_received_at item))),
      (''ds_id'', JStr (qi_ds_id item)),
      (''recipient'', JStr (qi_recipient_email item)),
      (''reason'', opt_json (qi_dead_letter_reason item)),
      (''attempts'', JInt (qi_attempt_count item))]"

lemma scan_str_ascii_char: "scan_str (ascii_char c @ r) = map_option (\<lambda>(t, r'). (c # t, r')) (scan_str r)"
proof (cases "127 \<le> (of_char c :: nat)")
  case True
  have "(of_char c :: nat) < 256" by simp
  then have "unescape (''u00'' @ hex2 (of_char c) @ r) = Some (c, r)" using unescape_hex2 [of "of_char c" r] by simp
  moreover have "scan_str (backslash # s) = (case unescape s of None \<Rightarrow> None
      | Some (x, r') \<Rightarrow> map_option (\<lambda>(t, r''). (x # t, r'')) (scan_str r'))" for s
    by (subst scan_str.simps) (simp add: backslash_def)
  ultimately show ?thesis using True by (simp add: ascii_char_def)
qed (simp add: ascii_char_def scan_str_dump_char)

lemma str_text_ascii: "str_text s (ascii_str s)"
proof -
  have "scan_str (concat (map ascii_char s) @ CHR 0x22 # r) = Some (s, r)" for r
  proof (induction s)
    case Nil
    show ?case by (subst concat.simps list.map)+ (subst scan_str.simps, simp)
  qed (simp add: scan_str_ascii_char)
  then show ?thesis by (simp add: str_text_def ascii_str_def)
qed

lemma reads_opt: "reads_as (opt_json v) (dump_opt v)"
  using reads_leaves(1) reads_leaves(5) [OF str_text_ascii] by (cases v) (simp_all add: opt_json_def dump_opt_def)

lemma reads_flat:
  assumes "list_all2 (\<lambda>(k, v) (l, t). k = l \<and> reads_as v t) d ts" and "d \<noteq> []" and "distinct (map fst d)"
  shows "reads_as (JObj d) (dump_flat ts)"
proof -
  have "list_all2 member_text d (map (\<lambda>(k, t). ascii_str k @ '': '' @ t) ts)"
    unfolding list_all2_map2
    by (rule list_all2_mono [OF assms(1)]) (use str_text_ascii in \<open>fastforce simp: member_text_def\<close>)
  from reads_obj [OF this assms(2,3), of "[]" "'' ''" "[]"] show ?thesis by (simp add: dump_flat_def)
qed

lemma dlq_line_reads: "json_loads (dlq_line item) = Ok (dlq_json item)"
proof -
  have "reads_as (dlq_json item) (dlq_line item)"
    unfolding dlq_json_def dlq_line_def
    by (rule reads_flat) (use reads_leaves(3) reads_leaves(5) [OF str_text_ascii] reads_opt in simp_all)
  from loads_text [OF this, of "[]"] show ?thesis by simp
qed

text \<open>roundtrip: the printed statistics are a JSON document that reads back as the counts;
  every state of the table has its number of rows (a state that is not listed has none), the
  states come in the order of their texts, the numbers add up to the size of the table, and
  printing leaves the table alone. The dead letters are printed as one line each, the newest
  first, and every line is a JSON document that reads back as the item's fields, whatever
  characters they hold.\<close>

theorem admin_stats_read_back:
  "(\<exists>out. run_admin Stats now (Some d) = (Ok (out, 0), d) \<and> json_loads out = Ok (stats_json (stats d)) \<and>
    (\<forall>s. stats_get (stats d) s = count_where (\<lambda>r. r_state r = s) d) \<and> sorted (map fst (stats d)) \<and>
    sum_list (map snd (stats d)) = int (length (db_rows d))) \<and>
   (\<exists>lines. run_admin (List_Dlq limit) now (Some d) = (Ok (concat (map print lines), 0), d) \<and>
    map json_loads lines = map (\<lambda>item. Ok (dlq_json item)) (list_dead_letters now limit d))"
proof -
  have "json_loads (print (json_dumps (stats_json (stats d)))) = Ok (stats_json (stats d))"
    unfolding print_def by (rule loads_dumps [OF stats_ok])
  moreover have "sum_list (map snd (stats d)) = int (length (db_rows d))"
    unfolding count_sum [symmetric] by (simp add: stats_def)
  moreover have "sorted (map fst (stats d))" by (simp add: stats_def less_eq_qstate_def state_name_def)
  moreover have "\<exists>lines. run_admin (List_Dlq limit) now (Some d) = (Ok (concat (map print lines), 0), d) \<and>
      map json_loads lines = map (\<lambda>item. Ok (dlq_json item)) (list_dead_letters now limit d)"
    by (rule exI [of _ "map dlq_line (list_dead_letters now limit d)"])
      (simp add: run_admin_def Queue_init_def dlq_line_reads comp_def)
  ultimately show ?thesis by (simp add: run_admin_def Queue_init_def stats_get_count)
qed

text \<open>C27 - functional: pruning is exact. It deletes the delivered mails whose delivery lies more
  than the given number of days before now, compared as instants, keeps every other row
  unchanged and in order, and reports how many it deleted.\<close>

theorem prune_is_exact:
  assumes "db_inv d" and "clock_ok now" and "prune_delivered now days d = Ok (n, q)"
  shows "db_rows q = filter (\<lambda>r. \<not> (r_state r = Delivered \<and>
      (\<exists>t. parse_ts (r_delivered_at r) = Some t \<and> int (dt_us t) + days * 86400000000 < int (dt_us (utcnow now))))) (db_rows d) \<and>
    n = int (length (db_rows d)) - int (length (db_rows q))"
proof -
  obtain cutoff where c: "dt_add (utcnow now) (- days * 86400000000) = Ok cutoff"
    and q: "q = d\<lparr>db_rows := filter (\<lambda>r. \<not> prunable (iso_text cutoff) r) (db_rows d)\<rparr>"
    and n: "n = count_where (prunable (iso_text cutoff)) d"
    using assms(3) by (auto simp: prune_delivered_def Let_def)
  have cut: "clock_ok cutoff" "int (dt_us cutoff) = int (dt_us (utcnow now)) - days * 86400000000"
    using dt_add_clock [OF clock_ok_utcnow [OF assms(2)] c] c by (auto simp: dt_add_def Let_def split: if_splits)
  have rows: "db_rows q = filter (\<lambda>r. \<not> prunable (iso_text cutoff) r) (db_rows d)" by (simp add: q)
  have whole: "drop_micros cutoff = cutoff"
  proof -
    have "int (dt_us cutoff) = 1000000 * (int (dt_us now div 1000000) - days * 86400)"
      using cut(2) by (simp add: utcnow_def drop_micros_def)
    then have "int 1000000 dvd int (dt_us cutoff)" by simp
    then have "1000000 dvd dt_us cutoff" by (simp only: int_dvd_int_iff)
    then show ?thesis by (simp add: drop_micros_def)
  qed
  have "prunable (iso_text cutoff) r \<longleftrightarrow> r_state r = Delivered \<and>
      (\<exists>t. parse_ts (r_delivered_at r) = Some t \<and> int (dt_us t) + days * 86400000000 < int (dt_us (utcnow now)))"
    if "r \<in> set (db_rows d)" for r
  proof (cases "r_delivered_at r")
    case (Some v)
    then have "stored_aware v" using assms(1) that by (auto simp: db_inv_def row_ok_def)
    then obtain t where t: "fromisoformat v = Some t" "clock_ok t" "drop_micros t = t" "v = iso_text t"
      by (auto simp: stored_aware_def split: option.splits)
    then have "parse_ts (Some v) = Some t" by (simp add: parse_ts_def clock_ok_def)
    moreover have "v < iso_text cutoff \<longleftrightarrow> dt_us t < dt_us cutoff"
      using aware_less_aware [OF t(2) cut(1) t(3) whole] t(4) by simp
    ultimately show ?thesis using Some cut(2) by (auto simp: prunable_def)
  qed (simp add: prunable_def parse_ts_def)
  then have "filter (\<lambda>r. \<not> prunable (iso_text cutoff) r) (db_rows d) = filter (\<lambda>r. \<not> (r_state r = Delivered \<and>
      (\<exists>t. parse_ts (r_delivered_at r) = Some t \<and> int (dt_us t) + days * 86400000000 < int (dt_us (utcnow now))))) (db_rows d)"
    by (intro filter_cong [OF refl] arg_cong [where f = Not])
  then have "db_rows q = filter (\<lambda>r. \<not> (r_state r = Delivered \<and>
      (\<exists>t. parse_ts (r_delivered_at r) = Some t \<and> int (dt_us t) + days * 86400000000 < int (dt_us (utcnow now))))) (db_rows d)"
    using rows by (simp only:)
  moreover have "n = int (length (db_rows d)) - int (length (db_rows q))"
    using sum_length_filter_compl [of "prunable (iso_text cutoff)" "db_rows d"] by (simp add: n q count_where_def)
  ultimately show ?thesis by blast
qed

theorem prune_is_exact_witness:
  "\<exists>n q. prune_delivered (utc 86400000000) 0 (mark_delivered (utc 7000000) 1 None sample_db) = Ok (n, q) \<and> db_rows q = [] \<and> n = 1"
proof -
  let ?d = "mark_delivered (utc 7000000) 1 None sample_db"
  have clocks: "clock_ok (utc 7000000)" by simp
  have day: "clock_ok (utc 86400000000)" by (simp add: clock_ok_def utc_def max_us_def)
  have inv: "db_inv ?d" by (rule db_inv_mark_delivered [OF sample_db_inv clocks])
  have "dt_add (utcnow (utc 86400000000)) 0 = Ok (utc 86400000000)"
    by (simp add: dt_add_def utcnow_def drop_micros_def utc_def max_us_def)
  then obtain n q where p: "prune_delivered (utc 86400000000) 0 ?d = Ok (n, q)"
    by (simp add: prune_delivered_def Let_def)
  have ts: "parse_ts (Some (iso_text (utcnow (utc 7000000)))) = Some (utc 7000000)"
    using ts.dec_enc [of "utc 7000000"] clocks by (simp add: parse_ts_def utcnow_def drop_micros_def utc_def)
  have rows: "db_rows ?d = [new_row (utc 5) 1 sample_mail \<lparr>r_state := Delivered,
      r_delivered_at := Some (iso_text (utcnow (utc 7000000))), r_delivered_message_id := None, r_last_error := None\<rparr>]"
    by (simp add: sample_db_eq mark_delivered_def update_where_def)
  have us: "dt_us (utcnow (utc 86400000000)) = 86400000000" "dt_us (utc 7000000) = 7000000"
    by (simp_all add: utcnow_def drop_micros_def utc_def)
  from prune_is_exact [OF inv day p] have "db_rows q = []" "n = 1"
    by (simp_all add: rows ts us)
  with p show ?thesis by blast
qed

section \<open>Starting\<close>

text \<open>error: an unreadable lookup document keeps every daemon from starting. The worker,
  the policy server and the receiver all end with the parser's exception; no socket appears
  and the queue is not touched (a mail in flight stays in flight).\<close>

theorem daemons_need_lookup:
  assumes "LookupTable_init (lookup_reload cfg) rd st = Raise e"
  shows "run_worker el cfg rd st fault tes (Some d) = (Raise e, d) \<and>
    run_policy pid um taken cfg rd st served s = ((Raise e, s), None) \<and>
    run_receiver pid um taken cfg rd st served s (Some d) = ((Raise e, s), None)"
  using assms by (simp add: run_worker_def start_worker_def run_policy_def run_receiver_def Queue_init_def)

theorem daemons_need_lookup_witness:
  "run_worker (toy_lib (Ok toy_message)) toy_sync_config (Some \<lparr>f_text = ''{'', f_mtime = 7\<rparr>) None None [toy_tick] (Some sample_db) =
     (Raise JSONDecodeError, sample_db)"
proof -
  have "json_loads ''{'' = Raise JSONDecodeError" by code_simp
  then have "LookupTable_init (lookup_reload toy_sync_config) (Some \<lparr>f_text = ''{'', f_mtime = 7\<rparr>) None = Raise JSONDecodeError"
    by (simp add: LookupTable_init_def load_table_def parse_lookup_def)
  from daemons_need_lookup [OF this] show ?thesis by blast
qed

text \<open>functional: a socket daemon's run, from start to signal. With a readable lookup document
  and a socket path that can be bound, both daemons serve on a socket of mode 660 and
  exit with 0 on the signal; whatever else happened in the file system meanwhile stays,
  and the socket's path is free. When the place is taken between the removal of the old socket
  and the bind, they end with an \<open>OSError\<close>, and the old socket is gone all the same.\<close>

theorem socket_daemons_clean_up:
  assumes "LookupTable_init (lookup_reload cfg) rd st = Ok t"
    and "p = split_on (CHR ''/'') (policy_socket cfg)" and "q = split_on (CHR ''/'') (lmtp_socket cfg)"
    and "bindable p s" and "bindable q s" and "served (with_node p (Some (Socket 432 pid)) s) p \<noteq> Some Directory"
    and "served (with_node q (Some (Socket 432 pid)) s) q \<noteq> Some Directory"
  shows "run_policy pid um False cfg rd st served s =
      ((Ok 0, (served (with_node p (Some (Socket 432 pid)) s))(p := None)), Some t) \<and>
    run_policy pid um True cfg rd st served s = ((Raise OSError, with_node p None s), Some t) \<and>
    fst (run_receiver pid um False cfg rd st served s existing) =
      (Ok 0, (served (with_node q (Some (Socket 432 pid)) s))(q := None)) \<and>
    fst (run_receiver pid um True cfg rd st served s existing) = (Raise OSError, with_node q None s)"
  using assms(4-7) bindable_place [OF assms(4)] bindable_place [OF assms(5)]
  by (simp add: run_policy_def run_receiver_def until_signal_def assms(1) Let_def server_init_def lmtp_init_def
      start_server_ok lmtp_start_ok start_server_def lmtp_start_def bind_steps stop_server_def lmtp_stop_def unlink_quiet_def
      flip: assms(2,3))

theorem socket_daemons_clean_up_witness:
  "\<exists>t. run_policy 8 493 False toy_sync_config None None (\<lambda>f. f([''x''] \<mapsto> Plain_File)) [[] \<mapsto> Directory, [''p''] \<mapsto> Socket 432 7] =
     ((Ok 0, [[] \<mapsto> Directory, [''x''] \<mapsto> Plain_File]), Some t)"
proof -
  let ?s = "[[] \<mapsto> Directory, [''p''] \<mapsto> Socket 432 7]" and ?served = "\<lambda>f::nodes. f([''x''] \<mapsto> Plain_File)"
  have sock: "split_on (CHR ''/'') (policy_socket toy_sync_config) = [''p'']"
    "split_on (CHR ''/'') (lmtp_socket toy_sync_config) = [''l'']"
    by (simp_all add: toy_sync_config_def)
  have dirs: "dirs_of [''p''] = [[]]" "dirs_of [''l''] = [[]]" by code_simp+
  have b: "bindable [''p''] ?s" "bindable [''l''] ?s" by (simp_all add: bindable_def dirs)
  obtain t where t: "LookupTable_init (lookup_reload toy_sync_config) None None = Ok t"
    by (simp add: LookupTable_init_def load_table_def)
  have "(?served (with_node [''p''] (Some (Socket 432 8)) ?s))([''p''] := None) = [[] \<mapsto> Directory, [''x''] \<mapsto> Plain_File]"
    by (auto simp: with_node_def dirs fun_eq_iff)
  with socket_daemons_clean_up [OF t sock [symmetric] b, of ?served 8 493 None] show ?thesis by auto
qed

text \<open>error: a configuration that cannot be used stops every command before it has touched
  anything. When the document does not load, or names a level that \<open>logging\<close> does not know, all five commands end with
  that exception, with the sockets, the queue's rows and the lookup files as they were.\<close>

definition unusable :: "json \<Rightarrow> exn \<Rightarrow> bool" where
  "unusable raw e \<longleftrightarrow> config_load raw = Raise e \<or>
    (case config_load raw of Inr (Some cfg) \<Rightarrow> e = ValueError \<and> level_number (py_upper (log_level cfg)) = None | _ \<Rightarrow> False)"

lemma with_unusable: "unusable raw e \<Longrightarrow> fst (with_config raw root s body) = Some (Raise e, s)"
  by (auto simp: unusable_def with_config_def prepare_def configure_alt split: sum.splits option.splits)

theorem unusable_config_is_harmless:
  assumes "unusable raw e"
  shows "fst (main_policy pid um taken rd st served raw root s) = Some (Raise e, s) \<and>
    fst (main_receiver pid um taken rd st served existing raw root s) = Some (Raise e, s) \<and>
    fst (main_worker el rd st fault tes raw root existing) = Some (Raise e, Queue_init existing) \<and>
    fst (main_admin cmd now raw root existing) = Some (Raise e, Queue_init existing) \<and>
    fst (main_lookup_sync env f raw root) = Some (Raise e, [], [], [])"
  using assms
  by (simp add: main_policy_def main_receiver_def main_worker_def main_admin_def main_lookup_sync_def with_unusable)

theorem unusable_config_is_harmless_witness:
  "fst (main_admin Stats now (JObj [(''policy_socket'', JStr ''p''), (''lmtp_socket'', JStr ''l''), (''queue_db'', JStr ''q'')]) root None) =
    Some (Raise (KeyError ''lookup_file''), Queue_init None)"
proof -
  have "unusable (JObj [(''policy_socket'', JStr ''p''), (''lmtp_socket'', JStr ''l''), (''queue_db'', JStr ''q'')]) (KeyError ''lookup_file'')"
    unfolding unusable_def by (rule disjI1) (simp add: config_load_def sub_section_def get_default_def py_get_def dict_get_def subscript_def py_path_def)
  from unusable_config_is_harmless [OF this] show ?thesis by blast
qed

end
