(* ===== verification/Progress.thy ===== *)
theory Progress
  imports Cli
begin

text \<open>
  Two facts about whole histories: every table the program can build is well formed, and a
  worker without new mail comes to rest, because every delivery uses up one unit of a finite
  amount of work.
\<close>

section \<open>The schema\<close>

text \<open>C15 - type: every history of transactions keeps the table well typed. Starting from an empty
  database, whatever the order of the processes' transactions: identifiers and idempotency
  keys are unique, identifiers lie between 1 and the counter, every stored time reads back,
  attempt counts are not negative, a delivered row has its time and a dead letter its reason.\<close>

theorem schema_is_kept:
  assumes "list_all event_ok es" and "d = foldl apply_event (Queue_init None) es"
  shows "distinct (map r_id (db_rows d)) \<and> distinct (map r_idempotency_key (db_rows d)) \<and>
    (\<forall>r \<in> set (db_rows d). 1 \<le> r_id r \<and> r_id r \<le> sequence d \<and> 0 \<le> r_attempt_count r \<and>
       parse_ts (Some (r_received_at r)) \<noteq> None \<and>
       (r_next_attempt_at r \<noteq> None \<longrightarrow> parse_ts (r_next_attempt_at r) \<noteq> None) \<and>
       (r_state r = Delivered \<longrightarrow> parse_ts (r_delivered_at r) \<noteq> None) \<and>
       (r_state r = Dead_Letter \<longrightarrow> r_dead_letter_reason r \<noteq> None))"
proof -
  have inv: "db_inv d" unfolding assms(2) by (rule db_inv_events [OF assms(1) db_inv_init])
  have aware: "parse_ts (Some s) \<noteq> None" if "stored_aware s" for s
    using that by (auto simp: stored_aware_def parse_ts_def split: option.splits)
  have naive: "parse_ts (Some s) \<noteq> None" if "stored_naive s" for s
    using that by (auto simp: stored_naive_def parse_ts_def split: option.splits)
  have "1 \<le> r_id r \<and> r_id r \<le> sequence d \<and> 0 \<le> r_attempt_count r \<and>
       parse_ts (Some (r_received_at r)) \<noteq> None \<and>
       (r_next_attempt_at r \<noteq> None \<longrightarrow> parse_ts (r_next_attempt_at r) \<noteq> None) \<and>
       (r_state r = Delivered \<longrightarrow> parse_ts (r_delivered_at r) \<noteq> None) \<and>
       (r_state r = Dead_Letter \<longrightarrow> r_dead_letter_reason r \<noteq> None)" if "r \<in> set (db_rows d)" for r
  proof -
    have ok: "row_ok r" "1 \<le> r_id r" "r_id r \<le> sequence d" using inv that by (auto simp: db_inv_def)
    then have "r_next_attempt_at r \<noteq> None \<longrightarrow> parse_ts (r_next_attempt_at r) \<noteq> None"
      using naive by (cases "r_next_attempt_at r") (auto simp: row_ok_def)
    moreover have "r_state r = Delivered \<longrightarrow> parse_ts (r_delivered_at r) \<noteq> None"
      using ok aware by (cases "r_delivered_at r") (auto simp: row_ok_def)
    ultimately show ?thesis using ok aware by (simp add: row_ok_def)
  qed
  then show ?thesis using inv by (simp add: db_inv_def)
qed

theorem schema_is_kept_witness:
  "\<exists>r. db_rows (foldl apply_event (Queue_init None) [Enqueue (utc 5) sample_mail, Requeue, Mark_Dead_Letter 1 ''x'']) = [r] \<and>
     r_state r = Dead_Letter \<and> 1 \<le> r_id r \<and> r_dead_letter_reason r \<noteq> None"
proof -
  let ?es = "[Enqueue (utc 5) sample_mail, Requeue, Mark_Dead_Letter 1 ''x'']"
  obtain r where r: "db_rows (foldl apply_event (Queue_init None) ?es) = [r]" "r_state r = Dead_Letter"
    by (simp add: enqueue_def Let_def Queue_init_def find_key_def mark_dead_letter_def update_where_def requeue_in_flight_def)
  have "list_all event_ok ?es" by simp
  from schema_is_kept [OF this refl] r show ?thesis by (simp del: foldl.simps foldl_Cons apply_event.simps)
qed

section \<open>Work\<close>

text \<open>The deliveries a row can still get: at least one as long as it is not settled.\<close>

definition row_work :: "worker_config \<Rightarrow> row \<Rightarrow> nat" where
  "row_work cfg r = (if r_state r = Pending \<or> r_state r = In_Flight
     then nat (max 1 (max_attempts cfg - r_attempt_count r)) else 0)"

definition work :: "worker_config \<Rightarrow> db \<Rightarrow> nat" where
  "work cfg d = sum_list (map (row_work cfg) (db_rows d))"

lemma work_update:
  assumes "distinct (map r_id (db_rows d))" and "find_id i d = Some r"
  shows "work cfg (update_where (\<lambda>r. r_id r = i) f d) + row_work cfg r = work cfg d + row_work cfg (f r)"
proof -
  have "sum_list (map (row_work cfg) (map (\<lambda>r. if r_id r = i then f r else r) rs)) + row_work cfg r =
      sum_list (map (row_work cfg) rs) + row_work cfg (f r)"
    if "distinct (map r_id rs)" "List.find (\<lambda>r. r_id r = i) rs = Some r" for rs :: "row list"
    using that
  proof (induction rs)
    case (Cons x rs)
    show ?case
    proof (cases "r_id x = i")
      case True
      have "map (\<lambda>r. if r_id r = i then f r else r) rs = rs"
        using Cons.prems(1) True by (auto intro!: map_idI simp: image_iff)
      with True Cons.prems(2) show ?thesis by simp
    next
      case False
      with Cons show ?thesis by simp
    qed
  qed simp
  then show ?thesis using assms by (simp add: work_def update_where_def find_id_def)
qed

text \<open>An outcome uses up work of its row.\<close>

lemma outcome_work:
  assumes "db_inv d" and "find_id (qi_id item) d = Some r" and "r_state r = In_Flight"
    and "qi_attempt_count item = r_attempt_count r" and "outcome_event cfg env item ev" and "clock_ok (en_now env)"
  shows "work cfg (apply_event d ev) < work cfg d"
proof -
  have ids: "distinct (map r_id (db_rows d))" using assms(1) by (simp add: db_inv_def)
  note upd = work_update [OF ids assms(2), of cfg]
  have pos: "0 < row_work cfg r" using assms(3) by (simp add: row_work_def)
  show ?thesis
  proof (cases ev)
    case (Mark_Delivered now i mid)
    then show ?thesis
      using assms(5) pos upd [of "\<lambda>r. r\<lparr>r_state := Delivered, r_delivered_at := Some (iso_text (utcnow now)),
            r_delivered_message_id := mid, r_last_error := None\<rparr>"]
      by (simp add: mark_delivered_def row_work_def)
  next
    case (Mark_Dead_Letter i reason)
    then show ?thesis
      using assms(5) pos upd [of "\<lambda>r. r\<lparr>r_state := Dead_Letter, r_dead_letter_reason := Some reason, r_last_error := Some reason\<rparr>"]
      by (simp add: mark_dead_letter_def row_work_def)
  next
    case (Mark_Retry i n t err)
    have e: "i = qi_id item" "n = r_attempt_count r + 1" "n < max_attempts cfg" "clock_ok t"
      using assms(4-6) Mark_Retry by (auto dest: dt_add_clock)
    let ?f = "\<lambda>r. r\<lparr>r_state := Pending, r_attempt_count := n, r_next_attempt_at := Some (iso_text (replace_tz None t)),
        r_last_error := Some err\<rparr>"
    have "row_work cfg (?f r) < row_work cfg r" using e assms(3) by (simp add: row_work_def)
    then show ?thesis using upd [of ?f] e Mark_Retry by (simp add: mark_retry_clock)
  qed (use assms(5) in simp_all)
qed

text \<open>An item whose row is in flight with the item's attempt count.\<close>

definition fetched_from :: "db \<Rightarrow> queue_item \<Rightarrow> bool" where
  "fetched_from d item \<longleftrightarrow> (\<exists>r. find_id (qi_id item) d = Some r \<and> r_state r = In_Flight \<and> qi_attempt_count item = r_attempt_count r)"

lemma outcomes_work:
  assumes "db_inv d" and "\<forall>x \<in> set items. fetched_from d x" and "distinct (map qi_id items)" and "length evs \<le> length items"
    and "\<forall>j < length evs. outcome_event cfg (envs (n + j)) (items ! j) (evs ! j) \<and> clock_ok (en_now (envs (n + j)))"
  shows "work cfg (foldl apply_event d evs) + length evs \<le> work cfg d"
  using assms
proof (induction evs arbitrary: d items n)
  case (Cons ev evs)
  then obtain x xs where items: "items = x # xs" by (cases items) auto
  have ev: "outcome_event cfg (envs n) x ev" "clock_ok (en_now (envs n))"
    using Cons.prems(5) [rule_format, of 0] by (simp_all add: items)
  obtain r where r: "find_id (qi_id x) d = Some r" "r_state r = In_Flight" "qi_attempt_count x = r_attempt_count r"
    using Cons.prems(2) by (auto simp: items fetched_from_def)
  have less: "work cfg (apply_event d ev) < work cfg d" by (rule outcome_work [OF Cons.prems(1) r ev])
  have "0 \<le> r_attempt_count r" using find_id_Some [OF r(1)] Cons.prems(1) by (auto simp: db_inv_def row_ok_def)
  then have inv: "db_inv (apply_event d ev)"
    using outcome_event_ok [OF ev] r(3) Cons.prems(1) by (simp add: db_inv_apply_event)
  have "fetched_from (apply_event d ev) y" if "y \<in> set xs" for y
  proof -
    have "qi_id y \<noteq> qi_id x" using Cons.prems(3) imageI [OF that, of qi_id] by (auto simp: items)
    then show ?thesis using outcome_settles(2) [OF ev] Cons.prems(2) that by (simp add: items fetched_from_def)
  qed
  moreover have "\<forall>j < length evs. outcome_event cfg (envs (Suc n + j)) (xs ! j) (evs ! j) \<and> clock_ok (en_now (envs (Suc n + j)))"
  proof (intro allI impI)
    fix j assume "j < length evs"
    then show "outcome_event cfg (envs (Suc n + j)) (xs ! j) (evs ! j) \<and> clock_ok (en_now (envs (Suc n + j)))"
      using Cons.prems(5) [rule_format, of "Suc j"] by (simp add: items)
  qed
  ultimately have "work cfg (foldl apply_event (apply_event d ev) evs) + length evs \<le> work cfg (apply_event d ev)"
    using Cons.IH [OF inv, of xs "Suc n"] Cons.prems(3,4) by (simp add: items)
  with less show ?case by simp
qed simp

lemma work_dequeue: "db_inv d \<Longrightarrow> work cfg (snd (dequeue_batch tie now limit f d)) = work cfg d"
proof -
  assume inv: "db_inv d"
  let ?S = "select_due tie (iso_text (utcnow now)) limit d"
  have "row_work cfg (if r_id r \<in> r_id ` set ?S then set_state In_Flight r else r) = row_work cfg r"
    if r: "r \<in> set (db_rows d)" for r
  proof (cases "r_id r \<in> r_id ` set ?S")
    case True
    then obtain s where s: "s \<in> set ?S" "r_id s = r_id r" by auto
    have ids: "distinct (map r_id (db_rows d))" using inv by (simp add: db_inv_def)
    have sub: "s \<in> set (db_rows d)" "r_state s = Pending" using select_due_sub [OF s(1)] by (auto simp: due_def)
    have "find_id (r_id r) d = Some s" using find_id_in [OF ids sub(1)] s(2) by simp
    then have "s = r" using find_id_in [OF ids r] by simp
    then have "r_state r = Pending" using sub(2) by simp
    then show ?thesis by (simp add: row_work_def set_state_def)
  qed simp
  then have "work cfg (update_where (\<lambda>r. r_id r \<in> r_id ` set ?S) (set_state In_Flight) d) = work cfg d"
    by (auto simp: work_def update_where_def comp_def intro!: arg_cong [where f = sum_list] map_cong)
  then show ?thesis using dequeue_result [of tie now limit f d] by auto
qed

lemma dequeue_fetched:
  assumes "dequeue_batch tie now limit f d = (Ok items, q)" and "db_inv d" and "x \<in> set items"
  shows "fetched_from q x"
proof -
  obtain r where r: "r \<in> set (select_due tie (iso_text (utcnow now)) limit d)" "x = row_to_item now r"
    using dequeue_result [of tie now limit f d] assms by auto
  then have "find_id (qi_id x) d = Some r"
    using select_due_sub [OF r(1)] find_id_in [of d r] assms(2) by (simp add: db_inv_def)
  moreover have "find_id (qi_id x) q = map_option (set_state In_Flight) (find_id (qi_id x) d)"
    using find_id_dequeue [of "qi_id x" tie now limit f d] assms(1,3) by (cases "find_id (qi_id x) d") simp_all
  moreover have "qi_attempt_count x = r_attempt_count r" by (simp add: r(2) row_to_item_def)
  ultimately show ?thesis by (simp add: fetched_from_def set_state_def)
qed

section \<open>Rest\<close>

definition batch_of :: "worker_config \<Rightarrow> tick_env \<Rightarrow> worker \<Rightarrow> queue_item list" where
  "batch_of cfg te w = (case fst (dequeue_batch (tk_tie te) (tk_now te) (batch_size cfg) (tk_fault te) (wk_queue w)) of
     Inl e \<Rightarrow> [] | Inr items \<Rightarrow> items)"

text \<open>The number of deliveries that a run of polls starts.\<close>

fun deliveries :: "email_lib \<Rightarrow> worker_config \<Rightarrow> int \<Rightarrow> tick_env list \<Rightarrow> worker \<Rightarrow> nat" where
  "deliveries el cfg lim [] w = 0"
| "deliveries el cfg lim (te # tes) w =
     length (batch_of cfg te w) + deliveries el cfg lim tes (snd (tick el cfg lim te w))"

lemma tick_work:
  assumes "db_inv (wk_queue w)" and "tick_clocks_ok te" and "tick el cfg lim te w = (Ok (), w')"
  shows "work cfg (wk_queue w') + length (batch_of cfg te w) \<le> work cfg (wk_queue w)"
proof -
  obtain r q where dq: "dequeue_batch (tk_tie te) (tk_now te) (batch_size cfg) (tk_fault te) (wk_queue w) = (r, q)" by fastforce
  have q: "db_inv q" "work cfg q = work cfg (wk_queue w)"
    using db_inv_dequeue [OF assms(1)] work_dequeue [OF assms(1)] dq by (metis snd_conv)+
  show ?thesis
  proof (cases r)
    case (Inl e)
    then show ?thesis using assms(3) dq q(2) by (auto simp: tick_def batch_of_def)
  next
    case (Inr batch)
    obtain res w1 where p: "process_all el cfg (tk_items te) 0 batch (w\<lparr>wk_queue := q\<rparr>) = (res, w1)" by fastforce
    have res: "res = Ok ()" "wk_queue w' = wk_queue w1"
      using tick_cases [OF assms(3) _ p] dq Inr by auto
    from process_all_events [OF p] res(1) obtain evs where evs: "length evs = length batch"
      "wk_queue w1 = foldl apply_event q evs" "\<forall>j < length evs. outcome_event cfg (tk_items te (0 + j)) (batch ! j) (evs ! j)"
      by auto
    have "\<forall>x \<in> set batch. fetched_from q x" using dequeue_fetched dq Inr assms(1) by blast
    moreover have "distinct (map qi_id batch)" using in_flight_dequeue(2) [OF assms(1)] dq Inr by blast
    ultimately have "work cfg (foldl apply_event q evs) + length evs \<le> work cfg q"
      using evs(1,3) assms(2) by (intro outcomes_work [OF q(1), where n = 0]) (auto simp: tick_clocks_ok_def)
    then show ?thesis using dq Inr q(2) evs(1,2) res(2) by (simp add: batch_of_def)
  qed
qed

lemma row_work_bound: "0 \<le> r_attempt_count r \<Longrightarrow> row_work cfg r \<le> nat (max 1 (max_attempts cfg))"
  unfolding row_work_def by (cases "r_state r = Pending \<or> r_state r = In_Flight") (simp_all add: nat_mono max_def)

lemma work_bound: "db_inv d \<Longrightarrow> work cfg d \<le> length (db_rows d) * nat (max 1 (max_attempts cfg))"
proof -
  assume "db_inv d"
  then have "\<forall>r \<in> set (db_rows d). row_work cfg r \<le> nat (max 1 (max_attempts cfg))"
    by (auto intro!: row_work_bound simp: db_inv_def row_ok_def)
  then have "sum_list (map (row_work cfg) rs) \<le> length rs * nat (max 1 (max_attempts cfg))" if "set rs \<subseteq> set (db_rows d)" for rs
    using that by (induction rs) (auto intro: add_mono)
  then show ?thesis by (simp add: work_def)
qed

text \<open>C10 - termination: a worker without new mail comes to rest. However many polls it makes and
  whatever the data sources answer, the polls together start at most \<open>max_attempts\<close> deliveries
  for each mail of the table (one, if the limit is smaller than one): after that, every poll
  is empty. What is left to do shrinks with every delivery.\<close>

theorem deliveries_are_bounded:
  assumes "db_inv (wk_queue w)" and "list_all tick_clocks_ok tes" and "ticks el cfg lim tes w = (Ok (), w')"
  shows "deliveries el cfg lim tes w + work cfg (wk_queue w') \<le> work cfg (wk_queue w) \<and>
    deliveries el cfg lim tes w \<le> length (db_rows (wk_queue w)) * nat (max 1 (max_attempts cfg))"
proof -
  have "deliveries el cfg lim tes w + work cfg (wk_queue w') \<le> work cfg (wk_queue w)"
    using assms
  proof (induction tes arbitrary: w)
    case (Cons te tes)
    obtain w1 where t: "tick el cfg lim te w = (Ok (), w1)" "ticks el cfg lim tes w1 = (Ok (), w')"
      using Cons.prems(3) by (auto split: prod.splits sum.splits)
    have "db_inv (wk_queue w1)"
      using tick_keeps [of te w el cfg lim] Cons.prems(1,2) t(1) by (simp add: keeps_def)
    with Cons.IH [OF _ _ t(2)] Cons.prems(2) tick_work [OF Cons.prems(1) _ t(1)] t(1) show ?case by simp
  qed simp
  with work_bound [OF assms(1), of cfg] show ?thesis by simp
qed

theorem deliveries_are_bounded_witness:
  "deliveries (toy_lib (Ok toy_message)) default_worker_config 100 [toy_tick] toy_worker = 1 \<and>
   work default_worker_config (wk_queue (snd (tick (toy_lib (Ok toy_message)) default_worker_config 100 toy_tick toy_worker))) \<le> 3"
proof -
  obtain w' where t: "tick (toy_lib (Ok toy_message)) default_worker_config 100 toy_tick toy_worker = (Ok (), w')"
    by (rule toy_tick_returns)
  then have run: "ticks (toy_lib (Ok toy_message)) default_worker_config 100 [toy_tick] toy_worker = (Ok (), w')" by simp
  have "db_inv (wk_queue toy_worker)" by (simp add: toy_worker_def)
  moreover have "list_all tick_clocks_ok [toy_tick]" by (simp add: tick_clocks_ok_def toy_env)
  moreover have one: "deliveries (toy_lib (Ok toy_message)) default_worker_config 100 [toy_tick] toy_worker = 1"
    using toy_batch by (simp add: batch_of_def)
  moreover have "work default_worker_config (wk_queue toy_worker) = 4"
    by (simp add: work_def toy_worker_def sample_db_eq row_work_def toy_config new_row_def)
  ultimately show ?thesis using deliveries_are_bounded [OF _ _ run] t by simp
qed

end
