(* ===== verification/Polls.thy ===== *)
theory Polls
  imports Progress
begin

text \<open>
  Polls under a steady environment. A contract says what one delivery does to the row it is
  for; under it, a poll returns and has done that to exactly the rows of its batch. The contract
  is a locale, interpreted for data sources that confirm (\<open>Drain\<close>) and for data sources that
  are down (\<open>Outage\<close>).
\<close>

lemma find_list_all2:
  assumes "list_all2 R xs ys" and "\<And>x y. R x y \<Longrightarrow> f y = f x" and "List.find (\<lambda>x. f x = k) xs = Some x"
  shows "\<exists>y. List.find (\<lambda>x. f x = k) ys = Some y \<and> R x y"
  using assms(1,3)
proof (induction rule: list_all2_induct)
  case (Cons x xs y ys)
  then show ?case using assms(2) [OF Cons.hyps(1)] by (auto split: if_splits)
qed simp

section \<open>Steady environments\<close>

text \<open>A poll none of whose own statements fails.\<close>

definition smooth :: "tick_env \<Rightarrow> bool" where
  "smooth te \<longleftrightarrow> tk_fault te = No_Fault \<and> tk_stats te = None \<and> (\<forall>e. tk_smtp te \<noteq> Build_Raises e)"

text \<open>A delivery whose own statements do not fail, over a lookup that does not change.\<close>

definition steady :: "lookup_table \<Rightarrow> delivery_env \<Rightarrow> bool" where
  "steady t env \<longleftrightarrow> en_fault env = None \<and> (\<forall>e. en_smtp env \<noteq> Build_Raises e) \<and> clock_ok (en_now env) \<and>
     settled (en_obs env) t"

text \<open>
  A mail that can be sent, and one that the worker can settle at all: the parser returns or
  raises its own error (what an unexpected exception of it does is the subject of
  \<open>poison_blocks_queue\<close>).
\<close>

definition deliverable :: "email_lib \<Rightarrow> lookup_table \<Rightarrow> row \<Rightarrow> bool" where
  "deliverable el t r \<longleftrightarrow> find_ds t (r_ds_id r) \<noteq> None \<and> (\<exists>parsed. parse_eml el (r_raw_eml r) = Ok parsed)"

definition can_settle :: "email_lib \<Rightarrow> lookup_table \<Rightarrow> row \<Rightarrow> bool" where
  "can_settle el t r \<longleftrightarrow> find_ds t (r_ds_id r) = None \<or>
     (case parse_eml el (r_raw_eml r) of Inr parsed \<Rightarrow> True | Inl (ParseError exc) \<Rightarrow> True | Inl e \<Rightarrow> False)"

text \<open>A row that an outcome has been recorded in: the mail is the same, the state is the given one.\<close>

definition same_mail :: "row \<Rightarrow> qstate \<Rightarrow> row \<Rightarrow> bool" where
  "same_mail r s r' \<longleftrightarrow> r_id r' = r_id r \<and> payload r' = payload r \<and> r_state r' = s"

definition updates_row :: "row \<Rightarrow> row \<Rightarrow> worker \<Rightarrow> worker \<Rightarrow> bool" where
  "updates_row r r' w w' \<longleftrightarrow> wk_lookup w' = wk_lookup w \<and> (\<exists>D. D (set_state In_Flight r) = r' \<and>
     wk_queue w' = update_where (\<lambda>x. r_id x = r_id r) D (wk_queue w))"

lemma can_settle_same: "payload r' = payload r \<Longrightarrow> can_settle el t r' = can_settle el t r"
  by (simp add: can_settle_def payload_def)

lemma deliverable_same: "payload r' = payload r \<Longrightarrow> deliverable el t r' = deliverable el t r"
  by (simp add: deliverable_def payload_def)

text \<open>What cannot be sent is a dead letter.\<close>

lemma process_undeliverable:
  assumes "steady (wk_lookup w) env" and "can_settle el (wk_lookup w) r" and "\<not> deliverable el (wk_lookup w) r"
  shows "\<exists>r' w'. process el cfg env (row_to_item now r) w = (Ok (), w') \<and> updates_row r r' w w' \<and>
    same_mail r Dead_Letter r' \<and> r_attempt_count r' = r_attempt_count r"
proof -
  let ?item = "row_to_item now r"
  have it: "qi_id ?item = r_id r" "qi_ds_id ?item = r_ds_id r" "qi_raw_eml ?item = r_raw_eml r"
    by (simp_all add: row_to_item_def)
  have rs: "resolve (en_obs env) (r_ds_id r) (wk_lookup w) = Ok (find_ds (wk_lookup w) (r_ds_id r), wk_lookup w)"
    using assms(1) by (simp add: steady_def settled_def resolve_def)
  have same: "w\<lparr>wk_lookup := wk_lookup w\<rparr> = w" by simp
  have "\<exists>reason. process el cfg env ?item w = dead_letter env ?item reason w"
    using assms(2,3) rs
    by (cases "find_ds (wk_lookup w) (r_ds_id r)")
      (auto simp: process_def Let_def it same can_settle_def deliverable_def split: sum.splits exn.splits)
  then obtain reason where p: "process el cfg env ?item w = dead_letter env ?item reason w" by blast
  obtain res w' where d: "dead_letter env ?item reason w = (res, w')" by fastforce
  have out: "res = Ok ()" "wk_lookup w' = wk_lookup w" "wk_queue w' = mark_dead_letter (r_id r) reason (wk_queue w)"
    using dead_letter_cases [OF d] assms(1) by (auto simp: steady_def it)
  let ?D = "\<lambda>x. x\<lparr>r_state := Dead_Letter, r_dead_letter_reason := Some reason, r_last_error := Some reason\<rparr>"
  have "updates_row r (?D (set_state In_Flight r)) w w'"
    unfolding updates_row_def using out(2,3) by (intro conjI exI [of _ ?D]) (simp_all add: mark_dead_letter_def)
  then show ?thesis
    using p d out(1) by (intro exI [of _ "?D (set_state In_Flight r)"] exI [of _ w'])
      (simp add: same_mail_def set_state_def payload_def)
qed

section \<open>The contract\<close>

locale poll_contract =
  fixes el :: email_lib and cfg :: worker_config and t :: lookup_table
    and ok_env :: "delivery_env \<Rightarrow> bool" and ok_row :: "row \<Rightarrow> bool"
    and becomes :: "delivery_env \<Rightarrow> row \<Rightarrow> row \<Rightarrow> bool"
  assumes delivers: "ok_env env \<Longrightarrow> wk_lookup w = t \<Longrightarrow> row_ok r \<Longrightarrow> ok_row r \<Longrightarrow>
      \<exists>r' w'. process el cfg env (row_to_item now r) w = (Ok (), w') \<and> updates_row r r' w w' \<and> becomes env r r'"
    and same_id: "becomes env r r' \<Longrightarrow> r_id r' = r_id r"
    and clocks: "ok_env env \<Longrightarrow> clock_ok (en_now env)"
begin

text \<open>How the rows stand in the middle of a batch: settled, still in flight, or not of the batch.\<close>

definition midway :: "(nat \<Rightarrow> delivery_env) \<Rightarrow> int set \<Rightarrow> int set \<Rightarrow> row \<Rightarrow> row \<Rightarrow> bool" where
  "midway envs done_ids left r r' \<longleftrightarrow> (if r_id r \<in> left then r' = set_state In_Flight r
     else if r_id r \<in> done_ids then \<exists>j. becomes (envs j) r r' else r' = r)"

lemma midway_id: "midway envs ds left r r' \<Longrightarrow> r_id r' = r_id r"
  using same_id by (auto simp: midway_def set_state_def split: if_splits)

lemma midway_step:
  assumes "list_all2 (midway envs ds (insert (r_id r) left)) rows (db_rows d)" and "distinct (map r_id rows)"
    and "r \<in> set rows" and "r_id r \<notin> left" and "becomes (envs j) r (D (set_state In_Flight r))"
  shows "list_all2 (midway envs (insert (r_id r) ds) left) rows (db_rows (update_where (\<lambda>x. r_id x = r_id r) D d))"
proof -
  have "midway envs (insert (r_id r) ds) left x (if r_id x' = r_id r then D x' else x')"
    if "x \<in> set rows" "midway envs ds (insert (r_id r) left) x x'" for x x'
  proof (cases "r_id x = r_id r")
    case True
    then have "x = r" using assms(2,3) that(1) by (auto simp: distinct_map inj_on_def)
    moreover have "x' = set_state In_Flight r" using that(2) True \<open>x = r\<close> by (simp add: midway_def)
    ultimately show ?thesis using assms(4,5) by (auto simp: midway_def set_state_def)
  next
    case False
    then show ?thesis using that(2) midway_id [OF that(2)] by (auto simp: midway_def)
  qed
  then have "list_all2 (midway envs (insert (r_id r) ds) left) rows (map (\<lambda>x. if r_id x = r_id r then D x else x) (db_rows d))"
    unfolding list_all2_map2 using assms(1) by (auto simp: list_all2_conv_all_nth)
  then show ?thesis by (simp add: update_where_def)
qed

lemma batch_outcome:
  assumes "\<And>j. ok_env (envs j)" and "distinct (map r_id rows)"
  shows "wk_lookup w = t \<Longrightarrow> distinct (map r_id rs) \<Longrightarrow> set rs \<subseteq> set rows \<Longrightarrow> (\<And>r. r \<in> set rs \<Longrightarrow> row_ok r \<and> ok_row r) \<Longrightarrow>
    list_all2 (midway envs ds (r_id ` set rs)) rows (db_rows (wk_queue w)) \<Longrightarrow>
    \<exists>w'. process_all el cfg envs n (map (row_to_item now) rs) w = (Ok (), w') \<and> wk_lookup w' = t \<and>
      list_all2 (midway envs (ds \<union> r_id ` set rs) {}) rows (db_rows (wk_queue w'))"
proof (induction rs arbitrary: n w ds)
  case (Cons r rs)
  obtain r' w1 where p: "process el cfg (envs n) (row_to_item now r) w = (Ok (), w1)" "updates_row r r' w w1" "becomes (envs n) r r'"
    using delivers [OF assms(1) Cons.prems(1), of r n now] Cons.prems(4) [of r] by auto
  obtain D where D: "D (set_state In_Flight r) = r'" "wk_queue w1 = update_where (\<lambda>x. r_id x = r_id r) D (wk_queue w)" "wk_lookup w1 = t"
    using p(2) Cons.prems(1) by (auto simp: updates_row_def)
  have "list_all2 (midway envs (insert (r_id r) ds) (r_id ` set rs)) rows (db_rows (wk_queue w1))"
    unfolding D(2) using Cons.prems(2,3,5) p(3)
    by (intro midway_step [OF _ assms(2), where j = n]) (auto simp: D(1))
  then have "\<exists>w'. process_all el cfg envs (Suc n) (map (row_to_item now) rs) w1 = (Ok (), w') \<and> wk_lookup w' = t \<and>
      list_all2 (midway envs (insert (r_id r) ds \<union> r_id ` set rs) {}) rows (db_rows (wk_queue w'))"
    using Cons.prems(2-4) D(3) by (intro Cons.IH) auto
  then show ?case using p(1) by simp
qed simp

text \<open>A poll returns, with the rows of its batch settled and every other row as it was.\<close>

lemma poll_outcome:
  assumes "db_inv (wk_queue w)" and "smooth te" and "\<And>j. ok_env (tk_items te j)" and "wk_lookup w = t"
    and "\<And>r. r \<in> set (db_rows (wk_queue w)) \<Longrightarrow> r_state r = Pending \<Longrightarrow> ok_row r"
    and "rs = select_due (tk_tie te) (iso_text (utcnow (tk_now te))) (batch_size cfg) (wk_queue w)"
  shows "\<exists>w'. tick el cfg lim te w = (Ok (), w') \<and> wk_lookup w' = t \<and> db_inv (wk_queue w') \<and>
    list_all2 (\<lambda>r r'. if r \<in> set rs then \<exists>j. becomes (tk_items te j) r r' else r' = r)
      (db_rows (wk_queue w)) (db_rows (wk_queue w'))"
proof -
  let ?I = "r_id ` set rs" and ?rows = "db_rows (wk_queue w)"
  let ?q = "update_where (\<lambda>r. r_id r \<in> ?I) (set_state In_Flight) (wk_queue w)"
  have ids: "distinct (map r_id ?rows)" using assms(1) by (simp add: db_inv_def)
  have d: "dequeue_batch (tk_tie te) (tk_now te) (batch_size cfg) (tk_fault te) (wk_queue w) =
      (Ok (map (row_to_item (tk_now te)) rs), ?q)"
    using dequeue_result [of "tk_tie te" "tk_now te" "batch_size cfg" No_Fault "wk_queue w"] assms(2,6)
    by (auto simp: smooth_def dequeue_batch_def Let_def split: if_splits)
  have rs: "row_ok r \<and> ok_row r" if "r \<in> set rs" for r
    using assms(1,5,6) select_due_sub that by (auto simp: due_def db_inv_def)
  have sub: "set rs \<subseteq> set ?rows" using assms(6) select_due_sub by blast
  have "list_all2 (midway (tk_items te) {} ?I) ?rows (db_rows (wk_queue (w\<lparr>wk_queue := ?q\<rparr>)))"
    by (simp add: update_where_def list_all2_map2 list_all2_same midway_def)
  then obtain w1 where p: "process_all el cfg (tk_items te) 0 (map (row_to_item (tk_now te)) rs) (w\<lparr>wk_queue := ?q\<rparr>) = (Ok (), w1)"
    "wk_lookup w1 = t" "list_all2 (midway (tk_items te) ?I {}) ?rows (db_rows (wk_queue w1))"
    using batch_outcome [of "tk_items te" ?rows "w\<lparr>wk_queue := ?q\<rparr>" rs "{}" 0 "tk_now te"] assms(3,4,6) ids rs sub select_due_ids [OF assms(1)]
    by auto
  obtain res w' where m: "maybe_alert_queue_size (tk_stats te) (tk_mono te) (tk_smtp te) lim w1 = (res, w')" by fastforce
  have "res = Ok ()" using maybe_alert_Ok [of "tk_smtp te" "tk_mono te" lim w1] assms(2) m by (simp add: smooth_def)
  moreover have "wk_queue w' = wk_queue w1" "wk_lookup w' = wk_lookup w1"
    using maybe_alert_same [of "tk_stats te" "tk_mono te" "tk_smtp te" lim w1] by (simp_all add: m)
  moreover have "x \<in> set rs \<longleftrightarrow> r_id x \<in> ?I" if "x \<in> set ?rows" for x
    using that sub ids by (auto simp: distinct_map inj_on_def)
  then have "list_all2 (\<lambda>r r'. if r \<in> set rs then \<exists>j. becomes (tk_items te j) r r' else r' = r) ?rows (db_rows (wk_queue w1))"
    using p(3) by (auto simp: list_all2_conv_all_nth midway_def)
  ultimately have out: "tick el cfg lim te w = (Ok (), w')" "wk_lookup w' = t"
    "list_all2 (\<lambda>r r'. if r \<in> set rs then \<exists>j. becomes (tk_items te j) r r' else r' = r) ?rows (db_rows (wk_queue w'))"
    using d p(1,2) m by (simp_all add: tick_def)
  moreover have "db_inv (wk_queue w')"
    using tick_keeps [of te w el cfg lim] out(1) assms(1,3) clocks by (simp add: keeps_def tick_clocks_ok_def)
  ultimately show ?thesis by blast
qed

end

end
