(* ===== verification/End_To_End.thy ===== *)
theory End_To_End
  imports Drain
begin

text \<open>
  A whole LMTP transaction, as \<open>aiosmtpd\<close> drives the handler: one \<open>handle_RCPT\<close> per recipient
  command, then \<open>handle_DATA\<close>; and the way of its message through the policy server's verdict, the
  receiver, the queue and the worker to the data sources.
\<close>

section \<open>A transaction\<close>

text \<open>The recipient commands in their order; the \<open>n\<close>-th one makes the \<open>n\<close>-th pair of observations.\<close>

fun rcpt_commands :: "(nat \<Rightarrow> obs \<times> obs) \<Rightarrow> nat \<Rightarrow> string list \<Rightarrow> envelope \<Rightarrow> lookup_table \<Rightarrow>
    string result list \<times> envelope \<times> lookup_table" where
  "rcpt_commands obs n [] envelope t = ([], envelope, t)"
| "rcpt_commands obs n (address # rest) envelope t =
    (case handle_RCPT (fst (obs n)) (snd (obs n)) address envelope t of (reply1, envelope1, t1) \<Rightarrow>
     case rcpt_commands obs (Suc n) rest envelope1 t1 of (answers, envelope2, t2) \<Rightarrow>
       (reply1 # answers, envelope2, t2))"

definition transaction :: "email_lib \<Rightarrow> (nat \<Rightarrow> obs \<times> obs) \<Rightarrow> (nat \<Rightarrow> rcpt_env) \<Rightarrow> string \<Rightarrow> string \<Rightarrow> string list \<Rightarrow> receiver \<Rightarrow>
    string result list \<times> string result \<times> receiver" where
  "transaction el obs envs content sender addresses r =
    (case rcpt_commands obs 0 addresses \<lparr>env_content = Some content, env_mail_from = Some sender, env_rcpt_tos = []\<rparr> (rc_lookup r) of
      (answers, envelope, t) \<Rightarrow> (case handle_DATA el envs envelope (r\<lparr>rc_lookup := t\<rparr>) of
        (reply1, r') \<Rightarrow> (answers, reply1, r')))"

section \<open>Over a settled table\<close>

lemma rcpt_commands_settled:
  assumes "\<And>n. settled (fst (obs n)) t" and "\<And>n. settled (snd (obs n)) t"
  shows "\<exists>answers. rcpt_commands obs n addresses envelope t = (answers,
      envelope\<lparr>env_rcpt_tos := env_rcpt_tos envelope @ filter (serves t) addresses\<rparr>, t) \<and>
    list_all2 (\<lambda>reply1 address. reply1 = Ok ''250 OK'' \<longleftrightarrow> serves t address) answers addresses"
proof (induction addresses arbitrary: n envelope)
  case (Cons address rest)
  obtain reply1 where a: "handle_RCPT (fst (obs n)) (snd (obs n)) address envelope t = (reply1,
      if serves t address then envelope\<lparr>env_rcpt_tos := env_rcpt_tos envelope @ [address]\<rparr> else envelope, t)"
    "reply1 = Ok ''250 OK'' \<longleftrightarrow> serves t address"
    using handle_RCPT_settled [OF assms] by blast
  from Cons [of "Suc n" "if serves t address then envelope\<lparr>env_rcpt_tos := env_rcpt_tos envelope @ [address]\<rparr> else envelope"]
  obtain answers where "rcpt_commands obs (Suc n) rest
      (if serves t address then envelope\<lparr>env_rcpt_tos := env_rcpt_tos envelope @ [address]\<rparr> else envelope) t = (answers,
        envelope\<lparr>env_rcpt_tos := env_rcpt_tos envelope @ filter (serves t) (address # rest)\<rparr>, t)"
    "list_all2 (\<lambda>reply1 address. reply1 = Ok ''250 OK'' \<longleftrightarrow> serves t address) answers rest"
    by (auto split: if_splits)
  with a show ?case by auto
qed simp

lemma transaction_settled:
  assumes "\<And>n. settled (fst (obs n)) (rc_lookup r)" and "\<And>n. settled (snd (obs n)) (rc_lookup r)"
    and "transaction el obs envs content sender addresses r = (answers, reply1, r')"
  shows "handle_DATA el envs \<lparr>env_content = Some content, env_mail_from = Some sender,
      env_rcpt_tos = filter (serves (rc_lookup r)) addresses\<rparr> r = (reply1, r') \<and>
    list_all2 (\<lambda>reply1 address. reply1 = Ok ''250 OK'' \<longleftrightarrow> serves (rc_lookup r) address) answers addresses"
proof -
  let ?env = "\<lparr>env_content = Some content, env_mail_from = Some sender, env_rcpt_tos = []\<rparr>"
  have "\<exists>answers. rcpt_commands obs 0 addresses ?env (rc_lookup r) = (answers,
      ?env\<lparr>env_rcpt_tos := env_rcpt_tos ?env @ filter (serves (rc_lookup r)) addresses\<rparr>, rc_lookup r) \<and>
    list_all2 (\<lambda>reply1 address. reply1 = Ok ''250 OK'' \<longleftrightarrow> serves (rc_lookup r) address) answers addresses"
    by (rule rcpt_commands_settled) (rule assms(1), rule assms(2))
  moreover have "r\<lparr>rc_lookup := rc_lookup r\<rparr> = r" by simp
  ultimately show ?thesis using assms(3) by (auto simp: transaction_def split: prod.splits)
qed

section \<open>The rows of an acknowledged message\<close>

definition unsettled :: "db \<Rightarrow> int" where
  "unsettled d = count_where (\<lambda>r. r_state r = Pending \<or> r_state r = In_Flight) d"

text \<open>The receiver adds at most one row per recipient, and only rows of the mails it has made.\<close>

lemma enqueue_rows: "set (db_rows (snd (enqueue now m d))) \<subseteq> insert (new_row now (sequence d + 1) m) (set (db_rows d)) \<and>
    unsettled (snd (enqueue now m d)) \<le> unsettled d + 1"
  by (auto simp: enqueue_def Let_def unsettled_def count_where_def split: option.splits)

lemma enqueue_all_rows:
  "(\<forall>x \<in> set (db_rows (rc_queue (snd (enqueue_all mid raw sender xs r)))). x \<in> set (db_rows (rc_queue r)) \<or>
      (\<exists>now i. \<exists>m \<in> set (mails_made mid raw sender xs (domains_read xs (rc_lookup r))). x = new_row now i m)) \<and>
    unsettled (rc_queue (snd (enqueue_all mid raw sender xs r))) \<le> unsettled (rc_queue r) + int (length xs)"
proof (induction mid raw sender xs r rule: enqueue_all.induct)
  case (2 mid raw sender rcpt e rest r)
  show ?case
  proof (cases "allowed_domains (re_obs e) (rc_lookup r)")
    case (Inr dt)
    obtain D t where dt: "dt = (D, t)" by (cases dt)
    show ?thesis
    proof (cases "parse_recipient rcpt D")
      case None
      then show ?thesis using "2.IH"(1) [OF Inr dt [symmetric] refl None] Inr dt by simp
    next
      case (Some p)
      show ?thesis
      proof (cases "re_fault e")
        case None
        then show ?thesis
          using "2.IH"(2) [OF Inr dt [symmetric] refl Some None] Inr dt Some
            enqueue_rows [of "re_now e" "rcpt_mail mid raw sender (re_uuid e) p rcpt" "rc_queue r"]
          by simp blast
      qed (use Inr dt Some in simp)
    qed
  qed simp
qed simp

lemma pending_requeue: "pending_count (snd (requeue_in_flight d)) = unsettled d"
proof -
  have "length (filter (\<lambda>r. r_state r = Pending)
      (map (\<lambda>r. if r_state r = In_Flight then r\<lparr>r_state := Pending, r_next_attempt_at := None\<rparr> else r) rs)) =
    length (filter (\<lambda>r. r_state r = Pending \<or> r_state r = In_Flight) rs)" for rs :: "row list"
    by (induction rs) auto
  then show ?thesis by (simp add: requeue_in_flight_def update_where_def pending_count_def unsettled_def count_where_def)
qed

lemma requeue_rows:
  "x \<in> set (db_rows (snd (requeue_in_flight d))) \<Longrightarrow> r_state x = Pending \<Longrightarrow>
    \<exists>y \<in> set (db_rows d). (r_state y = Pending \<or> r_state y = In_Flight) \<and> payload x = payload y"
  by (auto simp: requeue_in_flight_def update_where_def payload_def split: if_splits)

lemma requeue_find_pending:
  assumes "find_key k d = Some x" and "r_state x = Pending"
  shows "find_key k (snd (requeue_in_flight d)) = Some x"
proof -
  have "List.find (\<lambda>r. r_idempotency_key r = k) (map (\<lambda>r. if r_state r = In_Flight then f r else r) rs) = Some x"
    if "List.find (\<lambda>r. r_idempotency_key r = k) rs = Some x" "\<And>r. r_idempotency_key (f r) = r_idempotency_key r" for rs f
    using that assms(2) by (induction rs) (auto split: if_splits)
  then show ?thesis using assms(1) by (simp add: requeue_in_flight_def update_where_def find_key_def)
qed

text \<open>A new pending row is settled by enough healthy polls.\<close>

lemma enough_polls_deliver:
  assumes "db_inv (wk_queue w)" and "0 \<le> batch_size cfg" and "list_all (healthy (wk_lookup w)) tes"
    and "\<And>r. r \<in> set (db_rows (wk_queue w)) \<Longrightarrow> r_state r = Pending \<or> r_state r = In_Flight \<Longrightarrow> can_settle el (wk_lookup w) r"
    and "unsettled (wk_queue w) \<le> int (length tes) * batch_size cfg"
  shows "\<exists>w'. run_forever el cfg lim None tes w = (Ok (), w') \<and> (\<forall>k x. find_key k (wk_queue w) = Some x \<longrightarrow>
    r_state x = Pending \<longrightarrow> r_next_attempt_at x = None \<longrightarrow> deliverable el (wk_lookup w) x \<longrightarrow>
    (\<exists>y. find_key k (wk_queue w') = Some y \<and> same_mail x Delivered y))"
proof -
  let ?q = "snd (requeue_in_flight (wk_queue w))" and ?t = "wk_lookup w"
  let ?w = "w\<lparr>wk_queue := ?q\<rparr>"
  have settle: "can_settle el (wk_lookup ?w) r" if "r \<in> set (db_rows (wk_queue ?w))" "r_state r = Pending" for r
  proof -
    have "r \<in> set (db_rows ?q)" using that(1) by simp
    from requeue_rows [OF this that(2)] obtain y where "y \<in> set (db_rows (wk_queue w))"
      "r_state y = Pending \<or> r_state y = In_Flight" "payload r = payload y" by blast
    then show ?thesis using assms(4) [of y] can_settle_same [of r y el "wk_lookup ?w"] by simp
  qed
  obtain w' where w': "ticks el cfg lim tes ?w = (Ok (), w')"
    "list_all2 (kept_or_settled el ?t tes) (db_rows ?q) (db_rows (wk_queue w'))"
    "pending_count ?q - pending_count (wk_queue w') = int (length tes) * batch_size cfg \<or>
     (\<forall>r \<in> set (db_rows (wk_queue w')). \<not> (always_due tes r \<and> r_state r = Pending))"
    using healthy_drain [of ?w cfg tes el lim] db_inv_requeue [OF assms(1)] assms(2,3) settle by auto
  have none: "\<not> (always_due tes r \<and> r_state r = Pending)" if r: "r \<in> set (db_rows (wk_queue w'))" for r
  proof
    assume d: "always_due tes r \<and> r_state r = Pending"
    then have "pending_count (wk_queue w') \<le> 0" using w'(3) assms(5) r pending_requeue [of "wk_queue w"] by auto
    then show False using d r by (auto simp: pending_count_def count_where_def filter_empty_conv)
  qed
  have "\<exists>y. find_key k (wk_queue w') = Some y \<and> same_mail x Delivered y"
    if x: "find_key k (wk_queue w) = Some x" "r_state x = Pending" "r_next_attempt_at x = None" "deliverable el ?t x" for k x
  proof -
    have "List.find (\<lambda>r. r_idempotency_key r = k) (db_rows ?q) = Some x"
      using requeue_find_pending [OF x(1,2)] by (simp add: find_key_def)
    from find_list_all2 [OF w'(2) _ this] obtain y where y: "find_key k (wk_queue w') = Some y" "kept_or_settled el ?t tes x y"
      by (auto simp: find_key_def kept_or_settled_def final_row_def same_mail_def payload_def)
    have "always_due tes x" using x(2,3) by (simp add: always_due_def due_def list_all_iff)
    then have "y \<noteq> x" using none find_key_Some [OF y(1)] x(2) by blast
    then show ?thesis using y x(4) by (auto simp: kept_or_settled_def final_row_def)
  qed
  with w'(1) show ?thesis by (intro exI [of _ w']) (simp add: run_forever_def)
qed

lemma accepted_is_delivered:
  assumes "handle_DATA el envs envelope r = (Ok ''250 OK'', r')" and "extract_message_id el (opt_str (env_content envelope)) = Ok mid"
    and "tos = env_rcpt_tos envelope" and "Ds = domains_read (with_envs envs tos) (rc_lookup r)"
    and "accepted = (\<lambda>i p. i < length tos \<and> parse_recipient (tos ! i) (Ds ! i) = Some p)"
    and "key = (\<lambda>i p. rcpt_key mid p (tos ! i) (re_uuid (envs i)))"
    and "\<And>i. clock_ok (re_now (envs i))" and "db_inv (rc_queue r)" and "parse_eml el (opt_str (env_content envelope)) = Ok parsed"
    and "\<forall>x \<in> set (db_rows (rc_queue r)). r_state x = Pending \<or> r_state x = In_Flight \<longrightarrow> can_settle el (wk_lookup w) x"
    and "\<forall>i p. accepted i p \<longrightarrow> find_ds (wk_lookup w) (pa_ds_id p) \<noteq> None"
    and "wk_queue w = rc_queue r'" and "0 \<le> batch_size cfg" and "list_all (healthy (wk_lookup w)) tes"
    and "unsettled (rc_queue r) + int (length tos) \<le> int (length tes) * batch_size cfg"
  shows "\<exists>w'. run_forever el cfg lim None tes w = (Ok (), w') \<and> (\<forall>i p. accepted i p \<longrightarrow> find_key (key i p) (rc_queue r) = None \<longrightarrow>
    (\<forall>j < i. \<forall>q. accepted j q \<longrightarrow> key j q \<noteq> key i p) \<longrightarrow> (\<exists>row. find_key (key i p) (wk_queue w') = Some row \<and>
      r_state row = Delivered \<and> payload row = rcpt_mail mid (opt_str (env_content envelope)) (opt_str (env_mail_from envelope))
        (re_uuid (envs i)) p (tos ! i)))"
proof -
  let ?raw = "opt_str (env_content envelope)" and ?from = "opt_str (env_mail_from envelope)" and ?xs = "with_envs envs tos"
  have run: "r' = snd (enqueue_all mid ?raw ?from ?xs r)"
    using handle_DATA_cases(1) [OF assms(1,2) refl] by (simp add: assms(3))
  have made: "deliverable el (wk_lookup w) (new_row now i m)" if "m \<in> set (mails_made mid ?raw ?from ?xs Ds)" for now i m
  proof -
    from mails_made_member [OF that] obtain j p where j: "accepted j p" "m_ds_id m = pa_ds_id p" "m_raw_eml m = ?raw"
      by (auto simp: assms(5) rcpt_mail_def)
    then show ?thesis using assms(9) assms(11) [rule_format, OF j(1)] by (simp add: deliverable_def new_row_def)
  qed
  have rows: "x \<in> set (db_rows (rc_queue r)) \<or> r_state x = Pending \<and> r_next_attempt_at x = None \<and> deliverable el (wk_lookup w) x"
    if x: "x \<in> set (db_rows (wk_queue w))" for x
  proof -
    have "x \<in> set (db_rows (rc_queue r)) \<or> (\<exists>now i. \<exists>m \<in> set (mails_made mid ?raw ?from ?xs Ds). x = new_row now i m)"
      using enqueue_all_rows [of mid ?raw ?from ?xs r] x by (auto simp: assms(4,12) run)
    then show ?thesis using made by (auto simp: new_row_def)
  qed
  have "unsettled (wk_queue w) \<le> unsettled (rc_queue r) + int (length tos)"
    using enqueue_all_rows [of mid ?raw ?from ?xs r] by (simp add: assms(12) run)
  with assms(15) have enough: "unsettled (wk_queue w) \<le> int (length tes) * batch_size cfg" by linarith
  have inv: "db_inv (wk_queue w)" using data_stores(3) [OF assms(1,2,7,8,3)] by (simp add: assms(12))
  have "can_settle el (wk_lookup w) x" if "x \<in> set (db_rows (wk_queue w))" "r_state x = Pending \<or> r_state x = In_Flight" for x
    using rows [OF that(1)] assms(10) that(2) deliverable_can_settle by blast
  from enough_polls_deliver [OF inv assms(13,14) this enough, of lim] obtain w' where
    w': "run_forever el cfg lim None tes w = (Ok (), w')" and all: "\<forall>k x. find_key k (wk_queue w) = Some x \<longrightarrow>
      r_state x = Pending \<longrightarrow> r_next_attempt_at x = None \<longrightarrow> deliverable el (wk_lookup w) x \<longrightarrow>
      (\<exists>y. find_key k (wk_queue w') = Some y \<and> same_mail x Delivered y)"
    by blast
  have "\<exists>row. find_key (key i p) (wk_queue w') = Some row \<and> r_state row = Delivered \<and>
      payload row = rcpt_mail mid ?raw ?from (re_uuid (envs i)) p (tos ! i)"
    if acc: "accepted i p" and new: "find_key (key i p) (rc_queue r) = None" "\<forall>j < i. \<forall>q. accepted j q \<longrightarrow> key j q \<noteq> key i p" for i p
  proof -
    have "key_view (rc_queue r) (key i p) = None" using new(1) by (simp add: key_view_def)
    then have "key_view (wk_queue w) (key i p) = Some (rcpt_mail mid ?raw ?from (re_uuid (envs i)) p (tos ! i), Pending, 0)"
      using ack_stores(3) [OF assms(1-6) acc] new(2) by (simp add: assms(12))
    then obtain x where x: "find_key (key i p) (wk_queue w) = Some x" "payload x = rcpt_mail mid ?raw ?from (re_uuid (envs i)) p (tos ! i)"
      "r_state x = Pending"
      by (auto simp: key_view_def)
    have "x \<notin> set (db_rows (rc_queue r))" using new(1) find_key_Some [OF x(1)] by (auto simp: find_key_def find_None_iff)
    then have "r_next_attempt_at x = None" "deliverable el (wk_lookup w) x" using rows [of x] find_key_Some [OF x(1)] by blast+
    with all x(1,3) obtain y where "find_key (key i p) (wk_queue w') = Some y" "same_mail x Delivered y" by blast
    then show ?thesis using x(2) by (simp add: same_mail_def)
  qed
  with w' show ?thesis by blast
qed

section \<open>From the verdict to the delivery\<close>

text \<open>The place of an accepted recipient in the envelope: the number of accepted ones before it.\<close>

definition place :: "string result list \<Rightarrow> nat \<Rightarrow> nat" where
  "place answers j = length (filter (\<lambda>reply1. reply1 = Ok ''250 OK'') (take j answers))"

lemma filter_nth_place: "j < length xs \<Longrightarrow> P (xs ! j) \<Longrightarrow> length (filter P (take j xs)) < length (filter P xs) \<and>
    filter P xs ! length (filter P (take j xs)) = xs ! j"
proof -
  assume j: "j < length xs" "P (xs ! j)"
  then have "filter P (take j xs @ xs ! j # drop (Suc j) xs) = filter P (take j xs) @ xs ! j # filter P (drop (Suc j) xs)" by simp
  moreover have "take j xs @ xs ! j # drop (Suc j) xs = xs" using j by (simp add: id_take_nth_drop [symmetric])
  ultimately have "filter P xs = filter P (take j xs) @ xs ! j # filter P (drop (Suc j) xs)" by simp
  then show ?thesis by simp
qed

lemma filter_place_ex: "i < length (filter P xs) \<Longrightarrow> \<exists>j < length xs. P (xs ! j) \<and> i = length (filter P (take j xs))"
proof (induction xs arbitrary: i)
  case (Cons x xs)
  show ?case
  proof (cases "P x \<and> i = 0")
    case True
    then show ?thesis by (intro exI [of _ 0]) simp
  next
    case False
    have "(if P x then i - 1 else i) < length (filter P xs)" using Cons.prems False by (cases "P x") auto
    from Cons.IH [OF this] obtain j where "j < length xs" "P (xs ! j)" "(if P x then i - 1 else i) = length (filter P (take j xs))"
      by blast
    then show ?thesis using False by (intro exI [of _ "Suc j"]) (auto split: if_splits)
  qed
qed simp

lemma place_filter: "list_all2 (\<lambda>reply1 a. reply1 = Ok ''250 OK'' \<longleftrightarrow> P a) answers xs \<Longrightarrow>
    place answers j = length (filter P (take j xs))"
  unfolding place_def
  by (induction arbitrary: j rule: list_all2_induct) (auto simp: take_Cons split: nat.split)


lemma toy_served: "filter (serves known_table) [''firma@h.cz'', ''nikdo@h.cz''] = [''firma@h.cz'']"
proof -
  have "serves known_table ''firma@h.cz''"
    using toy_parse toy_resolve by (simp add: serves_def resolve_def refresh_def known_table_def)
  then show ?thesis using known_serves(2) by simp
qed


end
