(* ===== verification/Outage.thy ===== *)
theory Outage
  imports Polls
begin

text \<open>
  Data sources that are down: every request ends in a failure that asks for another attempt.
  The polls are those of the real loop, over a queue of any content; how long a mail is tried
  is counted in polls, which are far enough apart for the schedule.
\<close>

section \<open>An environment that is down\<close>

text \<open>An answer that asks for another attempt, whatever is sent.\<close>

definition outage :: "(request \<Rightarrow> post_outcome) \<Rightarrow> bool" where
  "outage post \<longleftrightarrow> (\<forall>ds m fb p raw k. \<exists>r. send post ds m fb p raw k = Ok r \<and> \<not> success r \<and> dr_retry r)"

lemma outage_timeout: "outage (\<lambda>_. Timeout x)"
  by (simp add: outage_def send_def no_answer_def success_def)

text \<open>The delays of the configuration lead to dates; the next poll comes when they have passed.\<close>

definition schedules :: "worker_config \<Rightarrow> datetime \<Rightarrow> bool" where
  "schedules cfg now \<longleftrightarrow> backoff cfg \<noteq> [] \<and> (\<forall>d \<in> set (backoff cfg). \<exists>t'. dt_add now (d * 1000000) = Ok t')"

definition patient :: "worker_config \<Rightarrow> tick_env \<Rightarrow> tick_env \<Rightarrow> bool" where
  "patient cfg te te' \<longleftrightarrow> (\<forall>j. \<forall>d \<in> set (backoff cfg).
     int (dt_us (en_now (tk_items te j))) + d * 1000000 \<le> int (dt_us (utcnow (tk_now te'))))"

definition down :: "worker_config \<Rightarrow> lookup_table \<Rightarrow> delivery_env \<Rightarrow> bool" where
  "down cfg t env \<longleftrightarrow> outage (en_post env) \<and> steady t env \<and> schedules cfg (en_now env)"

definition down_tick :: "worker_config \<Rightarrow> lookup_table \<Rightarrow> tick_env \<Rightarrow> bool" where
  "down_tick cfg t te \<longleftrightarrow> smooth te \<and> clock_ok (tk_now te) \<and> (\<forall>j. down cfg t (tk_items te j))"

section \<open>One failed attempt\<close>

text \<open>
  What a failed attempt leaves: the row pending with the attempt counted and the delay added to
  the clock, or a dead letter when it was the last attempt or the mail cannot be sent at all.
\<close>

definition rescheduled :: "worker_config \<Rightarrow> datetime \<Rightarrow> row \<Rightarrow> row \<Rightarrow> bool" where
  "rescheduled cfg now r r' \<longleftrightarrow> same_mail r Pending r' \<and> r_attempt_count r' = r_attempt_count r + 1 \<and>
     (\<exists>d \<in> set (backoff cfg). \<exists>t'. dt_add now (d * 1000000) = Ok t' \<and> r_next_attempt_at r' = Some (iso_text (replace_tz None t')))"

definition failed_row :: "email_lib \<Rightarrow> worker_config \<Rightarrow> lookup_table \<Rightarrow> delivery_env \<Rightarrow> row \<Rightarrow> row \<Rightarrow> bool" where
  "failed_row el cfg t env r r' \<longleftrightarrow> (if deliverable el t r \<and> r_attempt_count r + 1 < max_attempts cfg
     then rescheduled cfg (en_now env) r r' else same_mail r Dead_Letter r')"

lemma backoff_in: "1 \<le> n \<Longrightarrow> backoff cfg \<noteq> [] \<Longrightarrow> \<exists>d \<in> set (backoff cfg). backoff_seconds cfg n = Ok d"
proof -
  assume n: "1 \<le> n" and b: "backoff cfg \<noteq> []"
  define k where "k = min n (int (length (backoff cfg)) - 1)"
  have "0 \<le> k" "nat k < length (backoff cfg)"
    using n b length_greater_0_conv [of "backoff cfg"] unfolding k_def by linarith+
  then show ?thesis by (simp add: backoff_seconds_def py_index_def Let_def flip: k_def)
qed

lemma process_fails:
  assumes "down cfg (wk_lookup w) env" and "row_ok r" and "deliverable el (wk_lookup w) r"
  shows "\<exists>r' w'. process el cfg env (row_to_item now r) w = (Ok (), w') \<and> updates_row r r' w w' \<and>
    failed_row el cfg (wk_lookup w) env r r'"
proof -
  let ?item = "row_to_item now r" and ?n = "r_attempt_count r + 1"
  have it: "qi_id ?item = r_id r" "qi_ds_id ?item = r_ds_id r" "qi_raw_eml ?item = r_raw_eml r" "qi_attempt_count ?item = r_attempt_count r"
    by (simp_all add: row_to_item_def)
  have env: "en_fault env = None" "\<And>e. en_smtp env \<noteq> Build_Raises e" "clock_ok (en_now env)"
    using assms(1) by (simp_all add: down_def steady_def)
  obtain fb where fb: "received_fallback ?item = Ok fb" using received_fallback_ok [OF assms(2)] by blast
  obtain ds where ds: "resolve (en_obs env) (qi_ds_id ?item) (wk_lookup w) = Ok (Some ds, wk_lookup w)"
    using assms(1,3) it by (auto simp: down_def steady_def deliverable_def settled_def resolve_def)
  obtain parsed where p: "parse_eml el (qi_raw_eml ?item) = Ok parsed" using assms(3) it by (auto simp: deliverable_def)
  obtain a where a: "send (en_post env) ds (qi_mailbox ?item) fb parsed (qi_raw_eml ?item) (delivery_key ?item) = Ok a"
    "\<not> success a" "dr_retry a"
    using assms(1) unfolding down_def outage_def by blast
  define err where "err = ''HTTP '' @ int_str (dr_status_code a) @ '': '' @ error_str (dr_error a)"
  have s: "process el cfg env ?item w = settle cfg env ?item a w" using process_answered [OF ds p fb a(1)] by simp
  show ?thesis
  proof (cases "?n < max_attempts cfg")
    case True
    have "1 \<le> ?n" using assms(2) by (simp add: row_ok_def)
    then obtain d t' where d: "d \<in> set (backoff cfg)" "backoff_seconds cfg ?n = Ok d" "dt_add (en_now env) (d * 1000000) = Ok t'"
      using backoff_in assms(1) unfolding down_def schedules_def by blast
    have "clock_ok t'" using dt_add_clock [OF env(3) d(3)] .
    then have out: "settle cfg env ?item a w = (Ok (), w\<lparr>wk_queue :=
        update_where (\<lambda>x. r_id x = r_id r) (\<lambda>x. x\<lparr>r_state := Pending, r_attempt_count := ?n,
          r_next_attempt_at := Some (iso_text (replace_tz None t')), r_last_error := Some err\<rparr>) (wk_queue w)\<rparr>)"
      using a(2,3) True d(2,3) env(1) by (simp add: settle_def record_in_def mark_retry_clock it Let_def err_def)
    let ?D = "\<lambda>x. x\<lparr>r_state := Pending, r_attempt_count := ?n,
      r_next_attempt_at := Some (iso_text (replace_tz None t')), r_last_error := Some err\<rparr>"
    have "updates_row r (?D (set_state In_Flight r)) w (w\<lparr>wk_queue := update_where (\<lambda>x. r_id x = r_id r) ?D (wk_queue w)\<rparr>)"
      unfolding updates_row_def by (intro conjI exI [of _ ?D]) simp_all
    moreover have "failed_row el cfg (wk_lookup w) env r (?D (set_state In_Flight r))"
      using True assms(3) d by (auto simp: failed_row_def rescheduled_def same_mail_def set_state_def payload_def)
    ultimately show ?thesis unfolding s out by blast
  next
    case False
    let ?why = "''max_attempts exceeded after '' @ err"
    obtain res w' where dl: "dead_letter env ?item ?why w = (res, w')" by fastforce
    then have out: "res = Ok ()" "wk_lookup w' = wk_lookup w" "wk_queue w' = mark_dead_letter (r_id r) ?why (wk_queue w)"
      using dead_letter_cases [OF dl] env by (auto simp: it)
    have "settle cfg env ?item a w = (res, w')"
      using a(2,3) False dl by (simp add: settle_def it Let_def err_def)
    let ?D = "\<lambda>x. x\<lparr>r_state := Dead_Letter, r_dead_letter_reason := Some ?why, r_last_error := Some ?why\<rparr>"
    have "updates_row r (?D (set_state In_Flight r)) w w'"
      unfolding updates_row_def using out(2,3) by (intro conjI exI [of _ ?D]) (simp_all add: mark_dead_letter_def)
    moreover have "failed_row el cfg (wk_lookup w) env r (?D (set_state In_Flight r))"
      using False by (simp add: failed_row_def same_mail_def set_state_def payload_def)
    ultimately show ?thesis using s \<open>settle cfg env ?item a w = (res, w')\<close> out(1) by metis
  qed
qed

interpretation down_polls: poll_contract el cfg t "down cfg t" "can_settle el t" "failed_row el cfg t" for el cfg t
proof unfold_locales
  fix env r now and w :: worker
  assume a: "down cfg t env" "wk_lookup w = t" "row_ok r" "can_settle el t r"
  show "\<exists>r' w'. process el cfg env (row_to_item now r) w = (Ok (), w') \<and> updates_row r r' w w' \<and> failed_row el cfg t env r r'"
  proof (cases "deliverable el t r")
    case True
    then show ?thesis using process_fails [of cfg w env r el now] a by simp
  next
    case False
    then show ?thesis using process_undeliverable [of w env el r cfg now] a by (auto simp: failed_row_def down_def)
  qed
qed (auto simp: failed_row_def rescheduled_def same_mail_def down_def steady_def split: if_splits)

section \<open>How long a mail is tried\<close>

lemma rescheduled_due:
  assumes "rescheduled cfg (en_now (tk_items te j)) r r'" and "patient cfg te te'" and "clock_ok (en_now (tk_items te j))"
    and "clock_ok (tk_now te')"
  shows "due (iso_text (utcnow (tk_now te'))) r'"
proof -
  obtain d t' where d: "d \<in> set (backoff cfg)" "dt_add (en_now (tk_items te j)) (d * 1000000) = Ok t'"
    "r_next_attempt_at r' = Some (iso_text (replace_tz None t'))" and s: "r_state r' = Pending"
    using assms(1) by (auto simp: rescheduled_def same_mail_def)
  have "int (dt_us t') = int (dt_us (en_now (tk_items te j))) + d * 1000000"
    using d(2) by (auto simp: dt_add_def Let_def split: if_splits)
  then have "int (dt_us t') \<le> int (dt_us (utcnow (tk_now te')))" using assms(2) d(1) by (simp add: patient_def)
  moreover have "dt_us t' < max_us" using dt_add_clock [OF assms(3) d(2)] by (simp add: clock_ok_def)
  moreover have "replace_tz None t' = \<lparr>dt_us = dt_us t', dt_tz = None\<rparr>" by (cases t') (simp add: replace_tz_def)
  ultimately show ?thesis
    using naive_le_aware [of "dt_us t'" "tk_now te'"] assms(4) d(3) s by (simp add: due_def)
qed

definition tries_left :: "worker_config \<Rightarrow> row \<Rightarrow> nat" where
  "tries_left cfg r = nat (max 1 (max_attempts cfg - r_attempt_count r))"

text \<open>What a row is after a number of polls under an outage.\<close>

definition tried :: "worker_config \<Rightarrow> nat \<Rightarrow> row \<Rightarrow> row \<Rightarrow> bool" where
  "tried cfg k r r' \<longleftrightarrow> payload r' = payload r \<and>
     (if k < tries_left cfg r then r_state r' = Pending \<and> r_attempt_count r' = r_attempt_count r + int k
      else r_state r' = Dead_Letter)"

lemma down_poll:
  assumes "db_inv (wk_queue w)" and "down_tick cfg (wk_lookup w) te" and "int (length (db_rows (wk_queue w))) \<le> batch_size cfg"
    and "\<And>x. x \<in> set (db_rows (wk_queue w)) \<Longrightarrow> r_state x = Pending \<Longrightarrow> can_settle el (wk_lookup w) x"
  shows "\<exists>w1. tick el cfg lim te w = (Ok (), w1) \<and> wk_lookup w1 = wk_lookup w \<and> db_inv (wk_queue w1) \<and>
    length (db_rows (wk_queue w1)) = length (db_rows (wk_queue w)) \<and>
    (\<forall>x \<in> set (db_rows (wk_queue w1)). r_state x = Pending \<longrightarrow> can_settle el (wk_lookup w) x) \<and>
    (\<forall>i r. find_id i (wk_queue w) = Some r \<longrightarrow> (\<exists>r1. find_id i (wk_queue w1) = Some r1 \<and>
      (if due (iso_text (utcnow (tk_now te))) r then \<exists>j. failed_row el cfg (wk_lookup w) (tk_items te j) r r1 else r1 = r)))"
proof -
  let ?now = "iso_text (utcnow (tk_now te))" and ?t = "wk_lookup w" and ?rows = "db_rows (wk_queue w)"
  define rs where "rs = select_due (tk_tie te) ?now (batch_size cfg) (wk_queue w)"
  have h: "smooth te" "\<And>j. down cfg ?t (tk_items te j)" using assms(2) by (simp_all add: down_tick_def)
  have "\<exists>w1. tick el cfg lim te w = (Ok (), w1) \<and> wk_lookup w1 = ?t \<and> db_inv (wk_queue w1) \<and>
      list_all2 (\<lambda>r r'. if r \<in> set rs then \<exists>j. failed_row el cfg ?t (tk_items te j) r r' else r' = r) ?rows (db_rows (wk_queue w1))"
    by (rule down_polls.poll_outcome [OF assms(1) h refl _ rs_def]) (rule assms(4))
  then obtain w1 where one: "tick el cfg lim te w = (Ok (), w1)" "wk_lookup w1 = ?t" "db_inv (wk_queue w1)"
    "list_all2 (\<lambda>r r'. if r \<in> set rs then \<exists>j. failed_row el cfg ?t (tk_items te j) r r' else r' = r) ?rows (db_rows (wk_queue w1))"
    by blast
  have "count_where (due ?now) (wk_queue w) \<le> int (length ?rows)" by (simp add: count_where_def)
  then have "int (length rs) = count_where (due ?now) (wk_queue w)"
    using length_select_due [of "batch_size cfg" "tk_tie te" ?now "wk_queue w"] assms(3) by (simp add: rs_def)
  then have all: "x \<in> set rs \<longleftrightarrow> due ?now x" if "x \<in> set ?rows" for x
    using due_all_selected [OF _ that] select_due_sub that by (auto simp: rs_def)
  define R where "R = (\<lambda>r r1. if due ?now r then \<exists>j. failed_row el cfg ?t (tk_items te j) r r1 else r1 = r)"
  have R: "list_all2 R ?rows (db_rows (wk_queue w1))" using one(4) all by (simp add: list_all2_conv_all_nth R_def)
  have same: "r_id r1 = r_id r \<and> payload r1 = payload r" if "R r r1" for r r1
    using that by (auto simp: R_def failed_row_def rescheduled_def same_mail_def split: if_splits)
  have "\<exists>r1. find_id i (wk_queue w1) = Some r1 \<and> R r r1" if "find_id i (wk_queue w) = Some r" for i r
    using find_list_all2 [OF R, of r_id i r] same that by (simp add: find_id_def)
  moreover have "can_settle el ?t x" if x: "x \<in> set (db_rows (wk_queue w1))" "r_state x = Pending" for x
  proof -
    obtain k where k: "k < length ?rows" "R (?rows ! k) x" using R x(1) by (auto simp: list_all2_conv_all_nth in_set_conv_nth)
    have "r_state (?rows ! k) = Pending" using k(2) x(2) by (auto simp: R_def due_def split: if_splits)
    with assms(4) k(1) have "can_settle el ?t (?rows ! k)" by simp
    moreover have "payload x = payload (?rows ! k)" using same [OF k(2)] by simp
    ultimately show ?thesis using can_settle_same by blast
  qed
  ultimately show ?thesis using one(1-3) list_all2_lengthD [OF R] unfolding R_def by (intro exI [of _ w1]) simp
qed

lemma down_run:
  assumes "db_inv (wk_queue w)" and "list_all (down_tick cfg (wk_lookup w)) tes" and "successively (patient cfg) tes"
    and "int (length (db_rows (wk_queue w))) \<le> batch_size cfg"
    and "\<And>x. x \<in> set (db_rows (wk_queue w)) \<Longrightarrow> r_state x = Pending \<Longrightarrow> can_settle el (wk_lookup w) x"
    and "find_id i (wk_queue w) = Some r"
    and "r_state r = Pending \<Longrightarrow> deliverable el (wk_lookup w) r"
    and "r_state r = Pending \<Longrightarrow> tes \<noteq> [] \<Longrightarrow> due (iso_text (utcnow (tk_now (tes ! 0)))) r"
  shows "\<exists>w' r'. ticks el cfg lim tes w = (Ok (), w') \<and> find_id i (wk_queue w') = Some r' \<and>
    (if r_state r = Pending then tried cfg (length tes) r r' else r' = r)"
  using assms
proof (induction tes arbitrary: w r)
  case Nil
  then show ?case by (simp add: tried_def tries_left_def less_max_iff_disj)
next
  case (Cons te tes)
  let ?t = "wk_lookup w" and ?now = "iso_text (utcnow (tk_now te))"
  have down: "down_tick cfg ?t te" using Cons.prems(2) by simp
  obtain w1 where one: "tick el cfg lim te w = (Ok (), w1)" "wk_lookup w1 = ?t" "db_inv (wk_queue w1)"
    "length (db_rows (wk_queue w1)) = length (db_rows (wk_queue w))"
    "\<forall>x \<in> set (db_rows (wk_queue w1)). r_state x = Pending \<longrightarrow> can_settle el ?t x"
    and rows: "\<forall>i r. find_id i (wk_queue w) = Some r \<longrightarrow> (\<exists>r1. find_id i (wk_queue w1) = Some r1 \<and>
      (if due ?now r then \<exists>j. failed_row el cfg ?t (tk_items te j) r r1 else r1 = r))"
    using down_poll [where lim = lim, OF Cons.prems(1) down Cons.prems(4,5)] by blast
  obtain r1 where f1: "find_id i (wk_queue w1) = Some r1"
    and r1: "if due ?now r then \<exists>j. failed_row el cfg ?t (tk_items te j) r r1 else r1 = r"
    using rows Cons.prems(6) by blast
  have del: "r_state r1 = Pending \<Longrightarrow> deliverable el ?t r1"
  proof -
    assume p: "r_state r1 = Pending"
    then have "r_state r = Pending" "payload r1 = payload r"
      using r1 by (auto simp: failed_row_def rescheduled_def same_mail_def due_def split: if_splits)
    then show ?thesis using Cons.prems(7) deliverable_same by blast
  qed
  have due1: "due (iso_text (utcnow (tk_now (tes ! 0)))) r1" if p: "r_state r1 = Pending" and more: "tes \<noteq> []"
  proof -
    obtain te' tes' where te': "tes = te' # tes'" using more by (cases tes) auto
    have "r_state r = Pending" using r1 p by (auto simp: due_def split: if_splits)
    then have "due ?now r" using Cons.prems(8) by simp
    then obtain j where "failed_row el cfg ?t (tk_items te j) r r1" using r1 by auto
    then have "rescheduled cfg (en_now (tk_items te j)) r r1"
      using p by (auto simp: failed_row_def same_mail_def split: if_splits)
    then show ?thesis
      using Cons.prems(2,3) by (simp add: te', intro rescheduled_due) (auto simp: down_tick_def down_def steady_def)
  qed
  have "\<exists>w' r'. ticks el cfg lim tes w1 = (Ok (), w') \<and> find_id i (wk_queue w') = Some r' \<and>
      (if r_state r1 = Pending then tried cfg (length tes) r1 r' else r' = r1)"
  proof (rule Cons.IH [OF one(3) _ _ _ _ f1])
    show "successively (patient cfg) tes" using Cons.prems(3) by (cases tes) simp_all
  qed (use Cons.prems(2,4) one(2,4,5) del due1 in simp_all)
  then obtain w' r' where rest: "ticks el cfg lim tes w1 = (Ok (), w')" "find_id i (wk_queue w') = Some r'"
    "if r_state r1 = Pending then tried cfg (length tes) r1 r' else r' = r1"
    by blast
  have "if r_state r = Pending then tried cfg (length (te # tes)) r r' else r' = r"
  proof (cases "r_state r = Pending")
    case True
    then obtain j where f: "failed_row el cfg ?t (tk_items te j) r r1" using r1 Cons.prems(8) by auto
    have d: "deliverable el ?t r" using True Cons.prems(7) by simp
    show ?thesis
    proof (cases "r_attempt_count r + 1 < max_attempts cfg")
      case more: True
      then have r1': "same_mail r Pending r1" "r_attempt_count r1 = r_attempt_count r + 1"
        using f d by (simp_all add: failed_row_def rescheduled_def)
      have "tries_left cfg r = Suc (tries_left cfg r1)" using more r1'(2) by (simp add: tries_left_def)
      then show ?thesis using True rest(3) r1' by (auto simp: tried_def same_mail_def)
    next
      case False
      then have "same_mail r Dead_Letter r1" "tries_left cfg r = 1" using f d by (simp_all add: failed_row_def tries_left_def)
      then show ?thesis using True rest(3) by (simp add: tried_def same_mail_def)
    qed
  next
    case False
    then show ?thesis using r1 rest(3) by (simp add: due_def)
  qed
  with one(1) rest(1,2) show ?case by auto
qed


definition down_at :: "nat \<Rightarrow> tick_env" where
  "down_at n = toy_tick\<lparr>tk_now := utc (n * 2000000000), tk_items := (\<lambda>_. timeout_env\<lparr>en_now := utc (n * 2000000000)\<rparr>)\<rparr>"

lemma down_at_ok: "n < 40 \<Longrightarrow> down_tick default_worker_config known_table (down_at n)"
proof -
  assume n: "n < 40"
  have "dt_add (utc (n * 2000000000)) (d * 1000000) = Ok (utc (nat (int n * 2000000000 + d * 1000000)))"
    if "d \<in> set (backoff default_worker_config)" for d
    using that n by (auto simp: dt_add_def utc_def max_us_def default_worker_config_def)
  then have "schedules default_worker_config (utc (n * 2000000000))"
    by (auto simp: schedules_def default_worker_config_def)
  moreover have "clock_ok (utc (n * 2000000000))" using n by (simp add: clock_ok_def utc_def max_us_def)
  ultimately show ?thesis
    using outage_timeout known_settled
    by (simp add: down_tick_def down_def down_at_def smooth_def steady_def toy_tick_def timeout_env_def)
qed

lemma down_at_patient: "patient default_worker_config (down_at n) (down_at (Suc n))"
proof -
  have "1000000 dvd Suc n * 2000000000" by simp
  then have "utcnow (utc (Suc n * 2000000000)) = utc (Suc n * 2000000000)"
    by (simp add: utcnow_def drop_micros_def utc_def)
  then show ?thesis
    by (auto simp: patient_def down_at_def default_worker_config_def utc_def)
qed


end
